(* ===== verification/Prelude.thy ===== *)
theory Prelude
  imports Main "HOL-Library.Word"
begin

text \<open>
  The shared layer of the development: the machine types of the Go source, the two ways a Go
  call can fail to return (a run-time panic, or blocking and spinning forever), Go slices and the
  built-in \<open>copy\<close>, the big-endian integers of \<open>encoding/binary\<close>, and the lemmas on
  lists and on 32-bit words that the component theories use.
\<close>

unbundle bit_operations_syntax

named_theorems go_simps \<open>evaluation of the Go failure monad, of slices and of copy\<close>
named_theorems ring_simps \<open>laws of the circular buffers\<close>
named_theorems u32_nat \<open>32-bit arithmetic read as natural numbers when nothing wraps\<close>

type_synonym u8 = "8 word"
type_synonym u16 = "16 word"
type_synonym u32 = "32 word"
type_synonym byte = u8

section \<open>Calls that do not return\<close>

text \<open>
  \<open>Panic\<close> is a Go run-time panic (slice bounds, nil map entry, nil dereference);
  \<open>Hang\<close> is a call that blocks or spins forever. An ordinary error result of the source is
  not a failure of this type: it is part of the returned value.
\<close>

datatype go_fail = Panic | Hang

type_synonym 'a go = "go_fail + 'a"

definition gbind :: "'a go \<Rightarrow> ('a \<Rightarrow> 'b go) \<Rightarrow> 'b go" where
  "gbind m f = (case m of Inl e \<Rightarrow> Inl e | Inr x \<Rightarrow> f x)"

lemma gbind_simps [simp, go_simps]:
  "gbind (Inl e) f = Inl e"
  "gbind (Inr x) f = f x"
  by (simp_all add: gbind_def)

lemma gbind_cong [fundef_cong]:
  "m = m' \<Longrightarrow> (\<And>x. m' = Inr x \<Longrightarrow> f x = f' x) \<Longrightarrow> gbind m f = gbind m' f'"
  by (cases m') auto

lemma gbind_Inr_iff: "gbind m f = Inr y \<longleftrightarrow> (\<exists>x. m = Inr x \<and> f x = Inr y)"
  by (cases m) auto

definition of_loop :: "'a go option \<Rightarrow> 'a go" where
  \<comment> \<open>a loop modelled by \<open>partial_function (option)\<close>: no result means that it never ends\<close>
  "of_loop r = (case r of None \<Rightarrow> Inl Hang | Some x \<Rightarrow> x)"

lemma of_loop_simps [simp, go_simps]:
  "of_loop None = Inl Hang"
  "of_loop (Some x) = x"
  by (simp_all add: of_loop_def)

section \<open>Slices and copy\<close>

text \<open>
  \<open>slice xs lo hi\<close> is \<open>xs[lo:hi]\<close>; outside \<open>lo \<le> hi \<le> len(xs)\<close> Go panics (the slices
  of the source that are modelled here come from \<open>make\<close>, so capacity and length agree).
  \<open>copy_into buf lo hi src\<close> is \<open>copy(buf[lo:hi], src)\<close>: the shorter of the two decides how
  much is copied.
\<close>

definition slice :: "'a list \<Rightarrow> nat \<Rightarrow> nat \<Rightarrow> 'a list go" where
  "slice xs lo hi = (if lo \<le> hi \<and> hi \<le> length xs then Inr (take (hi - lo) (drop lo xs)) else Inl Panic)"

definition copy_into :: "'a list \<Rightarrow> nat \<Rightarrow> nat \<Rightarrow> 'a list \<Rightarrow> 'a list go" where
  "copy_into buf lo hi src =
     (if lo \<le> hi \<and> hi \<le> length buf
      then let n = min (hi - lo) (length src)
           in Inr (take lo buf @ take n src @ drop (lo + n) buf)
      else Inl Panic)"

lemma slice_ok [go_simps]:
  "lo \<le> hi \<Longrightarrow> hi \<le> length xs \<Longrightarrow> slice xs lo hi = Inr (take (hi - lo) (drop lo xs))"
  by (simp add: slice_def)

lemma copy_into_fits [go_simps]:
  assumes "lo + length src \<le> hi" and "hi \<le> length buf"
  shows "copy_into buf lo hi src = Inr (take lo buf @ src @ drop (lo + length src) buf)"
proof -
  have "min (hi - lo) (length src) = length src" using assms by simp
  then show ?thesis using assms by (simp add: copy_into_def)
qed

lemma copy_into_length:
  "copy_into buf lo hi src = Inr buf' \<Longrightarrow> length buf' = length buf"
  by (auto simp: copy_into_def Let_def min_def split: if_splits)

section \<open>32-bit arithmetic without wrap-around\<close>

lemma unat_add_u32 [u32_nat]:
  "unat (a :: u32) + unat b < 4294967296 \<Longrightarrow> unat (a + b) = unat a + unat b"
  by (simp add: unat_word_ariths)

lemma unat_sub_u32 [u32_nat]:
  "(b :: u32) \<le> a \<Longrightarrow> unat (a - b) = unat a - unat b"
  by (rule unat_sub)

lemma unat_mod_u32 [u32_nat]: "unat ((a :: u32) mod b) = unat a mod unat b"
  by (rule unat_mod_distrib)

lemma unat_of_nat_u32: "n < 4294967296 \<Longrightarrow> unat (of_nat n :: u32) = n"
  by (simp add: unat_of_nat take_bit_eq_mod)

lemma unat_u32_less: "unat (a :: u32) < 4294967296"
  using unsigned_less [of a] by simp

lemma u32_le_nat: "(a :: u32) \<le> b \<longleftrightarrow> unat a \<le> unat b"
  by (rule word_le_nat_alt)

lemma u32_less_nat: "(a :: u32) < b \<longleftrightarrow> unat a < unat b"
  by (rule word_less_nat_alt)

lemma u32_eq_nat: "(a :: u32) = b \<longleftrightarrow> unat a = unat b"
  by (rule word_unat_eq_iff)

lemmas u32_nat_iffs = u32_le_nat u32_less_nat u32_eq_nat

lemma unat_u16_less: "unat (w :: u16) < 65536"
  using unsigned_less [of w, where ?'a = nat] by simp

lemma unat_ucast_u16 [simp]: "unat (ucast (w :: u16) :: u32) = unat w"
  using unat_u16_less [of w] by (simp add: unsigned_ucast_eq take_bit_nat_eq_self)

section \<open>Sorted queues\<close>

lemma sorted_map_dropWhile: "sorted (map f xs) \<Longrightarrow> sorted (map f (dropWhile P xs))"
  by (metis drop_map dropWhile_eq_drop sorted_wrt_drop)

lemma dropWhile_below: "sorted (map f xs) \<Longrightarrow> x \<in> set (dropWhile (\<lambda>x. f x < k) xs) \<Longrightarrow> k \<le> (f x :: 'a :: linorder)"
  by (induction xs) (auto split: if_splits)

section \<open>Big-endian integers\<close>

definition be16 :: "u16 \<Rightarrow> byte list" where
  "be16 w = [ucast (drop_bit 8 w), ucast w]"

definition be32 :: "u32 \<Rightarrow> byte list" where
  "be32 w = [ucast (drop_bit 24 w), ucast (drop_bit 16 w), ucast (drop_bit 8 w), ucast w]"

fun get_be16 :: "byte list \<Rightarrow> u16 go" where
  "get_be16 (a # b # _) = Inr (push_bit 8 (ucast a) OR ucast b)"
| "get_be16 _ = Inl Panic"

fun get_be32 :: "byte list \<Rightarrow> u32 go" where
  "get_be32 (a # b # c # d # _) =
     Inr (push_bit 24 (ucast a) OR push_bit 16 (ucast b) OR push_bit 8 (ucast c) OR ucast d)"
| "get_be32 _ = Inl Panic"

lemma length_be [simp]: "length (be16 v) = 2" "length (be32 w) = 4"
  by (simp_all add: be16_def be32_def)

lemma be16_join: "push_bit 8 (ucast (ucast (drop_bit 8 w) :: byte)) OR ucast (ucast w :: byte) = (w :: u16)"
  by (rule bit_word_eqI) (auto simp: bit_simps)

lemma be32_join:
  "push_bit 24 (ucast (ucast (drop_bit 24 w) :: byte))
     OR push_bit 16 (ucast (ucast (drop_bit 16 w) :: byte))
     OR push_bit 8 (ucast (ucast (drop_bit 8 w) :: byte)) OR ucast (ucast w :: byte) = (w :: u32)"
  (is "?lhs = w")
proof (rule bit_word_eqI)
  fix n assume "n < LENGTH(32)"
  then consider "n < 8" | "8 \<le> n" "n < 16" | "16 \<le> n" "n < 24" | "24 \<le> n" "n < 32"
    by force
  then show "bit ?lhs n = bit w n"
    by cases (auto simp: bit_simps)
qed

lemma get_be16_be16 [simp, go_simps]: "get_be16 (be16 w @ rest) = Inr w"
  by (simp add: be16_def be16_join)

lemma get_be32_be32 [simp, go_simps]: "get_be32 (be32 w @ rest) = Inr w"
  by (simp add: be32_def be32_join)

end
