(* ===== verification/RingBuffer.thy ===== *)
theory RingBuffer
  imports Prelude
begin

text \<open>
  The circular byte buffers of a connection (\<open>Send.Buffer\<close> and \<open>Receive.Buffer\<close> in
  \<open>src/pkg/tcp/tcp_handler.go\<close>). Positions are absolute sequence numbers; the source reduces them
  with \<open>SequenceToBufferInd\<close> and moves data with one or two block copies. This theory holds the
  reference operations that store and fetch one byte at a time, the interface \<open>byte_ring\<close> that
  the send and receive paths rely on, and the facts that turn a pair of block copies into a
  reference operation.
\<close>

section \<open>Buffer size and index arithmetic\<close>

definition MAX_BUF_SIZE :: u32 where
  "MAX_BUF_SIZE = push_bit 16 1 - 1"

lemma MAX_BUF_SIZE_eq: "MAX_BUF_SIZE = 65535"
  by (simp add: MAX_BUF_SIZE_def)

lemma unat_MAX_BUF_SIZE [simp]: "unat MAX_BUF_SIZE = 65535"
  by (simp add: MAX_BUF_SIZE_eq)

definition SequenceToBufferInd :: "u32 \<Rightarrow> u32" where
  "SequenceToBufferInd val = val mod MAX_BUF_SIZE"

lemma unat_SequenceToBufferInd [u32_nat]: "unat (SequenceToBufferInd v) = unat v mod 65535"
  by (simp add: SequenceToBufferInd_def u32_nat)

definition Min32 :: "u32 \<Rightarrow> u32 \<Rightarrow> u32" where
  "Min32 val1 val2 = (if val1 < val2 then val1 else val2)"

lemma unat_Min32 [u32_nat]: "unat (Min32 a b) = min (unat a) (unat b)"
  by (simp add: Min32_def u32_nat_iffs)

lemma mod_shift_inj:
  fixes s i j n :: nat
  assumes "(s + i) mod n = (s + j) mod n" and "i < j + n" and "j < i + n"
  shows "i = j"
proof (rule ccontr)
  assume "i \<noteq> j"
  have "int n dvd int (s + i) - int (s + j)"
    using assms(1) by (metis mod_eq_dvd_iff of_nat_mod)
  then have "int n dvd int i - int j" by simp
  moreover have "int i - int j \<noteq> 0" and "\<bar>int i - int j\<bar> < int n"
    using \<open>i \<noteq> j\<close> assms(2,3) by auto
  ultimately show False
    using dvd_imp_le_int [of "int i - int j" "int n"] by simp
qed

section \<open>Reference operations: one byte at a time\<close>

fun ring_store :: "'a list \<Rightarrow> nat \<Rightarrow> 'a list \<Rightarrow> 'a list" where
  "ring_store b s [] = b"
| "ring_store b s (x # xs) = ring_store (b[s mod length b := x]) (Suc s) xs"

definition ring_at :: "'a list \<Rightarrow> nat \<Rightarrow> 'a" where
  "ring_at b p = b ! (p mod length b)"

definition ring_fetch :: "'a list \<Rightarrow> nat \<Rightarrow> nat \<Rightarrow> 'a list" where
  "ring_fetch b s n = map (\<lambda>i. ring_at b (s + i)) [0..<n]"

lemma length_ring_store [simp]: "length (ring_store b s xs) = length b"
  by (induction b s xs rule: ring_store.induct) auto

lemma length_ring_fetch [simp]: "length (ring_fetch b s n) = n"
  by (simp add: ring_fetch_def)

lemma nth_ring_fetch [simp]: "i < n \<Longrightarrow> ring_fetch b s n ! i = ring_at b (s + i)"
  by (simp add: ring_fetch_def)

lemma ring_store_append:
  "ring_store b s (xs @ ys) = ring_store (ring_store b s xs) (s + length xs) ys"
  by (induction b s xs rule: ring_store.induct) auto

lemma ring_store_nth_other:
  assumes "j < length b" and "\<And>i. i < length xs \<Longrightarrow> (s + i) mod length b \<noteq> j"
  shows "ring_store b s xs ! j = b ! j"
  using assms
proof (induction b s xs rule: ring_store.induct)
  case (2 b s x xs)
  have "s mod length b \<noteq> j" using "2.prems"(2) [of 0] by simp
  moreover have "(Suc s + i) mod length b \<noteq> j" if "i < length xs" for i
    using "2.prems"(2) [of "Suc i"] that by simp
  ultimately show ?case using "2.IH" "2.prems"(1) by simp
qed simp

lemma ring_at_store_in:
  assumes "length xs \<le> length b" and "i < length xs"
  shows "ring_at (ring_store b s xs) (s + i) = xs ! i"
  using assms
proof (induction b s xs arbitrary: i rule: ring_store.induct)
  case (2 b s x xs)
  show ?case
  proof (cases i)
    case 0
    have "(Suc s + j) mod length b \<noteq> s mod length b" if "j < length xs" for j
      using mod_shift_inj [of s "Suc j" "length b" 0] that "2.prems"(1) by auto
    moreover have "s mod length b < length b"
      using "2.prems"(1) by (intro mod_less_divisor) auto
    ultimately show ?thesis
      using 0 by (simp add: ring_at_def ring_store_nth_other)
  next
    case (Suc k)
    then show ?thesis using "2.IH" [of k] "2.prems" by simp
  qed
qed simp

lemma ring_at_store_out:
  assumes "0 < length b"
    and "p < s \<and> s + length xs \<le> p + length b \<or> s + length xs \<le> p \<and> p < s + length b"
  shows "ring_at (ring_store b s xs) p = ring_at b p"
proof -
  have "(s + i) mod length b \<noteq> p mod length b" if "i < length xs" for i
  proof
    assume "(s + i) mod length b = p mod length b"
    then have "s + i = p"
      using mod_shift_inj [of 0 "s + i" "length b" p] that assms(2) by auto
    with that assms(2) show False by auto
  qed
  then show ?thesis
    using assms(1) by (simp add: ring_at_def ring_store_nth_other)
qed

section \<open>The interface the send and receive paths rely on\<close>

text \<open>
  A ring of capacity \<open>cap\<close>: what is stored at a position is read back there, and a store of at
  most \<open>cap\<close> bytes leaves every other position of the same window of \<open>cap\<close> positions alone.
\<close>

locale byte_ring =
  fixes put :: "'r \<Rightarrow> nat \<Rightarrow> 'a list \<Rightarrow> 'r"
    and at :: "'r \<Rightarrow> nat \<Rightarrow> 'a"
    and get :: "'r \<Rightarrow> nat \<Rightarrow> nat \<Rightarrow> 'a list"
    and cap :: nat
    and wf :: "'r \<Rightarrow> bool"
  assumes wf_put: "wf r \<Longrightarrow> wf (put r s xs)"
    and get_at: "get r s n = map (\<lambda>i. at r (s + i)) [0..<n]"
    and at_put_in: "wf r \<Longrightarrow> length xs \<le> cap \<Longrightarrow> i < length xs \<Longrightarrow> at (put r s xs) (s + i) = xs ! i"
    and at_put_below: "wf r \<Longrightarrow> p < s \<Longrightarrow> s + length xs \<le> p + cap \<Longrightarrow> at (put r s xs) p = at r p"
    and at_put_above: "wf r \<Longrightarrow> s + length xs \<le> p \<Longrightarrow> p < s + cap \<Longrightarrow> at (put r s xs) p = at r p"
begin

lemma length_get: "length (get r s n) = n"
  by (simp add: get_at)

lemma nth_get: "i < n \<Longrightarrow> get r s n ! i = at r (s + i)"
  by (simp add: get_at)

lemma get_split: "get r s (m + n) = get r s m @ get r (s + m) n"
  by (rule nth_equalityI) (auto simp: length_get nth_get nth_append)

lemma get_cong: "(\<And>i. i < n \<Longrightarrow> at r (s + i) = at r' (s + i)) \<Longrightarrow> get r s n = get r' s n"
  by (rule nth_equalityI) (auto simp: length_get nth_get)

lemma get_sub: "m + n \<le> k \<Longrightarrow> get r (s + m) n = take n (drop m (get r s k))"
  by (rule nth_equalityI) (auto simp: length_get nth_get add.assoc)

lemma get_put_same: "wf r \<Longrightarrow> length xs \<le> cap \<Longrightarrow> get (put r s xs) s (length xs) = xs"
  by (rule nth_equalityI) (auto simp: length_get nth_get at_put_in)

lemma get_put_before:
  "wf r \<Longrightarrow> s0 + n \<le> s \<Longrightarrow> s + length xs \<le> s0 + cap \<Longrightarrow> get (put r s xs) s0 n = get r s0 n"
  by (rule get_cong) (auto intro: at_put_below)

lemma get_put_append:
  assumes "wf r" and "n + length xs \<le> cap"
  shows "get (put r (s + n) xs) s (n + length xs) = get r s n @ xs"
  using assms by (simp add: get_split get_put_same get_put_before)

end

interpretation ring: byte_ring ring_store ring_at ring_fetch 65535 "\<lambda>b. length b = 65535"
  by unfold_locales (auto simp: ring_fetch_def ring_at_store_in ring_at_store_out)

lemmas ring_facts = ring.get_put_append ring.get_put_before ring.get_put_same

section \<open>Block copies\<close>

text \<open>A store that does not reach the end of the buffer is one block copy.\<close>

lemma ring_store_block:
  assumes "s mod length b + length xs \<le> length b"
  shows "ring_store b s xs = take (s mod length b) b @ xs @ drop (s mod length b + length xs) b"
  using assms
proof (induction b s xs rule: ring_store.induct)
  case (1 b s)
  then show ?case by simp
next
  case (2 b s x xs)
  let ?i = "s mod length b"
  have i: "?i < length b" using "2.prems" by simp
  show ?case
  proof (cases "xs = []")
    case True
    then show ?thesis using i by (simp add: upd_conv_take_nth_drop)
  next
    case False
    with "2.prems" have "Suc ?i < length b" by (cases xs) auto
    then have m: "Suc s mod length b = Suc ?i" by (simp add: mod_Suc)
    have "ring_store (b[?i := x]) (Suc s) xs =
        take (Suc ?i) (b[?i := x]) @ xs @ drop (Suc ?i + length xs) (b[?i := x])"
      using "2.IH" "2.prems" m by simp
    moreover have "take (Suc ?i) (b[?i := x]) = take ?i b @ [x]"
      using i by (simp add: take_Suc_conv_app_nth)
    ultimately show ?thesis by simp
  qed
qed

text \<open>
  A store that reaches the end is two block copies, the second at the front of the buffer; the
  boundary case, in which the data ends exactly at the end, is handled by the same code with an
  empty second copy.
\<close>

lemma ring_store_wrap:
  assumes "s mod length b + length xs \<ge> length b" and "length xs \<le> length b" and "0 < length b"
  defines "k \<equiv> length b - s mod length b"
  shows "ring_store b s xs =
    drop k xs @ drop (length xs - k) (take (s mod length b) b @ take k xs)"
proof -
  let ?i = "s mod length b"
  have i: "?i < length b" using assms(3) by simp
  have k: "length (take k xs) = k" "k \<le> length xs" using assms(1) i by (auto simp: k_def)
  have end0: "(s + k) mod length b = 0"
    using i by (metis add_diff_inverse_nat k_def less_imp_le_nat mod_add_left_eq mod_self not_less)
  have "ring_store b s xs = ring_store (ring_store b s (take k xs)) (s + k) (drop k xs)"
    using ring_store_append [of b s "take k xs" "drop k xs"] k by simp
  moreover have "ring_store b s (take k xs) = take ?i b @ take k xs"
    using ring_store_block [of s b "take k xs"] k i by (simp add: k_def)
  moreover have "length (take ?i b @ take k xs) = length b" using k i by (simp add: k_def)
  ultimately show ?thesis
    using ring_store_block [of "s + k" "take ?i b @ take k xs" "drop k xs"] end0 assms(2)
    by simp
qed

text \<open>The same two cases for a fetch.\<close>

lemma ring_fetch_block:
  assumes "s mod length b + n \<le> length b"
  shows "ring_fetch b s n = take n (drop (s mod length b) b)"
proof (rule nth_equalityI)
  fix i assume "i < length (ring_fetch b s n)"
  then have "i < n" by simp
  with assms have "(s + i) mod length b = s mod length b + i"
    by (metis add.commute add_less_cancel_left mod_add_left_eq mod_less order_less_le_trans)
  then show "ring_fetch b s n ! i = take n (drop (s mod length b) b) ! i"
    using \<open>i < n\<close> assms by (simp add: ring_at_def)
qed (use assms in simp)

lemma ring_fetch_wrap:
  assumes "s mod length b + n \<ge> length b" and "n \<le> length b" and "0 < length b"
  shows "ring_fetch b s n = drop (s mod length b) b @ take (s mod length b + n - length b) b"
proof -
  let ?i = "s mod length b"
  let ?k = "length b - ?i"
  have i: "?i < length b" using assms(3) by simp
  have end0: "(s + ?k) mod length b = 0"
    using i by (metis add_diff_inverse_nat less_imp_le_nat mod_add_left_eq mod_self not_less)
  have "ring_fetch b s n = ring_fetch b s ?k @ ring_fetch b (s + ?k) (n - ?k)"
    using ring.get_split [of b s ?k "n - ?k"] assms(1) by simp
  then show ?thesis
    using ring_fetch_block [of s b ?k] ring_fetch_block [of "s + ?k" b "n - ?k"] i end0 assms
    by (simp add: add.commute)
qed

text \<open>
  The block copies of the source, with their bounds checks, are stores: the two copies around the
  end of the buffer, and the single copy.
\<close>

lemma store_two_copies:
  fixes buf :: "'a list"
  assumes "length buf = 65535" and "n \<le> 65535" and "a + n \<le> length src" and "65535 \<le> s mod 65535 + n"
  defines "k \<equiv> 65535 - s mod 65535"
  shows "gbind (slice src a (a + k)) (\<lambda>p1. gbind (copy_into buf (s mod 65535) 65535 p1) (\<lambda>buf1.
      gbind (slice src (a + k) (a + n)) (\<lambda>p2. copy_into buf1 0 (n - k) p2)))
    = Inr (ring_store buf s (take n (drop a src)))"
proof -
  let ?xs = "take n (drop a src)"
  have xs: "length ?xs = n" using assms(3) by simp
  have k: "k \<le> n" "s mod 65535 + k = 65535" using assms(4) by (auto simp: k_def)
  have "ring_store buf s ?xs = drop k ?xs @ drop (n - k) (take (s mod 65535) buf @ take k ?xs)"
    using ring_store_wrap [of buf s ?xs] assms xs by simp
  moreover have "take k ?xs = take k (drop a src)" "drop k ?xs = take (n - k) (drop (a + k) src)"
    using k by (simp_all add: drop_take ac_simps)
  ultimately show ?thesis
    using assms(1,2,3) k by (simp add: go_simps)
qed

lemma store_one_copy:
  fixes buf :: "'a list"
  assumes "length buf = 65535" and "a + n \<le> length src" and "s mod 65535 + n \<le> hi" and "hi \<le> 65535"
  shows "gbind (slice src a (a + n)) (\<lambda>p. copy_into buf (s mod 65535) hi p)
    = Inr (ring_store buf s (take n (drop a src)))"
  using ring_store_block [of s buf "take n (drop a src)"] assms by (simp add: go_simps)

end
