(* ===== verification/Segment.thy ===== *)
theory Segment
  imports RingBuffer
begin

text \<open>
  TCP headers and checksums: \<open>src/pkg/tcp/tcp_handler_utils.go\<close> and the header types of
  \<open>src/pkg/tcp/tcp_handler.go\<close>. The package \<open>netstack/tcpip/header\<close> is not part of the
  repository. It is the parameter \<open>netstack\<close> of every definition that calls it, and
  \<open>netstack_ok\<close> collects the documented behaviour the theorems use: the accessors read back what
  \<open>Encode\<close> wrote, the checksum is the one of RFC 1071, the flags are distinct bits.
\<close>

section \<open>Headers and the header package\<close>

record SocketData =
  LocalAddr :: u32
  LocalPort :: u16
  DestAddr :: u32
  DestPort :: u16

record TCPFields =
  SrcPort :: u16
  DstPort :: u16
  SeqNum :: u32
  AckNum :: u32
  DataOffset :: u8
  Flags :: u8
  WindowSize :: u16
  Checksum :: u16
  UrgentPointer :: u16

record netstack =
  header_Checksum :: "byte list \<Rightarrow> u16 \<Rightarrow> u16"
  TCP_Encode :: "TCPFields \<Rightarrow> byte list"
  TCP_SourcePort :: "byte list \<Rightarrow> u16 go"
  TCP_DestinationPort :: "byte list \<Rightarrow> u16 go"
  TCP_SequenceNumber :: "byte list \<Rightarrow> u32 go"
  TCP_AckNumber :: "byte list \<Rightarrow> u32 go"
  TCP_DataOffset :: "byte list \<Rightarrow> u8 go"
  TCP_Flags :: "byte list \<Rightarrow> u8 go"
  TCP_WindowSize :: "byte list \<Rightarrow> u16 go"
  TCP_Checksum :: "byte list \<Rightarrow> u16 go"
  TCPMinimumSize :: nat
  TCPProtocolNumber :: u8
  TCPFlagFin :: u8
  TCPFlagSyn :: u8
  TCPFlagAck :: u8

definition has_flag :: "TCPFields \<Rightarrow> u8 \<Rightarrow> bool" where
  \<comment> \<open>the test \<open>(tcpHeader.Flags() \& flag) != 0\<close> of the handlers\<close>
  "has_flag h flag \<longleftrightarrow> Flags h AND flag \<noteq> 0"

section \<open>Checksum, parsing and marshalling\<close>

definition ComputeTCPChecksum :: "netstack \<Rightarrow> TCPFields \<Rightarrow> u32 \<Rightarrow> u32 \<Rightarrow> byte list \<Rightarrow> u16" where
  "ComputeTCPChecksum ns tcpHdr sourceIP destIP payload =
     (let totalLen = TCPMinimumSize ns + length payload;
          pshBytes = be32 sourceIP @ be32 destIP @ [0, TCPProtocolNumber ns] @ be16 (of_nat totalLen);
          headerBytes = TCP_Encode ns tcpHdr;
          pseudoHeaderChecksum = header_Checksum ns pshBytes 0;
          headerChecksum = header_Checksum ns headerBytes pseudoHeaderChecksum;
          fullChecksum = header_Checksum ns payload headerChecksum
      in fullChecksum XOR 0xffff)"

definition ParseTCPHeader :: "netstack \<Rightarrow> byte list \<Rightarrow> TCPFields go" where
  "ParseTCPHeader ns tcpHeader =
     gbind (TCP_SourcePort ns tcpHeader) (\<lambda>sp.
     gbind (TCP_DestinationPort ns tcpHeader) (\<lambda>dp.
     gbind (TCP_SequenceNumber ns tcpHeader) (\<lambda>sq.
     gbind (TCP_AckNumber ns tcpHeader) (\<lambda>ak.
     gbind (TCP_DataOffset ns tcpHeader) (\<lambda>off.
     gbind (TCP_Flags ns tcpHeader) (\<lambda>fl.
     gbind (TCP_WindowSize ns tcpHeader) (\<lambda>wnd.
     gbind (TCP_Checksum ns tcpHeader) (\<lambda>ck.
       Inr \<lparr>SrcPort = sp, DstPort = dp, SeqNum = sq, AckNum = ak, DataOffset = off, Flags = fl,
            WindowSize = wnd, Checksum = ck, UrgentPointer = 0\<rparr>))))))))"

definition CreateTCPHeader ::
  "netstack \<Rightarrow> u32 \<Rightarrow> u32 \<Rightarrow> u16 \<Rightarrow> u16 \<Rightarrow> u32 \<Rightarrow> u32 \<Rightarrow> u8 \<Rightarrow> u32 \<Rightarrow> byte list \<Rightarrow> TCPFields" where
  "CreateTCPHeader ns srcAddr destAddr srcPort dstPort seqNum ackNum flags windowSize payload =
     (let tcpHdr = \<lparr>SrcPort = srcPort, DstPort = dstPort, SeqNum = seqNum, AckNum = ackNum,
                    DataOffset = 20, Flags = flags, WindowSize = ucast windowSize,
                    Checksum = 0, UrgentPointer = 0\<rparr>
      in tcpHdr\<lparr>Checksum := ComputeTCPChecksum ns tcpHdr srcAddr destAddr payload\<rparr>)"

definition MarshallTCPHeader :: "netstack \<Rightarrow> TCPFields \<Rightarrow> u32 \<Rightarrow> byte list" where
  "MarshallTCPHeader ns tcpHeader destAddr = TCP_Encode ns tcpHeader"

definition ip_message :: "netstack \<Rightarrow> u32 \<Rightarrow> u32 \<Rightarrow> TCPFields \<Rightarrow> byte list \<Rightarrow> byte list" where
  \<comment> \<open>the buffer every sender of the source builds for the IP layer: both addresses, header, payload\<close>
  "ip_message ns src dest hdr payload = be32 src @ be32 dest @ MarshallTCPHeader ns hdr dest @ payload"

lemma CreateTCPHeader_sel [simp]:
  "SrcPort (CreateTCPHeader ns sa da sp dp sq ak fl w pl) = sp"
  "DstPort (CreateTCPHeader ns sa da sp dp sq ak fl w pl) = dp"
  "SeqNum (CreateTCPHeader ns sa da sp dp sq ak fl w pl) = sq"
  "AckNum (CreateTCPHeader ns sa da sp dp sq ak fl w pl) = ak"
  "DataOffset (CreateTCPHeader ns sa da sp dp sq ak fl w pl) = 20"
  "Flags (CreateTCPHeader ns sa da sp dp sq ak fl w pl) = fl"
  "WindowSize (CreateTCPHeader ns sa da sp dp sq ak fl w pl) = ucast w"
  "UrgentPointer (CreateTCPHeader ns sa da sp dp sq ak fl w pl) = 0"
  by (simp_all add: CreateTCPHeader_def Let_def)

section \<open>Documented behaviour of the header package\<close>

fun sum16 :: "byte list \<Rightarrow> nat" where
  \<comment> \<open>RFC 1071: the data as big-endian 16-bit words, an odd last byte padded with zero\<close>
  "sum16 [] = 0"
| "sum16 [a] = unat a * 256"
| "sum16 (a # b # rest) = unat a * 256 + unat b + sum16 rest"

function fold16 :: "nat \<Rightarrow> nat" where
  \<comment> \<open>the end-around carry\<close>
  "fold16 n = (if n < 65536 then n else fold16 (n mod 65536 + n div 65536))"
  by pat_completeness auto
termination
proof (relation "measure id")
  fix n :: nat
  assume "\<not> n < 65536"
  then have "0 < n div 65536" by (simp add: div_greater_zero_iff)
  moreover have "n = 65536 * (n div 65536) + n mod 65536" by simp
  ultimately have "n mod 65536 + n div 65536 < n" by linarith
  then show "(n mod 65536 + n div 65536, n) \<in> measure id" by simp
qed simp

declare fold16.simps [simp del]

definition rfc1071 :: "byte list \<Rightarrow> u16 \<Rightarrow> u16" where
  "rfc1071 bs initial = of_nat (fold16 (sum16 bs + unat initial))"

definition accessors_ok :: "netstack \<Rightarrow> bool" where
  "accessors_ok ns \<longleftrightarrow> (\<forall>f rest.
     TCP_SourcePort ns (TCP_Encode ns f @ rest) = Inr (SrcPort f) \<and>
     TCP_DestinationPort ns (TCP_Encode ns f @ rest) = Inr (DstPort f) \<and>
     TCP_SequenceNumber ns (TCP_Encode ns f @ rest) = Inr (SeqNum f) \<and>
     TCP_AckNumber ns (TCP_Encode ns f @ rest) = Inr (AckNum f) \<and>
     TCP_Flags ns (TCP_Encode ns f @ rest) = Inr (Flags f) \<and>
     TCP_WindowSize ns (TCP_Encode ns f @ rest) = Inr (WindowSize f) \<and>
     TCP_Checksum ns (TCP_Encode ns f @ rest) = Inr (Checksum f) \<and>
     (DataOffset f = 20 \<longrightarrow> TCP_DataOffset ns (TCP_Encode ns f @ rest) = Inr 20))"

definition flags_ok :: "netstack \<Rightarrow> bool" where
  "flags_ok ns \<longleftrightarrow> TCPFlagFin ns = 1 \<and> TCPFlagSyn ns = 2 \<and> TCPFlagAck ns = 16"

definition netstack_ok :: "netstack \<Rightarrow> bool" where
  "netstack_ok ns \<longleftrightarrow> accessors_ok ns \<and> flags_ok ns \<and> header_Checksum ns = rfc1071 \<and>
     TCPMinimumSize ns = 20 \<and> (\<forall>f. length (TCP_Encode ns f) = 20)"

lemma sum16_append: "even (length xs) \<Longrightarrow> sum16 (xs @ ys) = sum16 xs + sum16 ys"
  by (induction xs rule: sum16.induct) auto

lemma ParseTCPHeader_Encode:
  assumes "accessors_ok ns" and "DataOffset f = 20" and "UrgentPointer f = 0"
  shows "ParseTCPHeader ns (TCP_Encode ns f @ rest) = Inr f"
  using assms by (simp add: accessors_ok_def ParseTCPHeader_def)

text \<open>
  Sender and receiver feed the two addresses to \<open>ComputeTCPChecksum\<close> in opposite order: the
  sender its own address first, the receiver also its own address first. The one's complement sum
  does not see the order.
\<close>

lemma ComputeTCPChecksum_swap:
  assumes "header_Checksum ns = rfc1071"
  shows "ComputeTCPChecksum ns hdr a b payload = ComputeTCPChecksum ns hdr b a payload"
proof -
  have "sum16 (be32 a @ be32 b @ rest) = sum16 (be32 b @ be32 a @ rest)" for rest
    by (simp add: sum16_append)
  then have "rfc1071 (be32 a @ be32 b @ rest) 0 = rfc1071 (be32 b @ be32 a @ rest) 0" for rest
    by (simp add: rfc1071_def)
  then show ?thesis
    by (simp add: ComputeTCPChecksum_def Let_def assms)
qed

section \<open>An instance\<close>

text \<open>
  The header layout of RFC 793 as a concrete \<open>netstack\<close>: it satisfies \<open>netstack_ok\<close>, so the
  theorems that assume it are not empty, and the examples below evaluate on it.
\<close>

definition rfc793 :: netstack where
  "rfc793 = \<lparr>
     header_Checksum = rfc1071,
     TCP_Encode = (\<lambda>f. be16 (SrcPort f) @ be16 (DstPort f) @ be32 (SeqNum f) @ be32 (AckNum f) @
        [push_bit 4 (DataOffset f div 4), Flags f] @
        be16 (WindowSize f) @ be16 (Checksum f) @ be16 (UrgentPointer f)),
     TCP_SourcePort = get_be16,
     TCP_DestinationPort = (\<lambda>b. get_be16 (drop 2 b)),
     TCP_SequenceNumber = (\<lambda>b. get_be32 (drop 4 b)),
     TCP_AckNumber = (\<lambda>b. get_be32 (drop 8 b)),
     TCP_DataOffset = (\<lambda>b. if 12 < length b then Inr (drop_bit 4 (b ! 12) * 4) else Inl Panic),
     TCP_Flags = (\<lambda>b. if 13 < length b then Inr (b ! 13) else Inl Panic),
     TCP_WindowSize = (\<lambda>b. get_be16 (drop 14 b)),
     TCP_Checksum = (\<lambda>b. get_be16 (drop 16 b)),
     TCPMinimumSize = 20,
     TCPProtocolNumber = 6,
     TCPFlagFin = 1, TCPFlagSyn = 2, TCPFlagAck = 16\<rparr>"

lemma rfc793_sel [simp]:
  "header_Checksum rfc793 = rfc1071" "TCPMinimumSize rfc793 = 20" "TCPProtocolNumber rfc793 = 6"
  "TCPFlagFin rfc793 = 1" "TCPFlagSyn rfc793 = 2" "TCPFlagAck rfc793 = 16"
  by (simp_all add: rfc793_def)

lemma accessors_ok_rfc793: "accessors_ok rfc793"
  unfolding accessors_ok_def rfc793_def
  by (auto simp: be16_def be32_def be16_join be32_join)

lemma netstack_ok_rfc793: "netstack_ok rfc793"
  using accessors_ok_rfc793
  by (simp add: netstack_ok_def flags_ok_def) (simp add: rfc793_def)

section \<open>Acceptance of what the sender built\<close>

lemma built_header_checksum:
  assumes "header_Checksum ns = rfc1071"
  shows "ComputeTCPChecksum ns ((CreateTCPHeader ns src dst sp dp sq ak fl wnd payload)\<lparr>Checksum := 0\<rparr>) dst src payload
    = Checksum (CreateTCPHeader ns src dst sp dp sq ak fl wnd payload)"
  using ComputeTCPChecksum_swap [OF assms, of _ dst src payload] by (simp add: CreateTCPHeader_def Let_def)

lemma built_header_parses:
  assumes "accessors_ok ns"
  shows "ParseTCPHeader ns (MarshallTCPHeader ns (CreateTCPHeader ns src dst sp dp sq ak fl wnd payload) d @ rest)
    = Inr (CreateTCPHeader ns src dst sp dp sq ak fl wnd payload)"
  using assms by (simp add: MarshallTCPHeader_def ParseTCPHeader_Encode)

text \<open>
  C22. A segment built with \<open>CreateTCPHeader\<close> and marshalled parses at the receiver, and the
  checksum recomputed there (own address first, the checksum field zeroed) is the one in the
  header, for every payload, port, sequence number, flag and window.
\<close>

theorem checksum_accepts:
  fixes src dst sq ak wnd :: u32 and sp dp :: u16 and fl :: u8 and payload :: "byte list"
  assumes "netstack_ok ns"
  defines "h \<equiv> CreateTCPHeader ns src dst sp dp sq ak fl wnd payload"
  shows "ParseTCPHeader ns (MarshallTCPHeader ns h dst @ payload) = Inr h
    \<and> ComputeTCPChecksum ns (h\<lparr>Checksum := 0\<rparr>) dst src payload = Checksum h"
  using assms(1) by (simp add: h_def netstack_ok_def built_header_checksum built_header_parses)

theorem checksum_accepts_witness:
  "netstack_ok rfc793 \<and>
   ParseTCPHeader rfc793 (MarshallTCPHeader rfc793
     (CreateTCPHeader rfc793 1 2 1025 9000 7 8 16 65535 [1, 2, 3]) 2 @ [1, 2, 3])
     = Inr (CreateTCPHeader rfc793 1 2 1025 9000 7 8 16 65535 [1, 2, 3])"
  using netstack_ok_rfc793
    checksum_accepts [OF netstack_ok_rfc793, of 1 2 1025 9000 7 8 16 65535 "[1, 2, 3]"]
  by simp

end
