(* ===== verification/Tcb.thy ===== *)
theory Tcb
  imports Segment
begin

text \<open>
  The state of the TCP layer: connection states and socket kinds of \<open>src/pkg/tcp/socket.go\<close>, the
  transmission control block and the handler of \<open>src/pkg/tcp/tcp_handler.go\<close>, the early-arrival and
  retransmission entries, and what a handler does to the rest of the program. Mutexes carry no
  data and have no field: every definition of the TCP theories is one critical section of the
  source, or says where it releases the lock. Condition variables, channels and \<open>go\<close> statements
  are the constructors of \<open>effect\<close>; a handler returns the effects it performs in program order.
\<close>

section \<open>Connection states and sockets\<close>

datatype ConnectionState =
  CLOSED | LISTEN | SYN_SENT | SYN_RECEIVED | ESTABLISHED | FIN_WAIT_1 | FIN_WAIT_2
  | CLOSING | TIME_WAIT | CLOSE_WAIT | LAST_ACK

datatype SocketType = LISTENER | CONNECTION

fun SocketStateToString :: "ConnectionState \<Rightarrow> string" where
  "SocketStateToString CLOSED = ''CLOSED''"
| "SocketStateToString LISTEN = ''LISTEN''"
| "SocketStateToString SYN_SENT = ''SYN_SENT''"
| "SocketStateToString SYN_RECEIVED = ''SYN_RECEIVED''"
| "SocketStateToString ESTABLISHED = ''ESTABLISHED''"
| "SocketStateToString FIN_WAIT_1 = ''FIN_WAIT_1''"
| "SocketStateToString FIN_WAIT_2 = ''FIN_WAIT_2''"
| "SocketStateToString TIME_WAIT = ''TIME_WAIT''"
| "SocketStateToString CLOSE_WAIT = ''CLOSE_WAIT''"
| "SocketStateToString _ = ''LAST_ACK''"

section \<open>The transmission control block\<close>

record Send =
  SND_Buffer :: "byte list"
  SND_UNA :: u32
  SND_NXT :: u32
  SND_WND :: u32
  SND_ISS :: u32
  SND_LBW :: u32

record Receive =
  RCV_Buffer :: "byte list"
  RCV_NXT :: u32
  RCV_WND :: u32
  RCV_IRS :: u32
  RCV_LBR :: u32

record RetransmitSegment =
  TCPHeader :: TCPFields
  PayloadLen :: u32

record EarlyArrivalEntry =
  SequenceNum :: u32
  EntryLen :: u32

record EarlyArrivalQueue =
  EarlyArrivals :: "EarlyArrivalEntry list"

record TCB =
  ConnectionType :: int
  State :: ConnectionState
  ResetWaitChan_made :: bool
  RTOTimeoutChan_cap :: nat             \<comment> \<open>the capacity of \<open>RTOTimeoutChan\<close>\<close>
  SND :: Send
  RCV :: Receive
  ListenKey :: SocketData
  Cancelled :: bool
  TimeoutCancelled :: bool
  RTO :: int
  SRTT :: int
  RetransmissionQueue :: "RetransmitSegment list"
  RetransmitCounter :: int
  SegmentToTimestamp :: "u32 \<rightharpoonup> int"
  PendingReceivedFin :: u32
  PendingSendingFin :: bool
  EarlyQ :: EarlyArrivalQueue
  PendingConnections :: "SocketData list"
  CWND :: u32
  SSTHRESH :: u32
  CControlEnabled :: bool
  CurrentAck :: u32
  CurrentAckFreq :: int

definition MSS_DATA :: u32 where "MSS_DATA = 1360"
definition INIT_CWND :: u32 where "INIT_CWND = MSS_DATA"
definition INIT_THRESHOLD :: u32 where "INIT_THRESHOLD = push_bit 16 1 - 1"

definition RTO_UPPER :: int where "RTO_UPPER = 1 * 1000000000"
definition RTO_LOWER :: int where "RTO_LOWER = 1 * 1000000"
definition MAX_RETRANSMISSIONS :: int where "MAX_RETRANSMISSIONS = 5"

lemma unat_MSS_DATA [simp]: "unat MSS_DATA = 1360"
  by (simp add: MSS_DATA_def)

section \<open>Zero values\<close>

text \<open>
  The zero values Go gives the fields a composite literal does not name. \<open>make_buf\<close> is
  \<open>make([]byte, MAX_BUF_SIZE)\<close>.
\<close>

definition make_buf :: "byte list" where
  "make_buf = replicate (unat MAX_BUF_SIZE) 0"

lemma length_make_buf [simp]: "length make_buf = 65535"
  by (simp add: make_buf_def)

definition zero_Send :: Send where
  "zero_Send = \<lparr>SND_Buffer = [], SND_UNA = 0, SND_NXT = 0, SND_WND = 0, SND_ISS = 0, SND_LBW = 0\<rparr>"

definition zero_Receive :: Receive where
  "zero_Receive = \<lparr>RCV_Buffer = [], RCV_NXT = 0, RCV_WND = 0, RCV_IRS = 0, RCV_LBR = 0\<rparr>"

definition zero_SocketData :: SocketData where
  "zero_SocketData = \<lparr>LocalAddr = 0, LocalPort = 0, DestAddr = 0, DestPort = 0\<rparr>"

definition zero_TCB :: TCB where
  "zero_TCB = \<lparr>ConnectionType = 0, State = CLOSED, ResetWaitChan_made = False, RTOTimeoutChan_cap = 0,
     SND = zero_Send, RCV = zero_Receive, ListenKey = zero_SocketData,
     Cancelled = False, TimeoutCancelled = False, RTO = 0, SRTT = 0,
     RetransmissionQueue = [], RetransmitCounter = 0, SegmentToTimestamp = Map.empty,
     PendingReceivedFin = 0, PendingSendingFin = False, EarlyQ = \<lparr>EarlyArrivals = []\<rparr>,
     PendingConnections = [], CWND = 0, SSTHRESH = 0, CControlEnabled = False,
     CurrentAck = 0, CurrentAckFreq = 0\<rparr>"

section \<open>Effects and the handler\<close>

datatype effect =
    IPSend "byte list"                  \<comment> \<open>\<open>t.IPLayerChannel <- buf\<close>\<close>
  | SignalRead                          \<comment> \<open>\<open>RCV.ReadBlockedCond.Signal()\<close>\<close>
  | BroadcastWrite                      \<comment> \<open>\<open>SND.WriteBlockedCond.Broadcast()\<close>\<close>
  | SignalSend                          \<comment> \<open>\<open>SND.SendBlockedCond.Signal()\<close>\<close>
  | SignalZero                          \<comment> \<open>\<open>SND.ZeroBlockedCond.Signal()\<close>\<close>
  | SignalPendingFin                    \<comment> \<open>\<open>PendingSendingFinCond.Signal()\<close>\<close>
  | SignalPendingConn SocketData        \<comment> \<open>\<open>PendingConnCond.Signal()\<close> of the listener\<close>
  | NotifyReceiveChan SocketData        \<comment> \<open>\<open>ReceiveChan <- *key\<close>\<close>
  | NotifyRTO                           \<comment> \<open>\<open>RTOTimeoutChan <- true\<close>\<close>
  | NotifyResetWait                     \<comment> \<open>\<open>ResetWaitChan <- true\<close>\<close>
  | GoSend SocketData
  | GoWaitTimeout SocketData
  | GoWaitForClosed SocketData
  | GoWaitForAckReceiver SocketData
  | GoZeroProbe SocketData
  | CancelZeroProbe                     \<comment> \<open>\<open>cancelChan <- true\<close>\<close>
  | BlocksForever                       \<comment> \<open>the goroutine blocks for ever in a channel send at this point\<close>
  | LeavesLocked                        \<comment> \<open>the call returns without releasing the lock it holds\<close>
  | DeleteSocket SocketData             \<comment> \<open>\<open>delete(t.SocketTable, key)\<close> by a timer goroutine\<close>

record TCPHandler =
  SocketTable :: "SocketData \<rightharpoonup> TCB"
  HandlerLocalAddr :: u32
  CurrentPort :: u16
  Listeners :: "SocketData list"

text \<open>
  The handles of the application: \<open>VTCPConn\<close> of \<open>src/pkg/tcp/vtcp_conn.go\<close> and
  \<open>VTCPListener\<close> of \<open>src/pkg/tcp/vtcp_listener.go\<close>. The pointer back to the handler is the handler
  argument of the operations.
\<close>

record VTCPConn =
  SocketTableKey :: SocketData
  ReadCancelled :: bool
  WriteCancelled :: bool

record VTCPListener =
  ListenerTableKey :: SocketData
  ListenerCancelled :: bool

fun ip_sends :: "effect list \<Rightarrow> byte list list" where
  "ip_sends [] = []"
| "ip_sends (IPSend b # es) = b # ip_sends es"
| "ip_sends (_ # es) = ip_sends es"

lemma ip_sends_append [simp]: "ip_sends (xs @ ys) = ip_sends xs @ ip_sends ys"
  by (induction xs rule: ip_sends.induct) auto

section \<open>Well-formed connections\<close>

text \<open>
  The invariant of the two windows of a connection whose sequence numbers have not reached the
  end of the 32-bit space. Receiving side: the bytes between \<open>LBR\<close> and \<open>NXT\<close> are in the
  buffer and the advertised window is what is left of it (\<open>rcv_ok\<close>) or, while a \<open>Read\<close> has moved \<open>LBR\<close>
  and has not yet raised the window, at most that (\<open>rcv_fits\<close>). Sending side: \<open>UNA\<close>, \<open>NXT\<close> and
  \<open>LBW\<close> are in order and the span between \<open>UNA\<close> and \<open>LBW\<close> fits the buffer.
\<close>

definition rcv_ok :: "Receive \<Rightarrow> bool" where
  "rcv_ok r \<longleftrightarrow> length (RCV_Buffer r) = 65535 \<and> RCV_LBR r \<le> RCV_NXT r
     \<and> unat (RCV_NXT r) - unat (RCV_LBR r) + unat (RCV_WND r) = 65535"

definition rcv_fits :: "Receive \<Rightarrow> bool" where
  "rcv_fits r \<longleftrightarrow> length (RCV_Buffer r) = 65535 \<and> RCV_LBR r \<le> RCV_NXT r
     \<and> unat (RCV_NXT r) - unat (RCV_LBR r) + unat (RCV_WND r) \<le> 65535"

lemma rcv_ok_fits: "rcv_ok r \<Longrightarrow> rcv_fits r"
  by (simp add: rcv_ok_def rcv_fits_def)

definition snd_ok :: "Send \<Rightarrow> bool" where
  "snd_ok s \<longleftrightarrow> length (SND_Buffer s) = 65535 \<and> SND_UNA s \<le> SND_NXT s \<and> SND_NXT s \<le> SND_LBW s
     \<and> unat (SND_LBW s) \<le> unat (SND_UNA s) + 65535"

definition unread :: "Receive \<Rightarrow> byte list" where
  \<comment> \<open>the bytes the application can read now\<close>
  "unread r = ring_fetch (RCV_Buffer r) (unat (RCV_LBR r)) (unat (RCV_NXT r) - unat (RCV_LBR r))"

definition unacked :: "Send \<Rightarrow> byte list" where
  \<comment> \<open>the bytes accepted from the application and not acknowledged yet\<close>
  "unacked s = ring_fetch (SND_Buffer s) (unat (SND_UNA s)) (unat (SND_LBW s) - unat (SND_UNA s))"

text \<open>A freshly established connection, for the examples of the TCP theories.\<close>

definition sample_conn :: TCB where
  "sample_conn = zero_TCB\<lparr>State := ESTABLISHED,
     SND := \<lparr>SND_Buffer = make_buf, SND_UNA = 1001, SND_NXT = 1001, SND_WND = 65535, SND_ISS = 1000, SND_LBW = 1001\<rparr>,
     RCV := \<lparr>RCV_Buffer = make_buf, RCV_NXT = 501, RCV_WND = 65535, RCV_IRS = 500, RCV_LBR = 501\<rparr>,
     RTO := RTO_UPPER, SRTT := -1\<rparr>"

lemma sample_conn_sel [simp]:
  "State sample_conn = ESTABLISHED"
  "SND sample_conn = \<lparr>SND_Buffer = make_buf, SND_UNA = 1001, SND_NXT = 1001, SND_WND = 65535, SND_ISS = 1000, SND_LBW = 1001\<rparr>"
  "RCV sample_conn = \<lparr>RCV_Buffer = make_buf, RCV_NXT = 501, RCV_WND = 65535, RCV_IRS = 500, RCV_LBR = 501\<rparr>"
  "EarlyQ sample_conn = \<lparr>EarlyArrivals = []\<rparr>" "RetransmissionQueue sample_conn = []"
  "CControlEnabled sample_conn = False" "PendingReceivedFin sample_conn = 0" "RetransmitCounter sample_conn = 0"
  "SegmentToTimestamp sample_conn = Map.empty" "TimeoutCancelled sample_conn = False" "Cancelled sample_conn = False"
  "PendingSendingFin sample_conn = False"
  by (simp_all add: sample_conn_def zero_TCB_def)

definition sample_header :: "u32 \<Rightarrow> u32 \<Rightarrow> u8 \<Rightarrow> u16 \<Rightarrow> TCPFields" where
  "sample_header sq ak fl w = \<lparr>SrcPort = 9, DstPort = 7, SeqNum = sq, AckNum = ak, DataOffset = 20,
     Flags = fl, WindowSize = w, Checksum = 0, UrgentPointer = 0\<rparr>"

lemma sample_header_sel [simp]:
  "SeqNum (sample_header sq ak fl w) = sq" "AckNum (sample_header sq ak fl w) = ak"
  "WindowSize (sample_header sq ak fl w) = w" "has_flag (sample_header sq ak fl w) f \<longleftrightarrow> fl AND f \<noteq> 0"
  by (simp_all add: sample_header_def has_flag_def)

end
