(* ===== verification/EarlyArrivals.thy ===== *)
theory EarlyArrivals
  imports Tcb
begin

text \<open>
  The early-arrival queue of \<open>src/pkg/tcp/tcp_early_arrivals.go\<close>: segments that arrived ahead of
  \<open>RCV.NXT\<close>, kept in a slice ordered by sequence number, and the loop that moves \<open>RCV.NXT\<close> over
  the ones that became contiguous.
\<close>

section \<open>The operations\<close>

definition Init :: "EarlyArrivalQueue \<Rightarrow> EarlyArrivalQueue" where
  "Init eq = eq\<lparr>EarlyArrivals := []\<rparr>"

definition IsEmpty :: "EarlyArrivalQueue \<Rightarrow> bool" where
  "IsEmpty eq \<longleftrightarrow> length (EarlyArrivals eq) = 0"

definition Peek :: "EarlyArrivalQueue \<Rightarrow> EarlyArrivalEntry go" where
  "Peek eq = (case EarlyArrivals eq of [] \<Rightarrow> Inl Panic | e # _ \<Rightarrow> Inr e)"

definition Pop :: "EarlyArrivalQueue \<Rightarrow> (EarlyArrivalEntry \<times> EarlyArrivalQueue) go" where
  "Pop eq = (case EarlyArrivals eq of [] \<Rightarrow> Inl Panic
     | e # rest \<Rightarrow> Inr (e, eq\<lparr>EarlyArrivals := rest\<rparr>))"

fun push_index :: "EarlyArrivalEntry \<Rightarrow> nat \<Rightarrow> EarlyArrivalEntry list \<Rightarrow> int" where
  \<comment> \<open>the loop over the queue that computes \<open>insertIndex\<close>, initially \<open>-1\<close>\<close>
  "push_index new i [] = -1"
| "push_index new i (e # es) =
     (if SequenceNum new + EntryLen new \<le> SequenceNum e then int i else push_index new (Suc i) es)"

definition Push :: "EarlyArrivalEntry \<Rightarrow> EarlyArrivalQueue \<Rightarrow> EarlyArrivalQueue" where
  "Push new eq =
     (let q = EarlyArrivals eq; insertIndex = push_index new 0 q
      in if insertIndex \<noteq> -1
         then let k = nat insertIndex in eq\<lparr>EarlyArrivals := (take (k + 1) q @ drop k q)[k := new]\<rparr>
         else eq\<lparr>EarlyArrivals := q @ [new]\<rparr>)"

function updateAckNum_loop :: "EarlyArrivalQueue \<Rightarrow> u32 \<Rightarrow> (EarlyArrivalQueue \<times> u32) go" where
  "updateAckNum_loop eq entryNum =
     (if IsEmpty eq then Inr (eq, entryNum)
      else gbind (Peek eq) (\<lambda>top.
        if entryNum = SequenceNum top
        then gbind (Pop eq) (\<lambda>(popped, eq').
          updateAckNum_loop eq' (SequenceNum popped + EntryLen popped))
        else Inr (eq, entryNum)))"
  by pat_completeness auto
termination
  by (relation "measure (\<lambda>(eq, _). length (EarlyArrivals eq))")
    (auto simp: Pop_def split: list.splits)

definition updateAckNum :: "TCB \<Rightarrow> u32 \<Rightarrow> (TCB \<times> u32) go" where
  "updateAckNum tcb nextAck =
     gbind (updateAckNum_loop (EarlyQ tcb) nextAck) (\<lambda>(eq, entryNum).
       Inr (tcb\<lparr>EarlyQ := eq\<rparr>, entryNum))"

declare updateAckNum_loop.simps [simp del]

section \<open>Push as an ordered insertion\<close>

fun insert_entry :: "EarlyArrivalEntry \<Rightarrow> EarlyArrivalEntry list \<Rightarrow> EarlyArrivalEntry list" where
  "insert_entry new [] = [new]"
| "insert_entry new (e # es) =
     (if SequenceNum new + EntryLen new \<le> SequenceNum e then new # e # es
      else e # insert_entry new es)"

lemma push_index_cases:
  "push_index new i es = -1 \<and> insert_entry new es = es @ [new]
   \<or> (\<exists>k<length es. push_index new i es = int (i + k)
        \<and> insert_entry new es = take k es @ new # drop k es)"
proof (induction new i es rule: push_index.induct)
  case (2 new i e es)
  show ?case
  proof (cases "SequenceNum new + EntryLen new \<le> SequenceNum e")
    case True
    then show ?thesis by (intro disjI2 exI [of _ 0]) simp
  next
    case False
    with "2.IH" consider
        "push_index new (Suc i) es = -1" "insert_entry new es = es @ [new]"
      | k where "k < length es" "push_index new (Suc i) es = int (Suc i + k)"
          "insert_entry new es = take k es @ new # drop k es"
      by auto
    then show ?thesis
      using False by cases (auto intro!: exI [of _ "Suc _"])
  qed
qed simp

lemma Push_insert_entry: "EarlyArrivals (Push new eq) = insert_entry new (EarlyArrivals eq)"
  using push_index_cases [of new 0 "EarlyArrivals eq"]
  by (auto simp: Push_def Let_def list_update_append take_Suc_conv_app_nth Cons_nth_drop_Suc)

lemma set_insert_entry [simp]: "set (insert_entry new es) = insert new (set es)"
  by (induction new es rule: insert_entry.induct) auto

section \<open>Draining\<close>

fun drain_entries :: "EarlyArrivalEntry list \<Rightarrow> u32 \<Rightarrow> EarlyArrivalEntry list \<times> u32" where
  "drain_entries [] n = ([], n)"
| "drain_entries (e # es) n =
     (if n = SequenceNum e then drain_entries es (SequenceNum e + EntryLen e) else (e # es, n))"

definition drain :: "EarlyArrivalQueue \<Rightarrow> u32 \<Rightarrow> EarlyArrivalQueue \<times> u32" where
  "drain eq n = apfst (\<lambda>q. eq\<lparr>EarlyArrivals := q\<rparr>) (drain_entries (EarlyArrivals eq) n)"

lemma updateAckNum_loop_drain: "updateAckNum_loop eq n = Inr (drain eq n)"
proof (induction "EarlyArrivals eq" n arbitrary: eq rule: drain_entries.induct)
  case (1 n)
  then show ?case by (simp add: updateAckNum_loop.simps [of eq] IsEmpty_def drain_def)
next
  case (2 e es n)
  then have eq: "EarlyArrivals eq = e # es" by simp
  show ?case
    using "2.hyps"(1) [of "eq\<lparr>EarlyArrivals := es\<rparr>"] eq
    by (auto simp: updateAckNum_loop.simps [of eq] IsEmpty_def Peek_def Pop_def drain_def
        apfst_def map_prod_def split: prod.splits)
qed

lemma updateAckNum_drain:
  "updateAckNum tcb n = Inr (tcb\<lparr>EarlyQ := fst (drain (EarlyQ tcb) n)\<rparr>, snd (drain (EarlyQ tcb) n))"
  by (simp add: updateAckNum_def updateAckNum_loop_drain split: prod.splits)

section \<open>The interface of the receive path\<close>

text \<open>
  The receive path needs no order for its safety, only that the queue hands out entries that were
  put in, and that draining walks from the end of one entry to the start of the next.
\<close>

locale entry_queue =
  fixes push :: "'e \<Rightarrow> 'q \<Rightarrow> 'q"
    and drain :: "'q \<Rightarrow> 'n \<Rightarrow> 'q \<times> 'n"
    and entries :: "'q \<Rightarrow> 'e set"
    and start :: "'e \<Rightarrow> 'n"
    and stop :: "'e \<Rightarrow> 'n"
  assumes entries_push: "entries (push e q) = insert e (entries q)"
    and entries_drain: "entries (fst (drain q n)) \<subseteq> entries q"
    and drain_walk: "P n \<Longrightarrow> (\<And>e. e \<in> entries q \<Longrightarrow> P (start e) \<Longrightarrow> P (stop e)) \<Longrightarrow> P (snd (drain q n))"
begin

lemma all_push: "\<forall>x \<in> entries q. Q x \<Longrightarrow> Q e \<Longrightarrow> \<forall>x \<in> entries (push e q). Q x"
  by (simp add: entries_push)

lemma all_drain: "\<forall>x \<in> entries q. Q x \<Longrightarrow> \<forall>x \<in> entries (fst (drain q n)). Q x"
  using entries_drain by blast

lemma drain_walk_all:
  assumes "\<forall>e \<in> entries q. Q e" and "P n" and "\<And>e. Q e \<Longrightarrow> P (start e) \<Longrightarrow> P (stop e)"
  shows "P (snd (drain q n))"
  using drain_walk [of P n q] assms by blast

end

lemma drain_entries_subset: "set (fst (drain_entries es n)) \<subseteq> set es"
  by (induction es n rule: drain_entries.induct) auto

lemma drain_entries_walk:
  "P n \<Longrightarrow> (\<And>e. e \<in> set es \<Longrightarrow> P (SequenceNum e) \<Longrightarrow> P (SequenceNum e + EntryLen e))
    \<Longrightarrow> P (snd (drain_entries es n))"
  by (induction es n rule: drain_entries.induct) auto

interpretation eaq: entry_queue Push drain "\<lambda>eq. set (EarlyArrivals eq)" SequenceNum
    "\<lambda>e. SequenceNum e + EntryLen e"
proof unfold_locales
  show "set (EarlyArrivals (Push e q)) = insert e (set (EarlyArrivals q))" for e q
    by (simp add: Push_insert_entry)
  show "set (EarlyArrivals (fst (drain q n))) \<subseteq> set (EarlyArrivals q)" for q n
    using drain_entries_subset by (simp add: drain_def)
  show "P (snd (drain q n))"
    if "P n" "\<And>e. e \<in> set (EarlyArrivals q) \<Longrightarrow> P (SequenceNum e) \<Longrightarrow> P (SequenceNum e + EntryLen e)"
    for P n q
    using that drain_entries_walk [of P n "EarlyArrivals q"] by (simp add: drain_def)
qed

section \<open>Order\<close>

definition entry_end :: "EarlyArrivalEntry \<Rightarrow> nat" where
  "entry_end e = unat (SequenceNum e) + unat (EntryLen e)"

definition ordered :: "EarlyArrivalEntry list \<Rightarrow> bool" where
  "ordered es \<longleftrightarrow> sorted_wrt (\<lambda>a b. entry_end a \<le> unat (SequenceNum b)) es
     \<and> (\<forall>e \<in> set es. 0 < unat (EntryLen e) \<and> entry_end e < 2 ^ 32)"

definition apart :: "EarlyArrivalEntry \<Rightarrow> EarlyArrivalEntry \<Rightarrow> bool" where
  "apart a b \<longleftrightarrow> entry_end a \<le> unat (SequenceNum b) \<or> entry_end b \<le> unat (SequenceNum a)"

lemma unat_entry_end: "entry_end e < 2 ^ 32 \<Longrightarrow> unat (SequenceNum e + EntryLen e) = entry_end e"
  by (simp add: entry_end_def unat_add_u32)

lemma ordered_insert_entry:
  assumes "ordered es" and "0 < unat (EntryLen new)" and "entry_end new < 2 ^ 32"
    and "\<forall>e \<in> set es. apart new e"
  shows "ordered (insert_entry new es)"
  using assms
proof (induction new es rule: insert_entry.induct)
  case (1 new)
  then show ?case by (simp add: ordered_def)
next
  case (2 new e es)
  have le: "SequenceNum new + EntryLen new \<le> SequenceNum e \<longleftrightarrow> entry_end new \<le> unat (SequenceNum e)"
    using "2.prems"(3) by (simp add: u32_le_nat unat_entry_end)
  show ?case
  proof (cases "entry_end new \<le> unat (SequenceNum e)")
    case True
    then show ?thesis
      using "2.prems" le by (auto simp: ordered_def entry_end_def)
  next
    case False
    then have "entry_end e \<le> unat (SequenceNum new)"
      using "2.prems"(4) by (simp add: apart_def)
    then show ?thesis
      using "2.prems" "2.IH" le False by (auto simp: ordered_def)
  qed
qed

lemma drain_entries_maximal:
  assumes "ordered es" and "\<forall>e \<in> set es. unat n \<le> unat (SequenceNum e)"
    and "drain_entries es n = (rest, r)"
  shows "n \<le> r \<and> (\<forall>e \<in> set rest. r < SequenceNum e)
    \<and> (\<forall>p. unat n \<le> p \<and> p < unat r \<longrightarrow> (\<exists>e \<in> set es. unat (SequenceNum e) \<le> p \<and> p < entry_end e))"
  using assms
proof (induction es n rule: drain_entries.induct)
  case (1 n)
  then show ?case by simp
next
  case (2 e es n)
  have o: "ordered es" "entry_end e < 2 ^ 32" "0 < unat (EntryLen e)"
    and later: "\<forall>x \<in> set es. entry_end e \<le> unat (SequenceNum x)"
    using "2.prems"(1) by (auto simp: ordered_def)
  show ?case
  proof (cases "n = SequenceNum e")
    case True
    have "SequenceNum e + EntryLen e \<le> r \<and> (\<forall>e \<in> set rest. r < SequenceNum e)
      \<and> (\<forall>p. entry_end e \<le> p \<and> p < unat r \<longrightarrow>
            (\<exists>x \<in> set es. unat (SequenceNum x) \<le> p \<and> p < entry_end x))"
      using "2.IH" [OF True o(1)] later o(2) "2.prems"(3) True by (simp add: unat_entry_end)
    moreover have "n \<le> SequenceNum e + EntryLen e"
      using True o(2) by (simp add: u32_le_nat unat_entry_end) (simp add: entry_end_def)
    ultimately show ?thesis
      using True by (auto simp: not_less [symmetric] dest: order_trans)
  next
    case False
    then have "unat n < unat (SequenceNum e)"
      using "2.prems"(2) by (simp add: u32_eq_nat nat_less_le)
    moreover have "unat (SequenceNum e) \<le> unat (SequenceNum x)" if "x \<in> set es" for x
      using later that by (auto simp: entry_end_def)
    ultimately show ?thesis
      using False "2.prems"(3) by (force simp: u32_less_nat)
  qed
qed

lemma insert_entry_behind:
  "SequenceNum h < SequenceNum new + EntryLen new \<Longrightarrow> insert_entry new (h # es) = h # insert_entry new es"
  by (auto dest: leD)

lemma drain_entries_mismatch: "n \<noteq> SequenceNum h \<Longrightarrow> drain_entries (h # es) n = (h # es, n)"
  by simp

section \<open>Properties\<close>

text \<open>
  \<open>Push\<close> keeps the queue ordered and free of overlaps when the new segment overlaps none of the
  queued ones, and it adds exactly that segment.
\<close>

lemma Push_keeps_order:
  assumes "ordered (EarlyArrivals eq)" and "0 < unat (EntryLen new)" and "entry_end new < 2 ^ 32"
    and "\<forall>e \<in> set (EarlyArrivals eq). apart new e"
  shows "ordered (EarlyArrivals (Push new eq))
    \<and> set (EarlyArrivals (Push new eq)) = insert new (set (EarlyArrivals eq))"
  using assms by (simp add: Push_insert_entry ordered_insert_entry)

text \<open>
  On a queue that is ordered, without overlaps, and whose entries lie at or beyond the next expected byte,
  \<open>updateAckNum\<close> returns an acknowledgement number such that every byte up to it has
  arrived and none of the entries left in the queue starts at or below it: nothing that could be
  acknowledged is left behind. The code does not see to it that the queue is so, as the next property shows.
\<close>

lemma updateAckNum_maximal:
  assumes "ordered (EarlyArrivals (EarlyQ tcb))"
    and "\<forall>e \<in> set (EarlyArrivals (EarlyQ tcb)). nextAck \<le> SequenceNum e"
  shows "\<exists>tcb' r. updateAckNum tcb nextAck = Inr (tcb', r) \<and> nextAck \<le> r
    \<and> (\<forall>e \<in> set (EarlyArrivals (EarlyQ tcb')). r < SequenceNum e)
    \<and> (\<forall>p. unat nextAck \<le> p \<and> p < unat r \<longrightarrow>
          (\<exists>e \<in> set (EarlyArrivals (EarlyQ tcb)). unat (SequenceNum e) \<le> p \<and> p < entry_end e))"
proof -
  obtain rest r where d: "drain_entries (EarlyArrivals (EarlyQ tcb)) nextAck = (rest, r)"
    by fastforce
  have "\<forall>e \<in> set (EarlyArrivals (EarlyQ tcb)). unat nextAck \<le> unat (SequenceNum e)"
    using assms(2) by (simp add: u32_le_nat)
  from drain_entries_maximal [OF assms(1) this d] show ?thesis
    by (simp add: updateAckNum_drain drain_def d)
qed

text \<open>
  C36. An early segment that arrives twice is queued twice. Once the in-order data has reached it, the
  second copy stays at the head of the queue with a sequence number that will never be expected
  again, and no later early segment is ever merged: when the data before such a segment
  arrives, the acknowledgement number does not move past it although the segment is in the buffer.
\<close>

theorem duplicate_early_arrival_blocks_queue:
  assumes "0 < unat (EntryLen e)" and "entry_end e < 2 ^ 32"
    and "0 < unat (EntryLen later)" and "entry_end later < 2 ^ 32"
    and "entry_end e \<le> unat (SequenceNum later)"
    and "EarlyQ tcb = Push e (Push e (Init \<lparr>EarlyArrivals = []\<rparr>))"
  shows "\<exists>tcb1. updateAckNum tcb (SequenceNum e) = Inr (tcb1, SequenceNum e + EntryLen e)
    \<and> updateAckNum (tcb1\<lparr>EarlyQ := Push later (EarlyQ tcb1)\<rparr>) (SequenceNum later)
        = Inr (tcb1\<lparr>EarlyQ := \<lparr>EarlyArrivals = [e, later]\<rparr>\<rparr>, SequenceNum later)"
proof -
  let ?tcb1 = "tcb\<lparr>EarlyQ := \<lparr>EarlyArrivals = [e]\<rparr>\<rparr>"
  have e: "unat (SequenceNum e + EntryLen e) = entry_end e"
    and l: "unat (SequenceNum later + EntryLen later) = entry_end later"
    using assms(2,4) by (simp_all add: unat_entry_end)
  have ne: "SequenceNum e + EntryLen e \<noteq> SequenceNum e" "SequenceNum later \<noteq> SequenceNum e"
    using assms(1,3,5) e by (auto simp: u32_eq_nat entry_end_def)
  have lt: "SequenceNum e < SequenceNum e + EntryLen e" "SequenceNum e < SequenceNum later + EntryLen later"
    using assms(1,3,5) e l by (auto simp: u32_less_nat entry_end_def)
  have "EarlyArrivals (EarlyQ tcb) = [e, e]"
    using lt(1) by (simp add: assms(6) Push_insert_entry Init_def insert_entry_behind del: insert_entry.simps(2))
  then have "updateAckNum tcb (SequenceNum e) = Inr (?tcb1, SequenceNum e + EntryLen e)"
    using ne(1) by (simp add: updateAckNum_drain drain_def assms(6))
  moreover have "EarlyArrivals (Push later (EarlyQ ?tcb1)) = [e, later]"
    using lt(2) by (simp add: Push_insert_entry insert_entry_behind del: insert_entry.simps(2))
  then have "updateAckNum (?tcb1\<lparr>EarlyQ := Push later (EarlyQ ?tcb1)\<rparr>) (SequenceNum later)
        = Inr (?tcb1\<lparr>EarlyQ := \<lparr>EarlyArrivals = [e, later]\<rparr>\<rparr>, SequenceNum later)"
    using ne(2) by (simp add: updateAckNum_drain drain_def)
  ultimately show ?thesis by blast
qed

theorem duplicate_early_arrival_blocks_queue_witness:
  "\<exists>tcb tcb1. updateAckNum tcb 20 = Inr (tcb1, 30)
    \<and> updateAckNum (tcb1\<lparr>EarlyQ := Push \<lparr>SequenceNum = 40, EntryLen = 10\<rparr> (EarlyQ tcb1)\<rparr>) 40
        = Inr (tcb1\<lparr>EarlyQ := \<lparr>EarlyArrivals = [\<lparr>SequenceNum = 20, EntryLen = 10\<rparr>, \<lparr>SequenceNum = 40, EntryLen = 10\<rparr>]\<rparr>\<rparr>, 40)"
proof -
  let ?e = "\<lparr>SequenceNum = 20, EntryLen = 10\<rparr>"
  let ?l = "\<lparr>SequenceNum = 40, EntryLen = 10\<rparr>"
  let ?t = "zero_TCB\<lparr>EarlyQ := Push ?e (Push ?e (Init \<lparr>EarlyArrivals = []\<rparr>))\<rparr>"
  have "0 < unat (EntryLen ?e)" "entry_end ?e < 2 ^ 32" "0 < unat (EntryLen ?l)" "entry_end ?l < 2 ^ 32"
    "entry_end ?e \<le> unat (SequenceNum ?l)" "EarlyQ ?t = Push ?e (Push ?e (Init \<lparr>EarlyArrivals = []\<rparr>))"
    by (simp_all add: entry_end_def)
  from duplicate_early_arrival_blocks_queue [OF this] show ?thesis by - (rule exI [of _ ?t], simp)
qed

end
