(* ===== verification/Congestion.thy ===== *)
theory Congestion
  imports Tcb
begin

text \<open>
  TCP Tahoe congestion control, \<open>src/pkg/tcp/tcp_handler_cc.go\<close>: enabling it on a socket, growing
  the congestion window on a new acknowledgement, and shrinking it after a loss.
\<close>

section \<open>The operations\<close>

definition SetCCForSocket :: "TCPHandler \<Rightarrow> SocketData \<Rightarrow> string + TCPHandler" where
  "SetCCForSocket t key =
     (case SocketTable t key of
        None \<Rightarrow> Inl ''Socket doesn't exist''
      | Some tcb \<Rightarrow> Inr (t\<lparr>SocketTable := (SocketTable t)(key \<mapsto>
          tcb\<lparr>CControlEnabled := True, CWND := INIT_CWND, SSTHRESH := INIT_THRESHOLD\<rparr>)\<rparr>))"

definition UpdateCWNDWindow :: "TCB \<Rightarrow> TCB go" where
  "UpdateCWNDWindow tcb =
     (if CWND tcb < SSTHRESH tcb then Inr (tcb\<lparr>CWND := CWND tcb + MSS_DATA\<rparr>)
      else if CWND tcb = 0 then Inl Panic
      else Inr (tcb\<lparr>CWND := CWND tcb + (MSS_DATA * MSS_DATA) div CWND tcb\<rparr>))"

definition AfterLoss :: "TCB \<Rightarrow> TCB" where
  "AfterLoss tcb = tcb\<lparr>SSTHRESH := CWND tcb div 2, CWND := INIT_CWND\<rparr>"

section \<open>The window stays in range\<close>

text \<open>
  Slow start runs while the window is below the threshold, and congestion avoidance adds
  \<open>MSS * MSS / CWND\<close>, which is zero as soon as the window passes \<open>MSS * MSS = 1849600\<close>. So the
  32-bit window neither overflows nor reaches zero, and the division cannot panic.
\<close>

definition cc_ok :: "TCB \<Rightarrow> bool" where
  "cc_ok tcb \<longleftrightarrow> 1360 \<le> unat (CWND tcb) \<and> unat (CWND tcb) \<le> 1850960 \<and> unat (SSTHRESH tcb) \<le> 1849600"

lemma unat_MSS_square: "unat (MSS_DATA * MSS_DATA) = 1849600"
  by (simp add: MSS_DATA_def)

definition cwnd_growth :: "TCB \<Rightarrow> nat" where
  "cwnd_growth tcb = (if CWND tcb < SSTHRESH tcb then 1360 else 1849600 div unat (CWND tcb))"

lemma cwnd_growth_bounds:
  assumes "cc_ok tcb"
  shows "cwnd_growth tcb \<le> 1360" and "unat (CWND tcb) + cwnd_growth tcb \<le> 1850960"
    and "unat (CWND tcb) \<le> 1849600 \<Longrightarrow> 0 < cwnd_growth tcb"
proof -
  let ?c = "unat (CWND tcb)"
  have c: "1360 \<le> ?c" "?c \<le> 1850960" and s: "unat (SSTHRESH tcb) \<le> 1849600"
    using assms by (auto simp: cc_ok_def)
  have "1849600 div ?c \<le> 1849600 div 1360" using c(1) by (intro div_le_mono2) auto
  then show le: "cwnd_growth tcb \<le> 1360" by (simp add: cwnd_growth_def)
  have "?c \<le> 1849600 \<or> cwnd_growth tcb = 0"
    using s by (auto simp: cwnd_growth_def u32_less_nat div_greater_zero_iff)
  then show "?c + cwnd_growth tcb \<le> 1850960" using le c(2) by auto
  show "0 < cwnd_growth tcb" if "?c \<le> 1849600"
    using that c(1) by (simp add: cwnd_growth_def div_greater_zero_iff)
qed

lemma UpdateCWNDWindow_grows:
  assumes "cc_ok tcb"
  obtains w where "UpdateCWNDWindow tcb = Inr (tcb\<lparr>CWND := w\<rparr>)"
    and "unat w = unat (CWND tcb) + cwnd_growth tcb"
proof -
  let ?inc = "if CWND tcb < SSTHRESH tcb then MSS_DATA else (MSS_DATA * MSS_DATA) div CWND tcb"
  have "unat ?inc = cwnd_growth tcb"
    by (simp add: cwnd_growth_def unat_div_distrib unat_MSS_square)
  then have "unat (CWND tcb + ?inc) = unat (CWND tcb) + cwnd_growth tcb"
    using cwnd_growth_bounds(2) [OF assms] by (subst unat_add_u32) auto
  moreover have "UpdateCWNDWindow tcb = Inr (tcb\<lparr>CWND := CWND tcb + ?inc\<rparr>)"
    using assms by (auto simp: UpdateCWNDWindow_def cc_ok_def)
  ultimately show ?thesis by (rule that [rotated])
qed

lemma UpdateCWNDWindow_cc_ok:
  assumes "cc_ok tcb"
  obtains w where "UpdateCWNDWindow tcb = Inr (tcb\<lparr>CWND := w\<rparr>)" and "cc_ok (tcb\<lparr>CWND := w\<rparr>)"
proof -
  obtain w where "UpdateCWNDWindow tcb = Inr (tcb\<lparr>CWND := w\<rparr>)" "unat w = unat (CWND tcb) + cwnd_growth tcb"
    using assms by (rule UpdateCWNDWindow_grows)
  then show ?thesis
    using that assms cwnd_growth_bounds(2) [OF assms] by (simp add: cc_ok_def)
qed

lemma AfterLoss_cc_ok: "cc_ok tcb \<Longrightarrow> cc_ok (AfterLoss tcb)"
  by (auto simp: cc_ok_def AfterLoss_def INIT_CWND_def unat_div_distrib)

section \<open>Runs of acknowledgements and losses\<close>

datatype cc_event = NewAck | Loss

fun cc_run :: "TCB \<Rightarrow> cc_event list \<Rightarrow> TCB go" where
  "cc_run tcb [] = Inr tcb"
| "cc_run tcb (NewAck # es) = gbind (UpdateCWNDWindow tcb) (\<lambda>t. cc_run t es)"
| "cc_run tcb (Loss # es) = cc_run (AfterLoss tcb) es"

lemma cc_run_ok: "cc_ok tcb \<Longrightarrow> \<exists>tcb'. cc_run tcb es = Inr tcb' \<and> cc_ok tcb'"
proof (induction tcb es rule: cc_run.induct)
  case (2 tcb es)
  obtain w where "UpdateCWNDWindow tcb = Inr (tcb\<lparr>CWND := w\<rparr>)" "cc_ok (tcb\<lparr>CWND := w\<rparr>)"
    using "2.prems" by (rule UpdateCWNDWindow_cc_ok)
  then show ?case using "2.IH" by simp
qed (auto simp: AfterLoss_cc_ok)

text \<open>
  C26. After congestion control is enabled on a socket, any sequence of new acknowledgements and
  losses keeps the congestion window between one segment and 1850960 bytes: no panic in the division,
  no 32-bit overflow, and always room for one full segment.
\<close>

theorem cwnd_stays_in_range:
  assumes "SetCCForSocket t key = Inr t'" and "SocketTable t' key = Some tcb"
  shows "\<exists>tcb'. cc_run tcb es = Inr tcb' \<and> 1360 \<le> unat (CWND tcb') \<and> unat (CWND tcb') \<le> 1850960"
proof -
  have "cc_ok tcb"
    using assms by (auto simp: SetCCForSocket_def cc_ok_def INIT_CWND_def INIT_THRESHOLD_def split: option.splits)
  then show ?thesis using cc_run_ok [of tcb es] by (auto simp: cc_ok_def)
qed

theorem cwnd_stays_in_range_witness:
  "\<exists>tcb'. cc_run (zero_TCB\<lparr>CControlEnabled := True, CWND := INIT_CWND, SSTHRESH := INIT_THRESHOLD\<rparr>)
      [NewAck, NewAck, Loss, NewAck] = Inr tcb' \<and> 1360 \<le> unat (CWND tcb') \<and> unat (CWND tcb') \<le> 1850960"
proof -
  let ?t = "\<lparr>SocketTable = [zero_SocketData \<mapsto> zero_TCB], HandlerLocalAddr = 0, CurrentPort = 0, Listeners = []\<rparr>"
  let ?tcb = "zero_TCB\<lparr>CControlEnabled := True, CWND := INIT_CWND, SSTHRESH := INIT_THRESHOLD\<rparr>"
  have "SetCCForSocket ?t zero_SocketData = Inr (?t\<lparr>SocketTable := [zero_SocketData \<mapsto> ?tcb]\<rparr>)"
    by (simp add: SetCCForSocket_def)
  then show ?thesis by (rule cwnd_stays_in_range) simp
qed

text \<open>
  Tahoe on each branch: below the threshold a new acknowledgement adds one segment, from the
  threshold on it adds \<open>MSS * MSS / CWND\<close>, and the window grows strictly while it is at most
  \<open>MSS * MSS\<close>; a loss halves the window into the threshold and restarts from one segment.
\<close>

lemma tahoe_step:
  assumes "cc_ok tcb"
  shows "(\<exists>tcb'. UpdateCWNDWindow tcb = Inr tcb'
      \<and> unat (CWND tcb') = unat (CWND tcb) +
          (if CWND tcb < SSTHRESH tcb then 1360 else 1849600 div unat (CWND tcb))
      \<and> (unat (CWND tcb) \<le> 1849600 \<longrightarrow> CWND tcb < CWND tcb'))
    \<and> CWND (AfterLoss tcb) = 1360 \<and> unat (SSTHRESH (AfterLoss tcb)) = unat (CWND tcb) div 2"
proof -
  obtain w where "UpdateCWNDWindow tcb = Inr (tcb\<lparr>CWND := w\<rparr>)"
    "unat w = unat (CWND tcb) + cwnd_growth tcb"
    using assms by (rule UpdateCWNDWindow_grows)
  then have "\<exists>tcb'. UpdateCWNDWindow tcb = Inr tcb'
      \<and> unat (CWND tcb') = unat (CWND tcb) +
          (if CWND tcb < SSTHRESH tcb then 1360 else 1849600 div unat (CWND tcb))
      \<and> (unat (CWND tcb) \<le> 1849600 \<longrightarrow> CWND tcb < CWND tcb')"
    using cwnd_growth_bounds(3) [OF assms]
    by (intro exI [of _ "tcb\<lparr>CWND := w\<rparr>"]) (simp add: u32_less_nat cwnd_growth_def)
  then show ?thesis
    by (simp add: AfterLoss_def INIT_CWND_def MSS_DATA_def unat_div_distrib)
qed

end
