(* ===== verification/Timeout.thy ===== *)
theory Timeout
  imports Congestion Complex_Main "HOL-Library.Log_Nat"
begin

text \<open>
  Retransmission, \<open>src/pkg/tcp/tcp_timeout.go\<close>: the retransmission queue, the round-trip estimate
  and the timeout computed from it, fast retransmit, and the two timer goroutines. A timer
  goroutine is modelled by what it does when its timer fires and when its channel delivers; a
  returned \<open>False\<close> means that the goroutine has ended. The current time is an argument.
\<close>

section \<open>float64 and int64\<close>

text \<open>
  The double-precision arithmetic of \<open>calculateSRTT\<close> and \<open>calculateRTO\<close>: an operation rounds its
  exact result to 53 significant bits, ties to even. Durations are below \<open>2 ^ 63\<close>, so neither
  subnormal numbers nor infinities arise. \<open>i64\<close> is the wrap-around of \<open>int64\<close>.
\<close>

definition round_half_even :: "rat \<Rightarrow> int" where
  "round_half_even x =
     (let f = \<lfloor>x\<rfloor>; d = x - of_int f
      in if d < 1 / 2 \<or> d = 1 / 2 \<and> even f then f else f + 1)"

definition binade :: "rat \<Rightarrow> int" where
  \<comment> \<open>the binary exponent of a positive number\<close>
  "binade x = (if 1 \<le> x then int (floorlog 2 (nat \<lfloor>x\<rfloor>)) - 1
               else - int (floorlog 2 (nat (\<lceil>1 / x\<rceil> - 1))))"

definition scale2 :: "rat \<Rightarrow> int \<Rightarrow> rat" where
  "scale2 x k = (if 0 \<le> k then x * 2 ^ nat k else x / 2 ^ nat (- k))"

definition f64 :: "rat \<Rightarrow> rat" where
  "f64 x = (if x = 0 then 0
            else let k = binade \<bar>x\<bar> - 52 in scale2 (of_int (round_half_even (scale2 x (- k)))) k)"

definition trunc64 :: "rat \<Rightarrow> int" where
  \<comment> \<open>the conversion \<open>int64(x)\<close>: towards zero\<close>
  "trunc64 x = (if 0 \<le> x then \<lfloor>x\<rfloor> else \<lceil>x\<rceil>)"

definition i64 :: "int \<Rightarrow> int" where
  "i64 x = (x + 2 ^ 63) mod 2 ^ 64 - 2 ^ 63"

definition Min64f :: "rat \<Rightarrow> rat \<Rightarrow> rat" where
  "Min64f val1 val2 = (if val1 < val2 then val1 else val2)"

definition Max64f :: "rat \<Rightarrow> rat \<Rightarrow> rat" where
  "Max64f val1 val2 = (if val1 > val2 then val1 else val2)"

section \<open>The round-trip estimate\<close>

definition ALPHA :: rat where "ALPHA = 85 / 100"
definition BETA :: rat where "BETA = 3 / 2"

definition calculateSRTT :: "int \<Rightarrow> int \<Rightarrow> int" where
  "calculateSRTT SRTTlast rtt =
     trunc64 (f64 (f64 (f64 (of_int SRTTlast) * f64 ALPHA) + f64 (f64 (of_int rtt) * f64 (1 - ALPHA))))"

definition calculateRTO :: "int \<Rightarrow> int" where
  "calculateRTO srtt =
     trunc64 (Min64f (of_int RTO_UPPER) (Max64f (f64 (f64 BETA * f64 (of_int srtt))) (of_int RTO_LOWER)))"

definition updateTimeout :: "int \<Rightarrow> TCB \<Rightarrow> u32 \<Rightarrow> TCB \<times> effect list" where
  "updateTimeout now tcb segmentReceivedNum =
     (case SegmentToTimestamp tcb segmentReceivedNum of
        None \<Rightarrow> (tcb, [])
      | Some stamp \<Rightarrow>
          let rtt = i64 (now - stamp);
              srtt = (if SRTT tcb = -1 then calculateSRTT rtt rtt else calculateSRTT (SRTT tcb) rtt)
          in (tcb\<lparr>SegmentToTimestamp := (SegmentToTimestamp tcb)(segmentReceivedNum := None),
                 SRTT := srtt, RTO := calculateRTO srtt\<rparr>, [NotifyRTO]))"

section \<open>The retransmission queue\<close>

fun index_to_remove :: "nat \<Rightarrow> RetransmitSegment list \<Rightarrow> u32 \<Rightarrow> int \<Rightarrow> int" where
  \<comment> \<open>the scan of \<open>removeFromRetransmissionQueue\<close>: the last index before the first entry that is
      not acknowledged\<close>
  "index_to_remove i [] ackNum r = r"
| "index_to_remove i (s # ss) ackNum r =
     (if SeqNum (TCPHeader s) < ackNum then index_to_remove (Suc i) ss ackNum (int i) else r)"

definition removeFromRetransmissionQueue :: "TCB \<Rightarrow> u32 \<Rightarrow> TCB" where
  "removeFromRetransmissionQueue tcb ackNum =
     (let r = index_to_remove 0 (RetransmissionQueue tcb) ackNum (-1)
      in if r > -1
         then tcb\<lparr>RetransmissionQueue := drop (nat (r + 1)) (RetransmissionQueue tcb), RetransmitCounter := 0\<rparr>
         else tcb)"

definition retransmit_payload :: "TCB \<Rightarrow> RetransmitSegment \<Rightarrow> byte list go" where
  \<comment> \<open>the payload of a queued segment, read back from the send buffer; the same code stands in
      \<open>fastRetransmit\<close> and in \<open>waitTimeout\<close>\<close>
  "retransmit_payload tcb seg =
     (let buf = SND_Buffer (SND tcb);
          seq_num_index = SequenceToBufferInd (SeqNum (TCPHeader seg));
          payload = replicate (unat (PayloadLen seg)) 0
      in if PayloadLen seg > 0
         then if seq_num_index + PayloadLen seg > MAX_BUF_SIZE
           then let firstCopy = MAX_BUF_SIZE - seq_num_index;
                    secondCopy = seq_num_index + PayloadLen seg - MAX_BUF_SIZE
                in gbind (slice buf (unat seq_num_index) (length buf)) (\<lambda>src1.
                   gbind (copy_into payload 0 (length payload) src1) (\<lambda>p1.
                   gbind (slice buf 0 (unat secondCopy)) (\<lambda>src2.
                   copy_into p1 (unat firstCopy) (length p1) src2)))
           else gbind (slice buf (unat seq_num_index) (unat (seq_num_index + PayloadLen seg)))
                  (\<lambda>src. copy_into payload 0 (length payload) src)
         else Inr payload)"

definition retransmit_first :: "netstack \<Rightarrow> int \<Rightarrow> SocketData \<Rightarrow> TCB \<Rightarrow> (TCB \<times> byte list) go" where
  \<comment> \<open>retransmission of the first element of the queue, with the timestamp and the backoff\<close>
  "retransmit_first ns now key tcb =
     (case RetransmissionQueue tcb of
        [] \<Rightarrow> Inl Panic
      | seg # _ \<Rightarrow>
          gbind (retransmit_payload tcb seg) (\<lambda>payload.
            let seq_num_index = SequenceToBufferInd (SeqNum (TCPHeader seg))
            in Inr (tcb\<lparr>SegmentToTimestamp := (SegmentToTimestamp tcb)(seq_num_index + PayloadLen seg \<mapsto> now),
                       RTO := i64 (RTO tcb * 2)\<rparr>,
                    ip_message ns (LocalAddr key) (DestAddr key) (TCPHeader seg) payload)))"

definition fastRetransmit :: "netstack \<Rightarrow> int \<Rightarrow> SocketData \<Rightarrow> TCB \<Rightarrow> (TCB \<times> effect list) go" where
  "fastRetransmit ns now key tcb =
     gbind (retransmit_first ns now key ((AfterLoss tcb)\<lparr>CurrentAckFreq := 0\<rparr>)) (\<lambda>(tcb', msg).
       Inr (tcb', [IPSend msg, NotifyRTO]))"

section \<open>The timer goroutines\<close>

definition waitTimeout_fire ::
  "netstack \<Rightarrow> int \<Rightarrow> SocketData \<Rightarrow> TCB \<Rightarrow> (TCB \<times> effect list \<times> bool) go" where
  "waitTimeout_fire ns now key tcb =
     (if State tcb = TIME_WAIT \<or> State tcb = CLOSED then Inr (tcb, [], False)
      else if RetransmissionQueue tcb = [] then Inr (tcb, [], True)
      else if RetransmitCounter tcb = MAX_RETRANSMISSIONS
        then Inr (tcb\<lparr>State := CLOSED, TimeoutCancelled := True\<rparr>,
                  [BroadcastWrite, SignalSend, SignalRead, DeleteSocket key], False)
      else let tcb1 = (if CControlEnabled tcb then AfterLoss tcb else tcb);
               tcb2 = tcb1\<lparr>RetransmitCounter := RetransmitCounter tcb1 + 1\<rparr>
           in gbind (retransmit_first ns now key tcb2) (\<lambda>(tcb3, msg). Inr (tcb3, [IPSend msg], True)))"

definition WaitForAckReceiver_fire :: "netstack \<Rightarrow> SocketData \<Rightarrow> TCB \<Rightarrow> TCB \<times> effect list \<times> bool" where
  "WaitForAckReceiver_fire ns key tcb =
     (if RetransmitCounter tcb = MAX_RETRANSMISSIONS
      then (tcb\<lparr>State := CLOSED\<rparr>, [DeleteSocket key], False)
      else let tcb1 = tcb\<lparr>RetransmitCounter := RetransmitCounter tcb + 1\<rparr>;
               hdr = CreateTCPHeader ns (LocalAddr key) (DestAddr key) (LocalPort key) (DestPort key)
                       (SND_ISS (SND tcb)) (RCV_NXT (RCV tcb)) (TCPFlagSyn ns OR TCPFlagAck ns)
                       (RCV_WND (RCV tcb)) []
           in (tcb1, [IPSend (ip_message ns (LocalAddr key) (DestAddr key) hdr [])], True))"

definition WaitForAckReceiver_ack :: "TCB \<Rightarrow> TCB \<times> effect list \<times> bool" where
  "WaitForAckReceiver_ack tcb = (tcb\<lparr>RetransmitCounter := 0\<rparr>, [], False)"

section \<open>Lemmas\<close>

lemma index_to_remove_takeWhile:
  "index_to_remove i ss ackNum r =
     (let n = length (takeWhile (\<lambda>s. SeqNum (TCPHeader s) < ackNum) ss)
      in if n = 0 then r else int (i + n) - 1)"
  by (induction i ss ackNum r rule: index_to_remove.induct) (auto simp: Let_def)

lemma removeFromRetransmissionQueue_eq:
  "removeFromRetransmissionQueue tcb ackNum =
     (let acked = takeWhile (\<lambda>s. SeqNum (TCPHeader s) < ackNum) (RetransmissionQueue tcb)
      in if acked = [] then tcb
         else tcb\<lparr>RetransmissionQueue := dropWhile (\<lambda>s. SeqNum (TCPHeader s) < ackNum) (RetransmissionQueue tcb),
                  RetransmitCounter := 0\<rparr>)"
  by (auto simp: removeFromRetransmissionQueue_def index_to_remove_takeWhile Let_def dropWhile_eq_drop)

lemma RetransmissionQueue_remove [simp]:
  "RetransmissionQueue (removeFromRetransmissionQueue tcb ackNum)
     = dropWhile (\<lambda>s. SeqNum (TCPHeader s) < ackNum) (RetransmissionQueue tcb)"
  by (cases "RetransmissionQueue tcb") (auto simp: removeFromRetransmissionQueue_eq Let_def)

lemma remove_frame [simp]:
  "State (removeFromRetransmissionQueue tcb a) = State tcb"
  "SND (removeFromRetransmissionQueue tcb a) = SND tcb"
  "RCV (removeFromRetransmissionQueue tcb a) = RCV tcb"
  "EarlyQ (removeFromRetransmissionQueue tcb a) = EarlyQ tcb"
  "CWND (removeFromRetransmissionQueue tcb a) = CWND tcb"
  "SSTHRESH (removeFromRetransmissionQueue tcb a) = SSTHRESH tcb"
  "CControlEnabled (removeFromRetransmissionQueue tcb a) = CControlEnabled tcb"
  "SegmentToTimestamp (removeFromRetransmissionQueue tcb a) = SegmentToTimestamp tcb"
  "Cancelled (removeFromRetransmissionQueue tcb a) = Cancelled tcb"
  "PendingReceivedFin (removeFromRetransmissionQueue tcb a) = PendingReceivedFin tcb"
  by (simp_all add: removeFromRetransmissionQueue_def Let_def)

lemma retransmit_payload_fetch:
  assumes "length (SND_Buffer (SND tcb)) = 65535" and "unat (PayloadLen seg) \<le> 65535"
  shows "retransmit_payload tcb seg
    = Inr (ring_fetch (SND_Buffer (SND tcb)) (unat (SeqNum (TCPHeader seg))) (unat (PayloadLen seg)))"
proof -
  let ?buf = "SND_Buffer (SND tcb)"
  let ?n = "unat (PayloadLen seg)"
  let ?s = "unat (SeqNum (TCPHeader seg))"
  let ?i = "?s mod 65535"
  let ?ix = "SequenceToBufferInd (SeqNum (TCPHeader seg))"
  have ix: "unat ?ix = ?i" by (simp add: u32_nat)
  have i: "?i < 65535" by simp
  have sum: "unat (?ix + PayloadLen seg) = ?i + ?n"
    using ix i assms(2) by (simp add: unat_add_u32)
  consider (none) "?n = 0" | (wrap) "0 < ?n" "65535 < ?i + ?n" | (block) "0 < ?n" "?i + ?n \<le> 65535"
    by linarith
  then show ?thesis
  proof cases
    case none
    then have "PayloadLen seg = 0" by (simp add: unat_eq_0)
    then show ?thesis by (simp add: retransmit_payload_def Let_def ring_fetch_def)
  next
    case wrap
    have c: "PayloadLen seg > 0" "?ix + PayloadLen seg > MAX_BUF_SIZE"
      using wrap by (auto simp: u32_less_nat sum)
    have first: "unat (MAX_BUF_SIZE - ?ix) = 65535 - ?i"
      using i ix by (simp add: unat_sub_u32 u32_le_nat)
    have second: "unat (?ix + PayloadLen seg - MAX_BUF_SIZE) = ?i + ?n - 65535"
      using c(2) sum by (simp add: unat_sub_u32)
    have "ring_fetch ?buf ?s ?n = drop ?i ?buf @ take (?i + ?n - 65535) ?buf"
      using ring_fetch_wrap [of ?buf ?s ?n] assms wrap by simp
    then show ?thesis
      using c assms i wrap
      by (simp add: retransmit_payload_def Let_def ix first second go_simps)
  next
    case block
    have c: "PayloadLen seg > 0" "\<not> ?ix + PayloadLen seg > MAX_BUF_SIZE"
      using block by (auto simp: u32_less_nat sum)
    have "ring_fetch ?buf ?s ?n = take ?n (drop ?i ?buf)"
      using ring_fetch_block [of ?s ?buf ?n] assms block by simp
    then show ?thesis
      using c assms block
      by (simp add: retransmit_payload_def Let_def ix sum go_simps)
  qed
qed

lemma trunc64_of_int [simp]: "trunc64 (of_int k) = k"
  by (simp add: trunc64_def)

lemma trunc64_mono: "x \<le> y \<Longrightarrow> trunc64 x \<le> trunc64 y"
  unfolding trunc64_def by (auto simp: floor_mono ceiling_mono) (meson ceiling_le_zero le_floor_iff less_le_not_le linear of_int_0 order_trans zero_le_floor)

lemma calculateRTO_bounds: "RTO_LOWER \<le> calculateRTO srtt \<and> calculateRTO srtt \<le> RTO_UPPER"
proof
  let ?x = "Min64f (of_int RTO_UPPER) (Max64f (f64 (f64 BETA * f64 (of_int srtt))) (of_int RTO_LOWER))"
  have "of_int RTO_LOWER \<le> ?x" "?x \<le> of_int RTO_UPPER"
    by (auto simp: Min64f_def Max64f_def RTO_UPPER_def RTO_LOWER_def)
  then show "RTO_LOWER \<le> calculateRTO srtt" "calculateRTO srtt \<le> RTO_UPPER"
    using trunc64_mono [of "of_int RTO_LOWER" ?x] trunc64_mono [of ?x "of_int RTO_UPPER"]
    by (auto simp: calculateRTO_def)
qed

lemma AfterLoss_frame [simp]:
  "State (AfterLoss tcb) = State tcb" "SND (AfterLoss tcb) = SND tcb" "RCV (AfterLoss tcb) = RCV tcb"
  "RetransmissionQueue (AfterLoss tcb) = RetransmissionQueue tcb"
  "RetransmitCounter (AfterLoss tcb) = RetransmitCounter tcb" "RTO (AfterLoss tcb) = RTO tcb"
  "EarlyQ (AfterLoss tcb) = EarlyQ tcb" "CControlEnabled (AfterLoss tcb) = CControlEnabled tcb"
  "SegmentToTimestamp (AfterLoss tcb) = SegmentToTimestamp tcb"
  by (simp_all add: AfterLoss_def)

definition queued_message :: "netstack \<Rightarrow> SocketData \<Rightarrow> TCB \<Rightarrow> RetransmitSegment \<Rightarrow> byte list" where
  \<comment> \<open>the message a queued segment stands for: its header and the bytes of the send ring at its
      sequence number\<close>
  "queued_message ns key tcb seg =
     ip_message ns (LocalAddr key) (DestAddr key) (TCPHeader seg)
       (ring_fetch (SND_Buffer (SND tcb)) (unat (SeqNum (TCPHeader seg))) (unat (PayloadLen seg)))"

lemma retransmit_first_Cons:
  assumes "RetransmissionQueue tcb = seg # rest"
    and "length (SND_Buffer (SND tcb)) = 65535" and "unat (PayloadLen seg) \<le> 65535"
  shows "retransmit_first ns now key tcb =
    Inr (tcb\<lparr>SegmentToTimestamp := (SegmentToTimestamp tcb)
           (SequenceToBufferInd (SeqNum (TCPHeader seg)) + PayloadLen seg \<mapsto> now),
         RTO := i64 (RTO tcb * 2)\<rparr>, queued_message ns key tcb seg)"
  using assms by (simp add: retransmit_first_def retransmit_payload_fetch queued_message_def)

lemma waitTimeout_fire_resends:
  assumes "State tcb \<noteq> TIME_WAIT" "State tcb \<noteq> CLOSED" "RetransmissionQueue tcb = seg # rest"
    and "length (SND_Buffer (SND tcb)) = 65535" "unat (PayloadLen seg) \<le> 65535"
    and "RetransmitCounter tcb \<noteq> 5"
  obtains tcb' where "waitTimeout_fire ns now key tcb = Inr (tcb', [IPSend (queued_message ns key tcb seg)], True)"
    and "State tcb' = State tcb" "SND tcb' = SND tcb" "RetransmissionQueue tcb' = seg # rest"
    and "RetransmitCounter tcb' = RetransmitCounter tcb + 1"
proof -
  let ?t1 = "(if CControlEnabled tcb then AfterLoss tcb else tcb)\<lparr>RetransmitCounter := RetransmitCounter tcb + 1\<rparr>"
  let ?t2 = "?t1\<lparr>SegmentToTimestamp := (SegmentToTimestamp ?t1)
           (SequenceToBufferInd (SeqNum (TCPHeader seg)) + PayloadLen seg \<mapsto> now), RTO := i64 (RTO ?t1 * 2)\<rparr>"
  have f: "State ?t1 = State tcb" "SND ?t1 = SND tcb" "RetransmissionQueue ?t1 = seg # rest"
    using assms(3) by auto
  then have "retransmit_first ns now key ?t1 = Inr (?t2, queued_message ns key tcb seg)"
    using retransmit_first_Cons [of ?t1 seg rest ns now key] assms(4,5) by (simp add: queued_message_def)
  then have "waitTimeout_fire ns now key tcb = Inr (?t2, [IPSend (queued_message ns key tcb seg)], True)"
    using assms by (auto simp: waitTimeout_fire_def MAX_RETRANSMISSIONS_def Let_def)
  then show ?thesis by (rule that) (use f assms(3) in auto)
qed

section \<open>Properties\<close>

text \<open>
  \<open>removeFromRetransmissionQueue\<close> drops exactly the leading segments that start below the
  acknowledgement number and resets the retransmission counter if there are any; on a queue in
  sequence order these are all the segments that start below it.
\<close>

lemma removeFromRetransmissionQueue_spec:
  defines "acked \<equiv> \<lambda>ackNum s. SeqNum (TCPHeader s) < ackNum"
  shows "RetransmissionQueue (removeFromRetransmissionQueue tcb ackNum)
      = dropWhile (acked ackNum) (RetransmissionQueue tcb)
    \<and> RetransmitCounter (removeFromRetransmissionQueue tcb ackNum)
      = (if RetransmissionQueue tcb \<noteq> [] \<and> acked ackNum (hd (RetransmissionQueue tcb)) then 0
         else RetransmitCounter tcb)
    \<and> (sorted (map (\<lambda>s. SeqNum (TCPHeader s)) (RetransmissionQueue tcb)) \<longrightarrow>
         RetransmissionQueue (removeFromRetransmissionQueue tcb ackNum)
           = filter (\<lambda>s. \<not> acked ackNum s) (RetransmissionQueue tcb))"
proof -
  have "dropWhile (acked a) q = filter (\<lambda>s. \<not> acked a s) q"
    if "sorted (map (\<lambda>s. SeqNum (TCPHeader s)) q)" for a q
    using that
  proof (induction q)
    case (Cons s q)
    then show ?case
      by (cases "acked a s") (auto simp: acked_def not_less intro!: filter_True [symmetric] dest: order_trans)
  qed simp
  moreover have "RetransmitCounter (removeFromRetransmissionQueue tcb ackNum)
      = (if RetransmissionQueue tcb \<noteq> [] \<and> acked ackNum (hd (RetransmissionQueue tcb)) then 0
         else RetransmitCounter tcb)"
    by (cases "RetransmissionQueue tcb") (auto simp: removeFromRetransmissionQueue_eq acked_def)
  ultimately show ?thesis by (simp add: acked_def)
qed

definition sample_segment :: "u32 \<Rightarrow> u32 \<Rightarrow> RetransmitSegment" where
  "sample_segment sq n = \<lparr>TCPHeader = \<lparr>SrcPort = 1, DstPort = 2, SeqNum = sq, AckNum = 0, DataOffset = 20,
     Flags = 16, WindowSize = 0, Checksum = 0, UrgentPointer = 0\<rparr>, PayloadLen = n\<rparr>"

text \<open>
  A measured round trip always gives a retransmission timeout between 1 ms and 1 s, whatever the
  smoothed estimate was, forgets the timestamp it used, and restarts the timer.
\<close>

lemma updateTimeout_bounds:
  assumes "SegmentToTimestamp tcb ackNum = Some stamp"
  shows "\<exists>tcb'. updateTimeout now tcb ackNum = (tcb', [NotifyRTO])
    \<and> 1000000 \<le> RTO tcb' \<and> RTO tcb' \<le> 1000000000
    \<and> SegmentToTimestamp tcb' = (SegmentToTimestamp tcb)(ackNum := None)"
  using assms calculateRTO_bounds
  by (simp add: updateTimeout_def Let_def RTO_LOWER_def RTO_UPPER_def)

fun timeouts :: "netstack \<Rightarrow> int list \<Rightarrow> SocketData \<Rightarrow> TCB \<Rightarrow> (TCB \<times> effect list \<times> bool) go" where
  \<comment> \<open>the goroutine \<open>waitTimeout\<close> when its timer fires at the given times and nothing else happens\<close>
  "timeouts ns [] key tcb = Inr (tcb, [], True)"
| "timeouts ns (now # ts) key tcb =
     gbind (waitTimeout_fire ns now key tcb) (\<lambda>(tcb1, fx, on).
       if on then gbind (timeouts ns ts key tcb1) (\<lambda>(tcb2, fx2, on2). Inr (tcb2, fx @ fx2, on2))
       else Inr (tcb1, fx, False))"

lemma timeouts_from_counter:
  assumes "State tcb \<noteq> TIME_WAIT" "State tcb \<noteq> CLOSED"
    and "RetransmissionQueue tcb = seg # rest"
    and "length (SND_Buffer (SND tcb)) = 65535" "unat (PayloadLen seg) \<le> 65535"
    and "RetransmitCounter tcb = 5 - int j" and "j < length ts"
  shows "\<exists>tcb'. timeouts ns ts key tcb = Inr (tcb',
      replicate j (IPSend (queued_message ns key tcb seg))
      @ [BroadcastWrite, SignalSend, SignalRead, DeleteSocket key], False)
    \<and> State tcb' = CLOSED \<and> TimeoutCancelled tcb'"
  using assms
proof (induction j arbitrary: tcb ts)
  case 0
  then obtain now ts' where "ts = now # ts'" by (cases ts) auto
  with 0 show ?case by (simp add: waitTimeout_fire_def MAX_RETRANSMISSIONS_def)
next
  case (Suc j)
  then obtain now ts' where ts: "ts = now # ts'" by (cases ts) auto
  obtain tcb1 where t: "waitTimeout_fire ns now key tcb = Inr (tcb1, [IPSend (queued_message ns key tcb seg)], True)"
    "State tcb1 = State tcb" "SND tcb1 = SND tcb" "RetransmissionQueue tcb1 = seg # rest"
    "RetransmitCounter tcb1 = RetransmitCounter tcb + 1"
    using waitTimeout_fire_resends [of tcb seg rest ns now key] Suc.prems by auto
  moreover have "queued_message ns key tcb1 seg = queued_message ns key tcb seg"
    using t(3) by (simp add: queued_message_def)
  ultimately show ?case
    using Suc.IH [of tcb1 ts'] Suc.prems ts by auto
qed

text \<open>
  C24. With a segment outstanding and no acknowledgement coming in, the retransmission timer resends
  the first queued segment, with the payload the send buffer holds for its sequence number, exactly five
  times; the sixth expiry closes the connection, wakes every blocked caller, removes the socket
  and ends the goroutine.
\<close>

theorem waitTimeout_gives_up:
  assumes "State tcb \<noteq> TIME_WAIT" and "State tcb \<noteq> CLOSED"
    and "RetransmissionQueue tcb = seg # rest" and "RetransmitCounter tcb = 0"
    and "length (SND_Buffer (SND tcb)) = 65535" and "unat (PayloadLen seg) \<le> 65535"
    and "6 \<le> length ts"
  shows "\<exists>tcb'. timeouts ns ts key tcb = Inr (tcb',
      replicate 5 (IPSend (queued_message ns key tcb seg))
      @ [BroadcastWrite, SignalSend, SignalRead, DeleteSocket key], False)
    \<and> State tcb' = CLOSED \<and> TimeoutCancelled tcb'"
  using timeouts_from_counter [of tcb seg rest 5 ts ns key] assms by simp

theorem waitTimeout_gives_up_witness:
  "\<exists>tcb tcb'. timeouts rfc793 [1, 2, 3, 4, 5, 6] zero_SocketData tcb = Inr (tcb',
      replicate 5 (IPSend (queued_message rfc793 zero_SocketData tcb (sample_segment 10 5)))
      @ [BroadcastWrite, SignalSend, SignalRead, DeleteSocket zero_SocketData], False) \<and> State tcb' = CLOSED"
proof -
  let ?tcb = "zero_TCB\<lparr>State := ESTABLISHED, SND := zero_Send\<lparr>SND_Buffer := make_buf\<rparr>,
        RetransmissionQueue := [sample_segment 10 5]\<rparr>"
  have "RetransmitCounter ?tcb = 0" "unat (PayloadLen (sample_segment 10 5)) \<le> 65535"
    by (simp_all add: zero_TCB_def sample_segment_def)
  then show ?thesis
    using waitTimeout_gives_up [of ?tcb "sample_segment 10 5" "[]" "[1, 2, 3, 4, 5, 6]" rfc793 zero_SocketData]
    by auto
qed

end
