(* ===== verification/ReceivePath.thy ===== *)
theory ReceivePath
  imports EarlyArrivals Timeout
begin

text \<open>
  The receiving side of an established connection, \<open>Receive\<close> and \<open>ReceiveFin\<close> of
  \<open>src/pkg/tcp/tcp_handler_core.go\<close>: what a data segment does to the receive buffer, the window and
  the early-arrival queue, and what an acknowledgement does to the send window, the retransmission
  queue and the congestion window.
\<close>

section \<open>Copying a payload into the receive buffer\<close>

definition receive_copy :: "byte list \<Rightarrow> byte list \<Rightarrow> u32 \<Rightarrow> u32 \<Rightarrow> u32 \<Rightarrow> byte list go" where
  "receive_copy buf payload nxt_index toCopy amountCopied =
     (if nxt_index + toCopy \<ge> MAX_BUF_SIZE
      then let firstCopy = MAX_BUF_SIZE - nxt_index;
               secondCopy = toCopy - firstCopy
           in gbind (slice payload (unat amountCopied) (unat (amountCopied + firstCopy))) (\<lambda>p1.
              gbind (copy_into buf (unat nxt_index) (length buf) p1) (\<lambda>buf1.
              gbind (slice payload (unat (amountCopied + firstCopy)) (unat (amountCopied + firstCopy + secondCopy))) (\<lambda>p2.
              copy_into buf1 0 (unat secondCopy) p2)))
      else gbind (slice payload (unat amountCopied) (unat (amountCopied + toCopy))) (\<lambda>p.
           copy_into buf (unat nxt_index) (unat (nxt_index + toCopy)) p))"

partial_function (option) receive_loop ::
  "bool \<Rightarrow> byte list \<Rightarrow> u32 \<Rightarrow> Receive \<Rightarrow> u32 \<Rightarrow> u32 \<Rightarrow> Receive go option" where
  "receive_loop earlyArrivals payload amountToCopy r startCopyIndex amountCopied =
     (if amountCopied < amountToCopy
      then let nxt_index = SequenceToBufferInd startCopyIndex;
               remainingBufSize = MAX_BUF_SIZE - (startCopyIndex - RCV_LBR r);
               toCopy = Min32 remainingBufSize (amountToCopy - amountCopied)
           in case receive_copy (RCV_Buffer r) payload nxt_index toCopy amountCopied of
                Inl e \<Rightarrow> Some (Inl e)
              | Inr buf \<Rightarrow>
                  receive_loop earlyArrivals payload amountToCopy
                    (if earlyArrivals then r\<lparr>RCV_Buffer := buf\<rparr>
                     else r\<lparr>RCV_Buffer := buf, RCV_NXT := RCV_NXT r + toCopy, RCV_WND := RCV_WND r - toCopy\<rparr>)
                    (startCopyIndex + toCopy) (amountCopied + toCopy)
      else Some (Inr r))"

section \<open>Receive\<close>

definition ack_message :: "netstack \<Rightarrow> SocketData \<Rightarrow> TCB \<Rightarrow> u32 \<Rightarrow> byte list" where
  \<comment> \<open>the acknowledgement the handlers build from the current \<open>SND.NXT\<close> and \<open>RCV.WND\<close>\<close>
  "ack_message ns key tcb ackNum =
     ip_message ns (LocalAddr key) (DestAddr key)
       (CreateTCPHeader ns (LocalAddr key) (DestAddr key) (LocalPort key) (DestPort key)
          (SND_NXT (SND tcb)) ackNum (TCPFlagAck ns) (RCV_WND (RCV tcb)) []) []"

definition receive_data ::
  "netstack \<Rightarrow> SocketData \<Rightarrow> u32 \<Rightarrow> byte list \<Rightarrow> TCB \<Rightarrow> (TCB \<times> effect list) go" where
  \<comment> \<open>the part of \<open>Receive\<close> for a segment with a payload\<close>
  "receive_data ns key seqNumReceived payload tcb =
     (if seqNumReceived < RCV_NXT (RCV tcb)
      then Inr (tcb, [IPSend (ack_message ns key tcb (RCV_NXT (RCV tcb)))])
      else if seqNumReceived \<ge> RCV_NXT (RCV tcb) + RCV_WND (RCV tcb)
      then Inr (tcb, [IPSend (ack_message ns key tcb (RCV_NXT (RCV tcb)))])
      else
        let earlyArrivals = seqNumReceived > RCV_NXT (RCV tcb);
            startCopyIndex = (if earlyArrivals then seqNumReceived else RCV_NXT (RCV tcb))
        in gbind (of_loop (receive_loop earlyArrivals payload (of_nat (length payload)) (RCV tcb) startCopyIndex 0)) (\<lambda>r.
           let tcb1 = tcb\<lparr>RCV := r\<rparr>
           in gbind (if \<not> earlyArrivals
                     then gbind (updateAckNum tcb1 (RCV_NXT r)) (\<lambda>(tcb2, n).
                       Inr (tcb2\<lparr>RCV := (RCV tcb2)\<lparr>RCV_NXT := n, RCV_WND := RCV_WND (RCV tcb2) - (n - RCV_NXT r)\<rparr>\<rparr>))
                     else Inr (tcb1\<lparr>EarlyQ := Push \<lparr>SequenceNum = seqNumReceived, EntryLen = of_nat (length payload)\<rparr> (EarlyQ tcb1)\<rparr>)) (\<lambda>tcb3.
              if RCV_NXT (RCV tcb3) = PendingReceivedFin tcb3
              then let tcb4 = tcb3\<lparr>State := CLOSE_WAIT\<rparr>
                   in Inr (tcb4, [IPSend (ack_message ns key tcb4 (RCV_NXT (RCV tcb4) + 1)), SignalRead])
              else Inr (tcb3, [IPSend (ack_message ns key tcb3 (RCV_NXT (RCV tcb3))), SignalRead]))))"

definition ack_rejected :: "TCPFields \<Rightarrow> Send \<Rightarrow> bool" where
  \<comment> \<open>the acknowledgement numbers \<open>Receive\<close> ignores\<close>
  "ack_rejected h s =
     (if WindowSize h = 0 then AckNum h \<le> SND_UNA s \<or> AckNum h > SND_NXT s
      else AckNum h \<le> SND_UNA s \<or> (AckNum h > SND_UNA s + SND_WND s \<and> SND_WND s \<noteq> 0))"

definition receive_ack ::
  "netstack \<Rightarrow> int \<Rightarrow> SocketData \<Rightarrow> TCPFields \<Rightarrow> TCB \<Rightarrow> (TCB \<times> effect list) go" where
  \<comment> \<open>the part of \<open>Receive\<close> for the acknowledgement number\<close>
  "receive_ack ns now key h tcb =
     (let ackNum = AckNum h; dup = (CControlEnabled tcb \<and> ackNum = CurrentAck tcb)
      in if dup \<and> CurrentAckFreq tcb = 3 \<and> length (RetransmissionQueue tcb) > 0
         then fastRetransmit ns now key (tcb\<lparr>CurrentAckFreq := 0\<rparr>)
         else let tcb1 = (if dup then tcb\<lparr>CurrentAckFreq := CurrentAckFreq tcb + 1\<rparr> else tcb)
         in if ack_rejected h (SND tcb1) then Inr (tcb1, [])
         else let tcb2 = removeFromRetransmissionQueue tcb1 ackNum
         in gbind (if CControlEnabled tcb2
                   then gbind (UpdateCWNDWindow tcb2) (\<lambda>t. Inr (t\<lparr>CurrentAck := ackNum, CurrentAckFreq := 1\<rparr>))
                   else Inr tcb2) (\<lambda>tcb3.
              let tcb4 = tcb3\<lparr>SND := (SND tcb3)\<lparr>SND_WND := ucast (WindowSize h), SND_UNA := ackNum\<rparr>\<rparr>;
                  (tcb5, fx) = updateTimeout now tcb4 ackNum
              in Inr (tcb5, [BroadcastWrite] @ (if WindowSize h > 0 then [SignalZero] else []) @ fx)))"

definition Receive ::
  "netstack \<Rightarrow> int \<Rightarrow> TCPFields \<Rightarrow> byte list \<Rightarrow> SocketData \<Rightarrow> TCB \<Rightarrow> (TCB \<times> effect list) go" where
  "Receive ns now h payload key tcb =
     (if \<not> has_flag h (TCPFlagAck ns) then Inr (tcb, [])
      else gbind (if length payload > 0 then receive_data ns key (SeqNum h) payload tcb else Inr (tcb, []))
        (\<lambda>(tcb1, fx1). gbind (receive_ack ns now key h tcb1) (\<lambda>(tcb2, fx2). Inr (tcb2, fx1 @ fx2))))"

definition ReceiveFin :: "netstack \<Rightarrow> TCPFields \<Rightarrow> SocketData \<Rightarrow> TCB \<Rightarrow> TCB \<times> effect list" where
  "ReceiveFin ns h key tcb =
     (if SeqNum h = RCV_NXT (RCV tcb)
      then let tcb1 = tcb\<lparr>State := CLOSE_WAIT\<rparr>
           in (tcb1, [SignalRead, IPSend (ack_message ns key tcb1 (RCV_NXT (RCV tcb) + 1))])
      else if SeqNum h > RCV_NXT (RCV tcb)
      then let tcb1 = tcb\<lparr>PendingReceivedFin := SeqNum h\<rparr>
           in (tcb1, [IPSend (ack_message ns key tcb1 (RCV_NXT (RCV tcb)))])
      else (tcb, [IPSend (ack_message ns key tcb 0)]))"

section \<open>The copy is a store into the ring\<close>

lemma receive_copy_store:
  assumes "length buf = 65535" and "unat toCopy \<le> 65535"
    and "unat amountCopied + unat toCopy \<le> length payload" and "length payload < 2 ^ 32"
  shows "receive_copy buf payload (SequenceToBufferInd start) toCopy amountCopied
    = Inr (ring_store buf (unat start) (take (unat toCopy) (drop (unat amountCopied) payload)))"
proof -
  let ?n = "unat toCopy" and ?a = "unat amountCopied" and ?i = "unat start mod 65535"
  let ?ix = "SequenceToBufferInd start"
  have ix: "unat ?ix = ?i" by (simp add: u32_nat)
  have sum: "unat (?ix + toCopy) = ?i + ?n" using ix assms(2) by (simp add: unat_add_u32)
  have e: "unat (amountCopied + toCopy) = ?a + ?n" using assms(3,4) by (simp add: unat_add_u32)
  show ?thesis
  proof (cases "65535 \<le> ?i + ?n")
    case True
    have first: "unat (MAX_BUF_SIZE - ?ix) = 65535 - ?i"
      using ix by (simp add: unat_sub_u32 u32_le_nat)
    then have "unat (toCopy - (MAX_BUF_SIZE - ?ix)) = ?n - (65535 - ?i)"
      using True by (subst unat_sub_u32) (auto simp: u32_le_nat)
    moreover have "unat (amountCopied + (MAX_BUF_SIZE - ?ix)) = ?a + (65535 - ?i)"
      using first True assms(3,4) by (simp add: unat_add_u32)
    moreover have "?ix + toCopy \<ge> MAX_BUF_SIZE" using True by (simp add: u32_le_nat sum)
    ultimately show ?thesis
      using store_two_copies [OF assms(1,2,3) True] assms(1) by (simp add: receive_copy_def Let_def ix e)
  next
    case False
    then have "\<not> ?ix + toCopy \<ge> MAX_BUF_SIZE" by (simp add: u32_le_nat sum)
    then show ?thesis
      using store_one_copy [OF assms(1,3), of "unat start" "?i + ?n"] False
      by (simp add: receive_copy_def ix sum e)
  qed
qed

section \<open>The copy loop\<close>

lemma receive_loop_fits:
  assumes "length (RCV_Buffer r) = 65535" and "payload \<noteq> []" and "RCV_LBR r \<le> start"
    and "unat start - unat (RCV_LBR r) + length payload \<le> 65535"
  shows "receive_loop early payload (of_nat (length payload)) r start 0 =
    Some (Inr (let buf = ring_store (RCV_Buffer r) (unat start) payload; n = of_nat (length payload)
      in if early then r\<lparr>RCV_Buffer := buf\<rparr>
         else r\<lparr>RCV_Buffer := buf, RCV_NXT := RCV_NXT r + n, RCV_WND := RCV_WND r - n\<rparr>))"
proof -
  let ?n = "of_nat (length payload) :: u32"
  have n: "unat ?n = length payload" using assms(4) by (intro unat_of_nat_u32) simp
  have "unat (MAX_BUF_SIZE - (start - RCV_LBR r)) = 65535 - (unat start - unat (RCV_LBR r))"
    using assms(3,4) by (simp add: unat_sub_u32 u32_le_nat)
  then have m: "Min32 (MAX_BUF_SIZE - (start - RCV_LBR r)) ?n = ?n"
    using assms(4) n by (simp add: u32_eq_nat unat_Min32)
  have c: "receive_copy (RCV_Buffer r) payload (SequenceToBufferInd start) ?n 0
      = Inr (ring_store (RCV_Buffer r) (unat start) payload)"
    using receive_copy_store [of "RCV_Buffer r" ?n 0 payload start] assms n by simp
  have "0 < ?n" using assms(2) n by (simp add: u32_less_nat)
  then show ?thesis
    by (subst receive_loop.simps) (simp add: Let_def m c receive_loop.simps [of _ _ ?n _ _ ?n])
qed

text \<open>
  When the payload does not fit the free part of the buffer the loop copies what fits and then goes
  round with an empty copy for ever.
\<close>

definition overfull :: "byte list \<Rightarrow> u32 \<Rightarrow> Receive \<Rightarrow> u32 \<Rightarrow> u32 \<Rightarrow> bool" where
  "overfull payload n r start copied \<longleftrightarrow>
     length (RCV_Buffer r) = 65535 \<and> unat n = length payload \<and> RCV_LBR r \<le> start \<and> copied \<le> n
     \<and> unat start - unat (RCV_LBR r) \<le> 65535 \<and> unat (RCV_LBR r) + 65535 < 2 ^ 32
     \<and> 65535 < unat start - unat (RCV_LBR r) + (length payload - unat copied)"

lemma overfull_step:
  assumes "overfull payload n r start copied"
  defines "toCopy \<equiv> Min32 (MAX_BUF_SIZE - (start - RCV_LBR r)) (n - copied)"
  obtains buf where "receive_copy (RCV_Buffer r) payload (SequenceToBufferInd start) toCopy copied = Inr buf"
    and "\<And>w x. overfull payload n (r\<lparr>RCV_Buffer := buf, RCV_NXT := w, RCV_WND := x\<rparr>) (start + toCopy) (copied + toCopy)"
    and "overfull payload n (r\<lparr>RCV_Buffer := buf\<rparr>) (start + toCopy) (copied + toCopy)"
    and "copied < n"
proof -
  let ?d = "unat start - unat (RCV_LBR r)"
  note o = assms(1) [unfolded overfull_def]
  have le: "unat (RCV_LBR r) \<le> unat start" "unat copied \<le> unat n"
    using o by (simp_all add: u32_le_nat)
  have rem: "unat (MAX_BUF_SIZE - (start - RCV_LBR r)) = 65535 - ?d"
    using o by (simp add: unat_sub_u32 u32_le_nat)
  have left: "unat (n - copied) = length payload - unat copied" using o by (simp add: unat_sub_u32)
  have t: "unat toCopy = 65535 - ?d" unfolding toCopy_def unat_Min32 rem left by (rule min_absorb1) (use o in linarith)
  have len: "length payload < 2 ^ 32" using o unat_u32_less [of n] by simp
  have c: "receive_copy (RCV_Buffer r) payload (SequenceToBufferInd start) toCopy copied
      = Inr (ring_store (RCV_Buffer r) (unat start) (take (unat toCopy) (drop (unat copied) payload)))"
    using o t len by (intro receive_copy_store) auto
  have s: "unat (start + toCopy) = unat (RCV_LBR r) + 65535" using o t le by (subst unat_add_u32) auto
  have k: "unat (copied + toCopy) = unat copied + (65535 - ?d)" using o t le len by (subst unat_add_u32) auto
  show ?thesis
    by (rule that [OF c]) (use o s k le t in \<open>auto simp: overfull_def u32_le_nat u32_less_nat\<close>)
qed

lemma receive_loop_overfull:
  assumes "overfull payload n r start copied"
  shows "receive_loop early payload n r start copied = None"
proof -
  have "\<not> overfull payload n r start copied" if "receive_loop early payload n r start copied = Some y" for y
  proof (rule receive_loop.raw_induct [where P = "\<lambda>_ payload n r start copied _. \<not> overfull payload n r start copied", OF _ that], rule notI)
    fix loop early payload n r start copied y
    assume ih: "\<And>early payload n r start copied y.
          loop early payload n r start copied = Some y \<Longrightarrow> \<not> overfull payload n r start copied"
      and body: "(if copied < n
      then let nxt_index = SequenceToBufferInd start;
               remainingBufSize = MAX_BUF_SIZE - (start - RCV_LBR r);
               toCopy = Min32 remainingBufSize (n - copied)
           in case receive_copy (RCV_Buffer r) payload nxt_index toCopy copied of
                Inl e \<Rightarrow> Some (Inl e)
              | Inr buf \<Rightarrow>
                  loop early payload n
                    (if early then r\<lparr>RCV_Buffer := buf\<rparr>
                     else r\<lparr>RCV_Buffer := buf, RCV_NXT := RCV_NXT r + toCopy, RCV_WND := RCV_WND r - toCopy\<rparr>)
                    (start + toCopy) (copied + toCopy)
      else Some (Inr r)) = Some y"
      and o: "overfull payload n r start copied"
    show False
      using o by (rule overfull_step) (use body in \<open>auto simp: Let_def split: if_splits dest: ih\<close>)
  qed
  with assms show ?thesis by (cases "receive_loop early payload n r start copied") auto
qed

section \<open>The receive buffer agrees with the sent stream\<close>

text \<open>
  \<open>str\<close> is the byte stream of the peer, indexed by sequence number. The buffer agrees with it
  when every byte the application may read, and every byte of a queued early segment that is still
  ahead, is the byte of the stream at that position. A queued segment ends within the advertised window, whose
  right edge \<open>NXT + WND\<close> no arriving segment moves.
\<close>

definition entry_agrees :: "(nat \<Rightarrow> byte) \<Rightarrow> Receive \<Rightarrow> EarlyArrivalEntry \<Rightarrow> bool" where
  "entry_agrees str r e \<longleftrightarrow> unat (RCV_NXT r) \<le> unat (SequenceNum e) \<longrightarrow>
     entry_end e < 2 ^ 32 \<and> entry_end e \<le> unat (RCV_NXT r) + unat (RCV_WND r)
     \<and> (\<forall>p. unat (SequenceNum e) \<le> p \<and> p < entry_end e \<longrightarrow> ring_at (RCV_Buffer r) p = str p)"

definition rcv_agrees :: "(nat \<Rightarrow> byte) \<Rightarrow> TCB \<Rightarrow> bool" where
  "rcv_agrees str tcb \<longleftrightarrow> rcv_fits (RCV tcb)
     \<and> (\<forall>p. unat (RCV_LBR (RCV tcb)) \<le> p \<and> p < unat (RCV_NXT (RCV tcb)) \<longrightarrow>
          ring_at (RCV_Buffer (RCV tcb)) p = str p)
     \<and> (\<forall>e \<in> set (EarlyArrivals (EarlyQ tcb)). entry_agrees str (RCV tcb) e)"

definition from_stream :: "(nat \<Rightarrow> byte) \<Rightarrow> u32 \<Rightarrow> byte list \<Rightarrow> bool" where
  "from_stream str sq payload \<longleftrightarrow> payload = map str [unat sq..<unat sq + length payload]"

lemma unread_stream:
  assumes "rcv_agrees str tcb"
  shows "unread (RCV tcb) = map str [unat (RCV_LBR (RCV tcb))..<unat (RCV_NXT (RCV tcb))]"
  using assms
  by (intro nth_equalityI) (auto simp: unread_def rcv_agrees_def rcv_fits_def u32_le_nat)

lemma stream_append:
  assumes "from_stream str sq payload" and "lbr \<le> unat sq"
  shows "map str [lbr..<unat sq] @ payload = map str [lbr..<unat sq + length payload]"
proof -
  have "map str [lbr..<unat sq + length payload] = map str [lbr..<unat sq] @ map str [unat sq..<unat sq + length payload]"
    by (simp only: upt_add_eq_append [OF assms(2)] map_append)
  also have "map str [unat sq..<unat sq + length payload] = payload"
    using assms(1) unfolding from_stream_def by (rule sym)
  finally show ?thesis by simp
qed

lemma ring_store_stream:
  assumes "length buf = 65535" and "from_stream str sq payload"
    and "lbr \<le> unat sq" and "unat sq + length payload \<le> lbr + 65535"
    and "lbr \<le> p" and "p < lbr + 65535"
    and "ring_at buf p = str p \<or> unat sq \<le> p \<and> p < unat sq + length payload"
  shows "ring_at (ring_store buf (unat sq) payload) p = str p"
proof (cases "unat sq \<le> p \<and> p < unat sq + length payload")
  case True
  then have "ring_at (ring_store buf (unat sq) payload) (unat sq + (p - unat sq)) = payload ! (p - unat sq)"
    using assms(1,3,4) by (intro ring.at_put_in) auto
  moreover have "payload ! (p - unat sq) = str p"
    using True by (subst assms(2) [unfolded from_stream_def]) auto
  ultimately show ?thesis using True by simp
next
  case False
  then have "ring_at (ring_store buf (unat sq) payload) p = ring_at buf p"
    using assms by (intro ring_at_store_out) auto
  then show ?thesis using False assms(7) by auto
qed

lemma agrees_store:
  assumes "rcv_agrees str tcb" and "from_stream str sq payload"
    and "RCV_NXT (RCV tcb) \<le> sq"
    and "unat sq + length payload \<le> unat (RCV_NXT (RCV tcb)) + unat (RCV_WND (RCV tcb))"
  shows "rcv_agrees str (tcb\<lparr>RCV := (RCV tcb)\<lparr>RCV_Buffer := ring_store (RCV_Buffer (RCV tcb)) (unat sq) payload\<rparr>\<rparr>)"
    and "\<And>p. unat sq \<le> p \<Longrightarrow> p < unat sq + length payload \<Longrightarrow>
      ring_at (ring_store (RCV_Buffer (RCV tcb)) (unat sq) payload) p = str p"
proof -
  let ?r = "RCV tcb" and ?lbr = "unat (RCV_LBR (RCV tcb))"
  have ok: "length (RCV_Buffer ?r) = 65535" "?lbr \<le> unat (RCV_NXT ?r)" "?lbr \<le> unat sq"
    "unat sq + length payload \<le> ?lbr + 65535" "unat (RCV_NXT ?r) \<le> ?lbr + 65535"
    using assms by (auto simp: rcv_agrees_def rcv_fits_def u32_le_nat)
  note st = ring_store_stream [OF ok(1) assms(2) ok(3,4)]
  show "ring_at (ring_store (RCV_Buffer ?r) (unat sq) payload) p = str p"
    if "unat sq \<le> p" "p < unat sq + length payload" for p
    using that ok by (intro st) auto
  have "ring_at (ring_store (RCV_Buffer ?r) (unat sq) payload) p = str p"
    if "?lbr \<le> p" "p < ?lbr + 65535" "ring_at (RCV_Buffer ?r) p = str p" for p
    using that by (intro st) auto
  then show "rcv_agrees str (tcb\<lparr>RCV := ?r\<lparr>RCV_Buffer := ring_store (RCV_Buffer ?r) (unat sq) payload\<rparr>\<rparr>)"
    using assms(1) ok by (auto simp: rcv_agrees_def rcv_fits_def entry_agrees_def)
qed

lemma agrees_advance:
  assumes "rcv_agrees str tcb" and "RCV_NXT (RCV tcb) \<le> n" and "unat n \<le> unat (RCV_NXT (RCV tcb)) + unat (RCV_WND (RCV tcb))"
    and "\<And>p. unat (RCV_NXT (RCV tcb)) \<le> p \<Longrightarrow> p < unat n \<Longrightarrow> ring_at (RCV_Buffer (RCV tcb)) p = str p"
    and "set (EarlyArrivals q) \<subseteq> set (EarlyArrivals (EarlyQ tcb))"
    and "w = RCV_WND (RCV tcb) - (n - RCV_NXT (RCV tcb))"
  shows "rcv_agrees str (tcb\<lparr>RCV := (RCV tcb)\<lparr>RCV_NXT := n, RCV_WND := w\<rparr>, EarlyQ := q\<rparr>)"
    and "unat n + unat w = unat (RCV_NXT (RCV tcb)) + unat (RCV_WND (RCV tcb))"
proof -
  let ?r = "RCV tcb"
  have ok: "unat (RCV_LBR ?r) \<le> unat (RCV_NXT ?r)"
    "unat (RCV_NXT ?r) - unat (RCV_LBR ?r) + unat (RCV_WND ?r) \<le> 65535" "unat (RCV_NXT ?r) \<le> unat n"
    using assms(1,2) by (auto simp: rcv_agrees_def rcv_fits_def u32_le_nat)
  have d: "unat (n - RCV_NXT ?r) = unat n - unat (RCV_NXT ?r)" using assms(2) by (rule unat_sub_u32)
  have "unat w = unat (RCV_WND ?r) - (unat n - unat (RCV_NXT ?r))"
    unfolding assms(6) using d ok assms(3) by (subst unat_sub_u32) (auto simp: u32_le_nat)
  then show e: "unat n + unat w = unat (RCV_NXT ?r) + unat (RCV_WND ?r)" using assms(3) ok by simp
  then have "rcv_fits (?r\<lparr>RCV_NXT := n, RCV_WND := w\<rparr>)"
    using assms(1) ok by (auto simp: rcv_agrees_def rcv_fits_def u32_le_nat)
  then show "rcv_agrees str (tcb\<lparr>RCV := ?r\<lparr>RCV_NXT := n, RCV_WND := w\<rparr>, EarlyQ := q\<rparr>)"
    using assms(1,4,5) ok e
    by (auto simp: rcv_agrees_def entry_agrees_def not_le [symmetric] intro: order_trans)
qed

section \<open>One data segment\<close>

definition finish_data :: "netstack \<Rightarrow> SocketData \<Rightarrow> TCB \<Rightarrow> TCB \<times> effect list" where
  \<comment> \<open>the acknowledgement that closes the handling of an accepted data segment\<close>
  "finish_data ns key t =
     (if RCV_NXT (RCV t) = PendingReceivedFin t
      then (t\<lparr>State := CLOSE_WAIT\<rparr>, [IPSend (ack_message ns key t (RCV_NXT (RCV t) + 1)), SignalRead])
      else (t, [IPSend (ack_message ns key t (RCV_NXT (RCV t))), SignalRead]))"

lemma ack_message_State [simp]: "ack_message ns key (t\<lparr>State := s\<rparr>) a = ack_message ns key t a"
  by (simp add: ack_message_def)

lemma rcv_agrees_State [simp]: "rcv_agrees str (t\<lparr>State := s\<rparr>) = rcv_agrees str t"
  by (simp add: rcv_agrees_def)

lemma finish_data_frame [simp]:
  "rcv_agrees str (fst (finish_data ns key t)) = rcv_agrees str t"
  "RCV (fst (finish_data ns key t)) = RCV t" "SND (fst (finish_data ns key t)) = SND t"
  "EarlyQ (fst (finish_data ns key t)) = EarlyQ t"
  by (simp_all add: finish_data_def)

definition snd_ready :: "TCB \<Rightarrow> bool" where
  \<comment> \<open>what the sending side needs so that no acknowledgement makes a handler panic\<close>
  "snd_ready tcb \<longleftrightarrow> length (SND_Buffer (SND tcb)) = 65535
     \<and> (\<forall>seg \<in> set (RetransmissionQueue tcb). unat (PayloadLen seg) \<le> 65535)
     \<and> (CControlEnabled tcb \<longrightarrow> cc_ok tcb)"

definition conforming :: "(nat \<Rightarrow> byte) \<Rightarrow> TCB \<Rightarrow> u32 \<Rightarrow> byte list \<Rightarrow> bool" where
  \<comment> \<open>a segment of the peer's stream that respects the advertised window, away from the wrap-around\<close>
  "conforming str tcb sq payload \<longleftrightarrow> from_stream str sq payload \<and> payload \<noteq> []
     \<and> unat sq + length payload \<le> unat (RCV_NXT (RCV tcb)) + unat (RCV_WND (RCV tcb))
     \<and> unat (RCV_NXT (RCV tcb)) + unat (RCV_WND (RCV tcb)) < 2 ^ 32"

lemma conforming_loop:
  assumes "rcv_fits (RCV tcb)" and "conforming str tcb sq payload" and "RCV_NXT (RCV tcb) \<le> sq"
  shows "receive_loop early payload (of_nat (length payload)) (RCV tcb) sq 0 =
    Some (Inr (let buf = ring_store (RCV_Buffer (RCV tcb)) (unat sq) payload; n = of_nat (length payload)
      in if early then (RCV tcb)\<lparr>RCV_Buffer := buf\<rparr>
         else (RCV tcb)\<lparr>RCV_Buffer := buf, RCV_NXT := RCV_NXT (RCV tcb) + n, RCV_WND := RCV_WND (RCV tcb) - n\<rparr>))"
  using assms by (intro receive_loop_fits) (auto simp: rcv_fits_def conforming_def u32_le_nat)

lemma conforming_in_window:
  assumes "conforming str tcb sq payload"
  shows "sq < RCV_NXT (RCV tcb) + RCV_WND (RCV tcb)"
proof -
  have "0 < length payload" using assms by (simp add: conforming_def)
  then show ?thesis
    using assms by (simp add: conforming_def u32_less_nat unat_add_u32 del: length_greater_0_conv)
qed

lemma receive_data_old:
  "sq < RCV_NXT (RCV tcb) \<Longrightarrow>
    receive_data ns key sq payload tcb = Inr (tcb, [IPSend (ack_message ns key tcb (RCV_NXT (RCV tcb)))])"
  by (simp add: receive_data_def)

lemma receive_data_early:
  assumes "rcv_agrees str tcb" and "conforming str tcb sq payload" and "RCV_NXT (RCV tcb) < sq"
  defines "tcb' \<equiv> tcb\<lparr>RCV := (RCV tcb)\<lparr>RCV_Buffer := ring_store (RCV_Buffer (RCV tcb)) (unat sq) payload\<rparr>,
      EarlyQ := Push \<lparr>SequenceNum = sq, EntryLen = of_nat (length payload)\<rparr> (EarlyQ tcb)\<rparr>"
  shows "receive_data ns key sq payload tcb = Inr (finish_data ns key tcb') \<and> rcv_agrees str tcb'"
proof
  have ok: "rcv_fits (RCV tcb)" using assms(1) by (simp add: rcv_agrees_def)
  note loop = conforming_loop [OF ok assms(2) less_imp_le [OF assms(3)]]
  show "receive_data ns key sq payload tcb = Inr (finish_data ns key tcb')"
    using assms(3) conforming_in_window [OF assms(2)]
    by (auto simp: receive_data_def loop Let_def tcb'_def finish_data_def ack_message_def)
  let ?e = "\<lparr>SequenceNum = sq, EntryLen = of_nat (length payload)\<rparr> :: EarlyArrivalEntry"
  let ?t = "tcb\<lparr>RCV := (RCV tcb)\<lparr>RCV_Buffer := ring_store (RCV_Buffer (RCV tcb)) (unat sq) payload\<rparr>\<rparr>"
  have c: "from_stream str sq payload"
    "unat sq + length payload \<le> unat (RCV_NXT (RCV tcb)) + unat (RCV_WND (RCV tcb))"
    "unat sq + length payload < 2 ^ 32"
    using assms(2) by (auto simp: conforming_def)
  note st = agrees_store [OF assms(1) c(1) less_imp_le [OF assms(3)] c(2)]
  have "entry_end ?e = unat sq + length payload"
    using c(3) by (simp add: entry_end_def unat_of_nat_u32)
  then have "entry_agrees str (RCV ?t) ?e"
    using c st(2) by (auto simp: entry_agrees_def)
  then show "rcv_agrees str tcb'"
    using st(1) eaq.all_push [of "EarlyQ tcb" "entry_agrees str (RCV ?t)" ?e]
    by (simp add: rcv_agrees_def tcb'_def)
qed

lemma receive_data_in_order:
  assumes "rcv_agrees str tcb" and "conforming str tcb (RCV_NXT (RCV tcb)) payload"
  obtains tcb' n where "receive_data ns key (RCV_NXT (RCV tcb)) payload tcb = Inr (finish_data ns key tcb')"
    and "rcv_agrees str tcb'" and "RCV_NXT (RCV tcb') = snd (drain (EarlyQ tcb) n)"
    and "EarlyQ tcb' = fst (drain (EarlyQ tcb) n)" and "unat n = unat (RCV_NXT (RCV tcb)) + length payload"
    and "n \<le> RCV_NXT (RCV tcb')" and "RCV_LBR (RCV tcb') = RCV_LBR (RCV tcb)" and "SND tcb' = SND tcb"
    and "State tcb' = State tcb" and "PendingReceivedFin tcb' = PendingReceivedFin tcb"
    and "snd_ready tcb' = snd_ready tcb"
    and "unat (RCV_NXT (RCV tcb')) + unat (RCV_WND (RCV tcb')) = unat (RCV_NXT (RCV tcb)) + unat (RCV_WND (RCV tcb))"
proof -
  let ?r = "RCV tcb" and ?sq = "RCV_NXT (RCV tcb)" and ?len = "of_nat (length payload) :: u32"
  let ?buf = "ring_store (RCV_Buffer ?r) (unat ?sq) payload"
  let ?t = "tcb\<lparr>RCV := ?r\<lparr>RCV_Buffer := ?buf\<rparr>\<rparr>" and ?n = "?sq + ?len"
  let ?q = "fst (drain (EarlyQ tcb) ?n)" and ?m = "snd (drain (EarlyQ tcb) ?n)"
  let ?t' = "?t\<lparr>RCV := (RCV ?t)\<lparr>RCV_NXT := ?m, RCV_WND := RCV_WND ?r - (?m - ?sq)\<rparr>, EarlyQ := ?q\<rparr>"
  have ok: "rcv_fits ?r" using assms(1) by (simp add: rcv_agrees_def)
  have c: "from_stream str ?sq payload"
    "unat ?sq + length payload \<le> unat ?sq + unat (RCV_WND ?r)" "unat ?sq + length payload < 2 ^ 32"
    using assms(2) by (auto simp: conforming_def)
  have n: "unat ?n = unat ?sq + length payload" using c(3) by (simp add: unat_add_u32 unat_of_nat_u32)
  note st = agrees_store [OF assms(1) c(1) order_refl c(2)]
  define P where "P m \<longleftrightarrow> ?n \<le> m \<and> unat m \<le> unat ?sq + unat (RCV_WND ?r)
    \<and> (\<forall>p. unat ?sq \<le> p \<and> p < unat m \<longrightarrow> ring_at ?buf p = str p)" for m
  have "P ?m"
  proof (rule eaq.drain_walk_all [where Q = "entry_agrees str (RCV ?t)"])
    show "\<forall>e \<in> set (EarlyArrivals (EarlyQ tcb)). entry_agrees str (RCV ?t) e"
      using st(1) by (simp add: rcv_agrees_def)
    show "P ?n" using c(2) n st(2) by (simp add: P_def)
    show "P (SequenceNum e + EntryLen e)" if "entry_agrees str (RCV ?t) e" "P (SequenceNum e)" for e
    proof -
      have "unat ?sq \<le> unat (SequenceNum e)" using that(2) n by (simp add: P_def u32_le_nat)
      with that(1) have "entry_end e < 2 ^ 32" "entry_end e \<le> unat ?sq + unat (RCV_WND ?r)"
        "\<forall>p. unat (SequenceNum e) \<le> p \<and> p < entry_end e \<longrightarrow> ring_at ?buf p = str p"
        by (simp_all add: entry_agrees_def)
      then show ?thesis
        using that(2) by (auto simp: P_def u32_le_nat unat_entry_end not_le [symmetric]) (simp add: entry_end_def)
    qed
  qed
  then have m: "?n \<le> ?m" "unat ?m \<le> unat ?sq + unat (RCV_WND ?r)"
      "\<And>p. unat ?sq \<le> p \<Longrightarrow> p < unat ?m \<Longrightarrow> ring_at ?buf p = str p"
    by (auto simp: P_def)
  have "?sq \<le> ?m" using m(1) n by (simp add: u32_le_nat)
  then have "rcv_agrees str ?t'" "unat ?m + unat (RCV_WND ?r - (?m - ?sq)) = unat ?sq + unat (RCV_WND ?r)"
    using m agrees_advance [OF st(1), of ?m ?q "RCV_WND ?r - (?m - ?sq)"] eaq.entries_drain [of "EarlyQ tcb" ?n] by auto
  moreover have "receive_data ns key ?sq payload tcb = Inr (finish_data ns key ?t')"
    using conforming_in_window [OF assms(2)]
    by (simp add: receive_data_def conforming_loop [OF ok assms(2) order_refl] Let_def
        updateAckNum_drain finish_data_def ack_message_def not_le diff_diff_eq)
  ultimately show ?thesis using m(1) n by (intro that [of ?t' ?n]) (simp_all add: snd_ready_def cc_ok_def)
qed

section \<open>One acknowledgement\<close>

definition same_receiver :: "TCB \<Rightarrow> TCB \<Rightarrow> bool" where
  \<comment> \<open>the fields an acknowledgement does not touch\<close>
  "same_receiver t t' \<longleftrightarrow> RCV t' = RCV t \<and> EarlyQ t' = EarlyQ t \<and> State t' = State t
     \<and> PendingReceivedFin t' = PendingReceivedFin t \<and> CControlEnabled t' = CControlEnabled t
     \<and> SND_Buffer (SND t') = SND_Buffer (SND t) \<and> SND_NXT (SND t') = SND_NXT (SND t)
     \<and> SND_LBW (SND t') = SND_LBW (SND t) \<and> SND_ISS (SND t') = SND_ISS (SND t)"

lemma same_receiver_agrees: "same_receiver t t' \<Longrightarrow> rcv_agrees str t' = rcv_agrees str t"
  by (simp add: same_receiver_def rcv_agrees_def)

lemma updateTimeout_frame:
  assumes "updateTimeout now t a = (t', fx)"
  shows "same_receiver t t' \<and> SND t' = SND t \<and> RetransmissionQueue t' = RetransmissionQueue t
    \<and> RetransmitCounter t' = RetransmitCounter t \<and> CWND t' = CWND t \<and> SSTHRESH t' = SSTHRESH t
    \<and> CurrentAck t' = CurrentAck t \<and> CurrentAckFreq t' = CurrentAckFreq t \<and> (fx = [] \<or> fx = [NotifyRTO])"
  using assms by (auto simp: updateTimeout_def same_receiver_def Let_def split: option.splits)

lemma fastRetransmit_frame:
  assumes "snd_ready t" and "RetransmissionQueue t = seg # rest"
  obtains t' where "fastRetransmit ns now key t = Inr (t', [IPSend (queued_message ns key t seg), NotifyRTO])"
    and "same_receiver t t'" and "SND t' = SND t" and "RetransmissionQueue t' = RetransmissionQueue t"
    and "CWND t' = 1360" and "SSTHRESH t' = CWND t div 2" and "CurrentAckFreq t' = 0" and "RTO t' = i64 (RTO t * 2)"
    and "snd_ready t'"
proof -
  let ?t0 = "(AfterLoss t)\<lparr>CurrentAckFreq := 0\<rparr>"
  let ?t' = "?t0\<lparr>SegmentToTimestamp := (SegmentToTimestamp ?t0)
       (SequenceToBufferInd (SeqNum (TCPHeader seg)) + PayloadLen seg \<mapsto> now), RTO := i64 (RTO ?t0 * 2)\<rparr>"
  have "retransmit_first ns now key ?t0 = Inr (?t', queued_message ns key ?t0 seg)"
    using assms by (intro retransmit_first_Cons) (auto simp: snd_ready_def)
  then have "fastRetransmit ns now key t = Inr (?t', [IPSend (queued_message ns key t seg), NotifyRTO])"
    by (simp add: fastRetransmit_def queued_message_def)
  then show ?thesis
    by (rule that) (use assms(1) AfterLoss_cc_ok [of t] in
        \<open>simp_all add: same_receiver_def snd_ready_def cc_ok_def AfterLoss_def INIT_CWND_def MSS_DATA_def\<close>)
qed

definition dup_ack :: "TCPFields \<Rightarrow> TCB \<Rightarrow> bool" where
  "dup_ack h tcb \<longleftrightarrow> CControlEnabled tcb \<and> AckNum h = CurrentAck tcb"

definition third_dup :: "TCPFields \<Rightarrow> TCB \<Rightarrow> bool" where
  "third_dup h tcb \<longleftrightarrow> dup_ack h tcb \<and> CurrentAckFreq tcb = 3 \<and> RetransmissionQueue tcb \<noteq> []"

lemma receive_ack_third_dup:
  "third_dup h tcb \<Longrightarrow> receive_ack ns now key h tcb = fastRetransmit ns now key (tcb\<lparr>CurrentAckFreq := 0\<rparr>)"
  by (simp add: receive_ack_def third_dup_def dup_ack_def Let_def)

lemma receive_ack_rejected:
  assumes "\<not> third_dup h tcb" and "ack_rejected h (SND tcb)"
  shows "receive_ack ns now key h tcb =
    Inr (if dup_ack h tcb then tcb\<lparr>CurrentAckFreq := CurrentAckFreq tcb + 1\<rparr> else tcb, [])"
  using assms by (auto simp: receive_ack_def third_dup_def dup_ack_def Let_def)

lemma receive_ack_accepted:
  assumes "\<not> third_dup h tcb" and "\<not> ack_rejected h (SND tcb)" and "snd_ready tcb"
  obtains tcb' fx where "receive_ack ns now key h tcb = Inr (tcb', fx)" and "same_receiver tcb tcb'"
    and "SND_UNA (SND tcb') = AckNum h" and "SND_WND (SND tcb') = ucast (WindowSize h)"
    and "RetransmissionQueue tcb' = dropWhile (\<lambda>s. SeqNum (TCPHeader s) < AckNum h) (RetransmissionQueue tcb)"
    and "BroadcastWrite \<in> set fx" and "ip_sends fx = []" and "WindowSize h > 0 \<Longrightarrow> SignalZero \<in> set fx"
    and "snd_ready tcb'"
proof -
  define t1 where "t1 = (if dup_ack h tcb then tcb\<lparr>CurrentAckFreq := CurrentAckFreq tcb + 1\<rparr> else tcb)"
  have t1: "same_receiver tcb t1" "SND t1 = SND tcb" "RetransmissionQueue t1 = RetransmissionQueue tcb"
    "cc_ok t1 = cc_ok tcb" "CControlEnabled t1 = CControlEnabled tcb"
    by (simp_all add: t1_def same_receiver_def cc_ok_def)
  let ?t2 = "removeFromRetransmissionQueue t1 (AckNum h)"
  have cc: "CControlEnabled ?t2 \<Longrightarrow> cc_ok ?t2"
    using assms(3) t1 by (simp add: snd_ready_def cc_ok_def)
  obtain t3 where t3: "(if CControlEnabled ?t2
       then gbind (UpdateCWNDWindow ?t2) (\<lambda>t. Inr (t\<lparr>CurrentAck := AckNum h, CurrentAckFreq := 1\<rparr>))
       else Inr ?t2) = Inr t3" "same_receiver tcb t3" "SND t3 = SND tcb"
       "RetransmissionQueue t3 = RetransmissionQueue ?t2" "CControlEnabled t3 \<longrightarrow> cc_ok t3"
  proof (cases "CControlEnabled ?t2")
    case True
    then obtain w where "UpdateCWNDWindow ?t2 = Inr (?t2\<lparr>CWND := w\<rparr>)" "cc_ok (?t2\<lparr>CWND := w\<rparr>)"
      using UpdateCWNDWindow_cc_ok [OF cc [OF True]] by blast
    then show ?thesis
      using True by (intro that [of "?t2\<lparr>CWND := w, CurrentAck := AckNum h, CurrentAckFreq := 1\<rparr>"])
        (use t1 in \<open>simp_all add: same_receiver_def cc_ok_def\<close>)
  next
    case False
    then show ?thesis by (intro that [of ?t2]) (use t1 in \<open>simp_all add: same_receiver_def\<close>)
  qed
  let ?t4 = "t3\<lparr>SND := (SND t3)\<lparr>SND_WND := ucast (WindowSize h), SND_UNA := AckNum h\<rparr>\<rparr>"
  obtain t5 fx where t5: "updateTimeout now ?t4 (AckNum h) = (t5, fx)" by fastforce
  have "receive_ack ns now key h tcb
      = Inr (t5, [BroadcastWrite] @ (if WindowSize h > 0 then [SignalZero] else []) @ fx)"
    using assms(1,2) t3(1) t5 t1(2)
    by (auto simp: receive_ack_def third_dup_def dup_ack_def Let_def t1_def [symmetric, unfolded dup_ack_def])
  then show ?thesis
    by (rule that) (use updateTimeout_frame [OF t5] t1 t3 assms(3) in
        \<open>auto simp: same_receiver_def snd_ready_def cc_ok_def dest: set_dropWhileD\<close>)
qed

lemma receive_ack_total:
  assumes "snd_ready tcb"
  obtains tcb' fx where "receive_ack ns now key h tcb = Inr (tcb', fx)" and "same_receiver tcb tcb'" and "snd_ready tcb'"
proof -
  consider "third_dup h tcb" | "\<not> third_dup h tcb" "ack_rejected h (SND tcb)"
    | "\<not> third_dup h tcb" "\<not> ack_rejected h (SND tcb)" by blast
  then show ?thesis
  proof cases
    case 1
    let ?t = "tcb\<lparr>CurrentAckFreq := 0\<rparr>"
    obtain seg rest where "RetransmissionQueue ?t = seg # rest"
      using 1 by (auto simp: third_dup_def neq_Nil_conv)
    moreover have "snd_ready ?t" using assms by (simp add: snd_ready_def cc_ok_def)
    ultimately obtain t' fx where "fastRetransmit ns now key ?t = Inr (t', fx)" "same_receiver ?t t'" "snd_ready t'"
      using fastRetransmit_frame by metis
    then show ?thesis using that receive_ack_third_dup [OF 1] by (simp add: same_receiver_def)
  next
    case 2
    show ?thesis
      by (rule that [OF receive_ack_rejected [OF 2]])
        (use assms in \<open>simp_all add: same_receiver_def snd_ready_def cc_ok_def\<close>)
  next
    case 3
    from receive_ack_accepted [OF 3 assms] show ?thesis using that by metis
  qed
qed

lemma finish_data_snd_ready: "snd_ready (fst (finish_data ns key t)) = snd_ready t"
  by (simp add: finish_data_def snd_ready_def cc_ok_def)

lemma Receive_compose:
  assumes "has_flag h (TCPFlagAck ns)" and "payload \<noteq> []"
    and "receive_data ns key (SeqNum h) payload tcb = Inr (t1, fx1)" and "snd_ready t1"
  obtains tcb' fx where "Receive ns now h payload key tcb = Inr (tcb', fx1 @ fx)" and "same_receiver t1 tcb'"
    and "snd_ready tcb'"
proof -
  obtain t2 fx2 where "receive_ack ns now key h t1 = Inr (t2, fx2)" "same_receiver t1 t2" "snd_ready t2"
    using receive_ack_total [OF assms(4)] by metis
  then show ?thesis using that assms by (simp add: Receive_def)
qed

lemma receive_data_agrees:
  assumes "rcv_agrees str tcb" and "conforming str tcb sq payload" and "snd_ready tcb"
  obtains t fx where "receive_data ns key sq payload tcb = Inr (t, fx)" and "rcv_agrees str t" and "snd_ready t"
    and "RCV_LBR (RCV t) = RCV_LBR (RCV tcb)" and "RCV_NXT (RCV tcb) \<le> RCV_NXT (RCV t)"
    and "sq = RCV_NXT (RCV tcb) \<Longrightarrow> unat sq + length payload \<le> unat (RCV_NXT (RCV t))"
    and "unat (RCV_NXT (RCV t)) + unat (RCV_WND (RCV t)) = unat (RCV_NXT (RCV tcb)) + unat (RCV_WND (RCV tcb))"
proof -
  consider "sq < RCV_NXT (RCV tcb)" | "RCV_NXT (RCV tcb) < sq" | "sq = RCV_NXT (RCV tcb)" by fastforce
  then show ?thesis
  proof cases
    case 1
    then show ?thesis using that [OF receive_data_old] assms by auto
  next
    case 2
    let ?t = "tcb\<lparr>RCV := (RCV tcb)\<lparr>RCV_Buffer := ring_store (RCV_Buffer (RCV tcb)) (unat sq) payload\<rparr>,
      EarlyQ := Push \<lparr>SequenceNum = sq, EntryLen = of_nat (length payload)\<rparr> (EarlyQ tcb)\<rparr>"
    have "snd_ready ?t" using assms(3) by (simp add: snd_ready_def cc_ok_def)
    then show ?thesis
      using that [of "fst (finish_data ns key ?t)" "snd (finish_data ns key ?t)"]
        receive_data_early [OF assms(1,2) 2, of ns key] 2
      by (simp add: finish_data_snd_ready)
  next
    case 3
    obtain t n where t: "receive_data ns key sq payload tcb = Inr (finish_data ns key t)"
      "rcv_agrees str t" "unat n = unat sq + length payload" "n \<le> RCV_NXT (RCV t)"
      "RCV_LBR (RCV t) = RCV_LBR (RCV tcb)" "snd_ready t"
      "unat (RCV_NXT (RCV t)) + unat (RCV_WND (RCV t)) = unat (RCV_NXT (RCV tcb)) + unat (RCV_WND (RCV tcb))"
      using receive_data_in_order [OF assms(1), of payload ns key] assms(2,3) 3 by metis
    then show ?thesis
      using that [of "fst (finish_data ns key t)" "snd (finish_data ns key t)"] 3
      by (simp add: finish_data_snd_ready u32_le_nat)
  qed
qed

lemma Receive_stream_step:
  assumes "has_flag h (TCPFlagAck ns)" and "rcv_agrees str tcb" and "snd_ready tcb"
    and "conforming str tcb (SeqNum h) payload"
  obtains tcb' fx where "Receive ns now h payload key tcb = Inr (tcb', fx)" and "rcv_agrees str tcb'"
    and "snd_ready tcb'" and "RCV_LBR (RCV tcb') = RCV_LBR (RCV tcb)" and "RCV_NXT (RCV tcb) \<le> RCV_NXT (RCV tcb')"
    and "SeqNum h = RCV_NXT (RCV tcb) \<Longrightarrow> unat (SeqNum h) + length payload \<le> unat (RCV_NXT (RCV tcb'))"
    and "unat (RCV_NXT (RCV tcb')) + unat (RCV_WND (RCV tcb')) = unat (RCV_NXT (RCV tcb)) + unat (RCV_WND (RCV tcb))"
proof -
  obtain t fx where t: "receive_data ns key (SeqNum h) payload tcb = Inr (t, fx)" "rcv_agrees str t"
    "snd_ready t" "RCV_LBR (RCV t) = RCV_LBR (RCV tcb)" "RCV_NXT (RCV tcb) \<le> RCV_NXT (RCV t)"
    "SeqNum h = RCV_NXT (RCV tcb) \<Longrightarrow> unat (SeqNum h) + length payload \<le> unat (RCV_NXT (RCV t))"
    "unat (RCV_NXT (RCV t)) + unat (RCV_WND (RCV t)) = unat (RCV_NXT (RCV tcb)) + unat (RCV_WND (RCV tcb))"
    using receive_data_agrees [OF assms(2,4,3)] by metis
  have "payload \<noteq> []" using assms(4) by (simp add: conforming_def)
  then obtain t' fx' where t': "Receive ns now h payload key tcb = Inr (t', fx @ fx')" "same_receiver t t'" "snd_ready t'"
    using Receive_compose [OF assms(1) _ t(1,3)] by metis
  then have r: "RCV t' = RCV t" and a: "rcv_agrees str t'"
    using t(2) by (simp_all add: same_receiver_agrees) (simp add: same_receiver_def)
  show ?thesis using t'(1) a t'(3) by (rule that) (use r t in simp_all)
qed

section \<open>Properties\<close>

text \<open>
  C14. A data segment of the peer's stream that ends within the advertised window \<open>NXT + WND\<close>, be it
  in order, early, late or a repetition, makes \<open>Receive\<close> return, and what the application can then read is
  a contiguous piece of that stream starting at the next unread byte. The acknowledged prefix never
  shrinks, an in-order segment is added to it whole, and the right edge of the window stays where it is,
  so that the next segment of a peer that respects the window satisfies the hypothesis again.
\<close>

theorem Receive_follows_stream:
  assumes "has_flag h (TCPFlagAck ns)" and "rcv_agrees str tcb" and "snd_ready tcb"
    and "conforming str tcb (SeqNum h) payload"
  shows "\<exists>tcb' fx. Receive ns now h payload key tcb = Inr (tcb', fx) \<and> rcv_agrees str tcb'
    \<and> unread (RCV tcb') = map str [unat (RCV_LBR (RCV tcb))..<unat (RCV_NXT (RCV tcb'))]
    \<and> RCV_NXT (RCV tcb) \<le> RCV_NXT (RCV tcb')
    \<and> (SeqNum h = RCV_NXT (RCV tcb) \<longrightarrow>
         unat (RCV_NXT (RCV tcb)) + length payload \<le> unat (RCV_NXT (RCV tcb')))
    \<and> unat (RCV_NXT (RCV tcb')) + unat (RCV_WND (RCV tcb')) = unat (RCV_NXT (RCV tcb)) + unat (RCV_WND (RCV tcb))"
proof -
  obtain t' fx where t': "Receive ns now h payload key tcb = Inr (t', fx)" "rcv_agrees str t'"
    "RCV_LBR (RCV t') = RCV_LBR (RCV tcb)" "RCV_NXT (RCV tcb) \<le> RCV_NXT (RCV t')"
    "SeqNum h = RCV_NXT (RCV tcb) \<Longrightarrow> unat (SeqNum h) + length payload \<le> unat (RCV_NXT (RCV t'))"
    "unat (RCV_NXT (RCV t')) + unat (RCV_WND (RCV t')) = unat (RCV_NXT (RCV tcb)) + unat (RCV_WND (RCV tcb))"
    using Receive_stream_step [OF assms] by metis
  then show ?thesis using unread_stream [OF t'(2)] by auto
qed

lemma sample_conn_agrees: "rcv_agrees str sample_conn" "snd_ready sample_conn"
  by (auto simp: rcv_agrees_def rcv_fits_def snd_ready_def)

lemma sample_conforming: "conforming (\<lambda>p. of_nat p) sample_conn 501 [245, 246, 247]"
  by (simp add: conforming_def from_stream_def upt_rec)

theorem Receive_follows_stream_witness:
  "\<exists>tcb' fx. Receive rfc793 0 (sample_header 501 1001 16 100) [245, 246, 247] zero_SocketData sample_conn = Inr (tcb', fx)
     \<and> unread (RCV tcb') = map (\<lambda>p. of_nat p) [501..<unat (RCV_NXT (RCV tcb'))] \<and> 504 \<le> unat (RCV_NXT (RCV tcb'))"
  using Receive_follows_stream [OF _ sample_conn_agrees, of "sample_header 501 1001 16 100" rfc793
      "\<lambda>p. of_nat p" "[245, 246, 247]" 0 zero_SocketData] sample_conforming
  by auto

text \<open>
  C34. A data segment that starts inside the advertised window and reaches beyond its end makes
  \<open>Receive\<close> spin for ever, with the lock of the connection held: the loop copies what fits and
  then makes no progress.
\<close>

theorem Receive_over_window_hangs:
  assumes "has_flag h (TCPFlagAck ns)" and "rcv_ok (RCV tcb)" and "length payload < 2 ^ 32"
    and "unat (RCV_NXT (RCV tcb)) + unat (RCV_WND (RCV tcb)) < 2 ^ 32"
    and "RCV_NXT (RCV tcb) \<le> SeqNum h" and "SeqNum h < RCV_NXT (RCV tcb) + RCV_WND (RCV tcb)"
    and "unat (RCV_NXT (RCV tcb)) + unat (RCV_WND (RCV tcb)) < unat (SeqNum h) + length payload"
  shows "Receive ns now h payload key tcb = Inl Hang"
proof -
  let ?r = "RCV tcb" and ?n = "of_nat (length payload) :: u32"
  have sum: "unat (RCV_NXT ?r) + unat (RCV_WND ?r) = unat (RCV_LBR ?r) + 65535" "unat (RCV_LBR ?r) \<le> unat (RCV_NXT ?r)"
    using assms(2) by (auto simp: rcv_ok_def u32_le_nat)
  have sq: "unat (SeqNum h) < unat (RCV_LBR ?r) + 65535" "unat (RCV_NXT ?r) \<le> unat (SeqNum h)"
    using assms(4,5,6) sum by (simp_all add: u32_less_nat u32_le_nat unat_add_u32)
  have n: "unat ?n = length payload" using assms(3) by (simp add: unat_of_nat_u32)
  have "overfull payload ?n ?r (SeqNum h) 0"
    using assms sum sq n by (auto simp: overfull_def rcv_ok_def u32_le_nat)
  from receive_loop_overfull [OF this] have loop: "receive_loop early payload ?n ?r (SeqNum h) 0 = None" for early .
  have "payload \<noteq> []" using assms(7) sq sum by auto
  moreover have "receive_data ns key (SeqNum h) payload tcb = Inl Hang"
    using assms(5,6) loop by (auto simp: receive_data_def Let_def not_le dest: order_antisym)
  ultimately show ?thesis using assms(1) by (simp add: Receive_def)
qed

theorem Receive_over_window_hangs_witness:
  "Receive rfc793 0 (sample_header 501 1001 16 100) (replicate 65536 7) zero_SocketData sample_conn = Inl Hang"
  by (rule Receive_over_window_hangs) (simp_all add: rcv_ok_def u32_less_nat)

text \<open>
  A new acknowledgement of sent data, inside the window the peer advertised, slides the send
  window: the acknowledged bytes leave the front of the unacknowledged data, the segments that
  start below the acknowledgement number leave the retransmission queue, the advertised window is
  taken over and blocked writers are woken. The send window stays well formed.
\<close>

lemma Receive_ack_slides_window:
  assumes "has_flag h (TCPFlagAck ns)" and "snd_ok (SND tcb)" and "snd_ready tcb" and "\<not> third_dup h tcb"
    and "SND_UNA (SND tcb) < AckNum h" and "AckNum h \<le> SND_NXT (SND tcb)"
    and "SND_WND (SND tcb) = 0 \<or> AckNum h \<le> SND_UNA (SND tcb) + SND_WND (SND tcb)"
  shows "\<exists>tcb' fx. Receive ns now h [] key tcb = Inr (tcb', fx) \<and> snd_ok (SND tcb')
    \<and> SND_UNA (SND tcb') = AckNum h \<and> SND_WND (SND tcb') = ucast (WindowSize h)
    \<and> unacked (SND tcb') = drop (unat (AckNum h) - unat (SND_UNA (SND tcb))) (unacked (SND tcb))
    \<and> RetransmissionQueue tcb' = dropWhile (\<lambda>s. SeqNum (TCPHeader s) < AckNum h) (RetransmissionQueue tcb)
    \<and> BroadcastWrite \<in> set fx \<and> RCV tcb' = RCV tcb \<and> State tcb' = State tcb"
proof -
  have "\<not> ack_rejected h (SND tcb)" using assms(5,6,7) by (auto simp: ack_rejected_def)
  then obtain t fx where t: "receive_ack ns now key h tcb = Inr (t, fx)" "same_receiver tcb t"
    "SND_UNA (SND t) = AckNum h" "SND_WND (SND t) = ucast (WindowSize h)"
    "RetransmissionQueue t = dropWhile (\<lambda>s. SeqNum (TCPHeader s) < AckNum h) (RetransmissionQueue tcb)"
    "BroadcastWrite \<in> set fx"
    using receive_ack_accepted [OF assms(4) _ assms(3)] by metis
  have le: "unat (SND_UNA (SND tcb)) < unat (AckNum h)" "unat (AckNum h) \<le> unat (SND_NXT (SND tcb))"
    "unat (SND_NXT (SND tcb)) \<le> unat (SND_LBW (SND tcb))"
    using assms(2,5,6) by (auto simp: snd_ok_def u32_le_nat u32_less_nat)
  have "snd_ok (SND t)"
    using assms(2) t(2,3) le by (auto simp: snd_ok_def same_receiver_def u32_le_nat)
  moreover have "unacked (SND t) = drop (unat (AckNum h) - unat (SND_UNA (SND tcb))) (unacked (SND tcb))"
    using t(2,3) le by (intro nth_equalityI) (auto simp: unacked_def same_receiver_def)
  moreover have "Receive ns now h [] key tcb = Inr (t, fx)" using assms(1) t(1) by (simp add: Receive_def)
  ultimately show ?thesis using t by (auto simp: same_receiver_def)
qed

text \<open>
  C40. An acknowledgement of bytes that were never sent is accepted when it carries a nonzero window
  and lies within the advertised one: \<open>SND.UNA\<close> then passes \<open>SND.NXT\<close>, and the send window is no longer
  well formed.
\<close>

theorem Receive_accepts_unsent_ack:
  assumes "has_flag h (TCPFlagAck ns)" and "snd_ok (SND tcb)" and "snd_ready tcb" and "\<not> third_dup h tcb"
    and "SND_NXT (SND tcb) < AckNum h" and "AckNum h \<le> SND_UNA (SND tcb) + SND_WND (SND tcb)"
    and "0 < WindowSize h"
  shows "\<exists>tcb' fx. Receive ns now h [] key tcb = Inr (tcb', fx)
    \<and> SND_NXT (SND tcb') < SND_UNA (SND tcb') \<and> \<not> snd_ok (SND tcb')"
proof -
  have "SND_UNA (SND tcb) < AckNum h" using assms(2,5) by (auto simp: snd_ok_def)
  then have "\<not> ack_rejected h (SND tcb)" using assms(6,7) by (auto simp: ack_rejected_def)
  then obtain t fx where "receive_ack ns now key h tcb = Inr (t, fx)" "same_receiver tcb t"
    "SND_UNA (SND t) = AckNum h"
    using receive_ack_accepted [OF assms(4) _ assms(3)] by metis
  then show ?thesis using assms(1,5) by (auto simp: Receive_def same_receiver_def snd_ok_def)
qed

theorem Receive_accepts_unsent_ack_witness:
  "\<exists>tcb' fx. Receive rfc793 0 (sample_header 501 1500 16 100) [] zero_SocketData sample_conn = Inr (tcb', fx)
     \<and> SND_NXT (SND tcb') < SND_UNA (SND tcb') \<and> \<not> snd_ok (SND tcb')"
  by (rule Receive_accepts_unsent_ack)
    (simp_all add: sample_conn_agrees third_dup_def snd_ok_def)

text \<open>
  With congestion control on, the acknowledgement that repeats the current number when it has
  been counted three times retransmits the first unacknowledged segment with the bytes the
  send buffer holds for it, restarts from a window of one segment with half the old window as the
  threshold, doubles the timeout, and moves neither window pointer.
\<close>

lemma Receive_third_duplicate:
  assumes "has_flag h (TCPFlagAck ns)" and "snd_ready tcb"
    and "CControlEnabled tcb" and "AckNum h = CurrentAck tcb" and "CurrentAckFreq tcb = 3"
    and "RetransmissionQueue tcb = seg # rest"
  shows "\<exists>tcb'. Receive ns now h [] key tcb = Inr (tcb', [IPSend (queued_message ns key tcb seg), NotifyRTO])
    \<and> SND tcb' = SND tcb \<and> RCV tcb' = RCV tcb \<and> RetransmissionQueue tcb' = RetransmissionQueue tcb
    \<and> CWND tcb' = MSS_DATA \<and> SSTHRESH tcb' = CWND tcb div 2 \<and> CurrentAckFreq tcb' = 0
    \<and> RTO tcb' = i64 (RTO tcb * 2)"
proof -
  let ?t = "tcb\<lparr>CurrentAckFreq := 0\<rparr>"
  have "snd_ready ?t" using assms(2) by (simp add: snd_ready_def cc_ok_def)
  then obtain t' where "fastRetransmit ns now key ?t = Inr (t', [IPSend (queued_message ns key ?t seg), NotifyRTO])"
    "same_receiver ?t t'" "SND t' = SND ?t" "RetransmissionQueue t' = RetransmissionQueue ?t"
    "CWND t' = 1360" "SSTHRESH t' = CWND ?t div 2" "CurrentAckFreq t' = 0" "RTO t' = i64 (RTO ?t * 2)"
    using fastRetransmit_frame [of ?t seg rest ns now key] assms(6) by auto
  moreover have "third_dup h tcb" using assms by (simp add: third_dup_def dup_ack_def)
  ultimately show ?thesis
    using assms(1) by (simp add: Receive_def receive_ack_third_dup same_receiver_def queued_message_def MSS_DATA_def)
qed

text \<open>
  C31. A FIN that overtakes data is not lost: \<open>ReceiveFin\<close> remembers its sequence number and leaves the
  connection state alone, and when the missing data arrives and fills the gap exactly, \<open>Receive\<close>
  enters CLOSE_WAIT and acknowledges the FIN, with all of the data readable.
\<close>

theorem early_fin_completes:
  assumes "has_flag h (TCPFlagAck ns)" and "rcv_agrees str tcb" and "snd_ready tcb"
    and "conforming str tcb (RCV_NXT (RCV tcb)) payload" and "SeqNum h = RCV_NXT (RCV tcb)"
    and "EarlyArrivals (EarlyQ tcb) = []"
    and "SeqNum fin = RCV_NXT (RCV tcb) + of_nat (length payload)"
  shows "\<exists>tcb1 fx1 tcb2 fx2. ReceiveFin ns fin key tcb = (tcb1, fx1)
    \<and> State tcb1 = State tcb \<and> fx1 = [IPSend (ack_message ns key tcb (RCV_NXT (RCV tcb)))]
    \<and> Receive ns now h payload key tcb1 = Inr (tcb2, fx2) \<and> State tcb2 = CLOSE_WAIT
    \<and> hd (ip_sends fx2) = ack_message ns key tcb2 (SeqNum fin + 1)
    \<and> unread (RCV tcb2) = unread (RCV tcb) @ payload"
proof -
  let ?t1 = "tcb\<lparr>PendingReceivedFin := SeqNum fin\<rparr>"
  have len: "0 < length payload" "unat (RCV_NXT (RCV tcb)) + length payload < 2 ^ 32"
    using assms(4) by (auto simp: conforming_def)
  then have fin: "unat (SeqNum fin) = unat (RCV_NXT (RCV tcb)) + length payload"
    unfolding assms(7) by (simp add: unat_add_u32 unat_of_nat_u32 del: length_greater_0_conv)
  have rf: "ReceiveFin ns fin key tcb = (?t1, [IPSend (ack_message ns key tcb (RCV_NXT (RCV tcb)))])"
    using fin len(1) by (auto simp: ReceiveFin_def u32_eq_nat u32_less_nat ack_message_def)
  have a1: "rcv_agrees str ?t1" "conforming str ?t1 (RCV_NXT (RCV ?t1)) payload" "snd_ready ?t1"
    using assms(2,3,4) by (simp_all add: rcv_agrees_def conforming_def snd_ready_def cc_ok_def)
  obtain t n where t: "receive_data ns key (RCV_NXT (RCV ?t1)) payload ?t1 = Inr (finish_data ns key t)"
    "rcv_agrees str t" "RCV_NXT (RCV t) = snd (drain (EarlyQ ?t1) n)"
    "unat n = unat (RCV_NXT (RCV ?t1)) + length payload" "RCV_LBR (RCV t) = RCV_LBR (RCV ?t1)"
    "PendingReceivedFin t = PendingReceivedFin ?t1" "snd_ready t = snd_ready ?t1"
    using receive_data_in_order [OF a1(1,2)] by metis
  have nxt: "RCV_NXT (RCV t) = SeqNum fin" using t(3,4) assms(6) fin by (simp add: drain_def u32_eq_nat)
  then have f: "finish_data ns key t = (t\<lparr>State := CLOSE_WAIT\<rparr>, [IPSend (ack_message ns key t (SeqNum fin + 1)), SignalRead])"
    using t(6) by (simp add: finish_data_def)
  have d: "receive_data ns key (SeqNum h) payload ?t1
      = Inr (t\<lparr>State := CLOSE_WAIT\<rparr>, [IPSend (ack_message ns key t (SeqNum fin + 1)), SignalRead])"
    using t(1) f assms(5) by simp
  have r: "snd_ready (t\<lparr>State := CLOSE_WAIT\<rparr>)" using t(7) a1(3) by (simp add: snd_ready_def cc_ok_def)
  obtain t2 fx where t2: "Receive ns now h payload key ?t1
      = Inr (t2, [IPSend (ack_message ns key t (SeqNum fin + 1)), SignalRead] @ fx)"
    "same_receiver (t\<lparr>State := CLOSE_WAIT\<rparr>) t2"
    using Receive_compose [OF assms(1) _ d r] len(1) by (metis length_greater_0_conv)
  have "unread (RCV t) = unread (RCV tcb) @ payload"
    using unread_stream [OF t(2)] unread_stream [OF assms(2)] stream_append [of str "RCV_NXT (RCV tcb)" payload] t(5) nxt fin assms(2,4)
    by (simp add: conforming_def rcv_agrees_def rcv_fits_def u32_le_nat)
  moreover have "RCV t2 = RCV t" "State t2 = CLOSE_WAIT" "ack_message ns key t2 a = ack_message ns key t a" for a
    using t2(2) by (simp_all add: same_receiver_def ack_message_def)
  ultimately have "State ?t1 = State tcb \<and> Receive ns now h payload key ?t1
        = Inr (t2, [IPSend (ack_message ns key t (SeqNum fin + 1)), SignalRead] @ fx)
      \<and> State t2 = CLOSE_WAIT \<and> hd (ip_sends ([IPSend (ack_message ns key t (SeqNum fin + 1)), SignalRead] @ fx))
        = ack_message ns key t2 (SeqNum fin + 1) \<and> unread (RCV t2) = unread (RCV tcb) @ payload"
    using t2(1) by simp
  then show ?thesis using rf by blast
qed

theorem early_fin_completes_witness:
  "\<exists>tcb1 fx1 tcb2 fx2. ReceiveFin rfc793 (sample_header 504 1001 17 100) zero_SocketData sample_conn = (tcb1, fx1)
    \<and> Receive rfc793 0 (sample_header 501 1001 16 100) [245, 246, 247] zero_SocketData tcb1 = Inr (tcb2, fx2)
    \<and> State tcb2 = CLOSE_WAIT \<and> unread (RCV tcb2) = [245, 246, 247]"
proof -
  have "unread (RCV sample_conn) = []" by (simp add: unread_def ring_fetch_def)
  moreover have "RCV_NXT (RCV sample_conn) = 501" by simp
  moreover note early_fin_completes [of "sample_header 501 1001 16 100" rfc793 "\<lambda>p. of_nat p" sample_conn
      "[245, 246, 247]" "sample_header 504 1001 17 100" zero_SocketData 0]
    sample_conn_agrees(1) [of "\<lambda>p. of_nat p"] sample_conn_agrees(2) sample_conforming
  ultimately show ?thesis by auto
qed

end
