(* ===== verification/ReadPath.thy ===== *)
theory ReadPath
  imports ReceivePath
begin

text \<open>
  Reading from a connection, \<open>Read\<close> of \<open>src/pkg/tcp/tcp_handler_core.go\<close> (reached through
  \<open>VRead\<close> of \<open>src/pkg/tcp/vtcp_conn.go\<close>). A call releases the lock while it waits for data and
  again while it copies, so it is a sequence of steps with a program counter: the head of the loop,
  waiting on the condition variable, copying (with the lock released), raising the window (also without the
  lock), and returned. Anything the other goroutines do may happen between two steps.

  The copy and \<open>RCV.LBR += bytesToRead\<close> are one step: \<open>LBR\<close> is written by \<open>Read\<close> alone, the bytes copied are not
  overwritten before \<open>LBR\<close> has moved, and \<open>amountReadSoFar\<close> is a local variable. \<open>RCV.WND += bytesToRead\<close> is two steps,
  the load and the store, because \<open>Receive\<close> writes \<open>RCV.WND\<close> too: the program has a data race there, and the properties of
  the stream assume that no data segment is handled between the load and the store.
\<close>

section \<open>The call\<close>

datatype read_pc =
    ReadLoop                            \<comment> \<open>at the head of the loop, with the lock\<close>
  | ReadWait                            \<comment> \<open>in \<open>ReadBlockedCond.Wait()\<close>\<close>
  | ReadCopy u32                        \<comment> \<open>\<open>bytesToRead\<close> is computed, the lock is released\<close>
  | ReadAdd u32                         \<comment> \<open>before \<open>RCV.WND += bytesToRead\<close>, without the lock\<close>
  | ReadStore u32                       \<comment> \<open>\<open>RCV.WND\<close> has been loaded and this sum has not been stored yet\<close>
  | ReadDone u32 "string option"        \<comment> \<open>returned with this count and error\<close>

record read_call =
  rd_data :: "byte list"
  rd_amount :: u32
  rd_all :: bool
  rd_sofar :: u32
  rd_pc :: read_pc

definition Read_start :: "TCPHandler \<Rightarrow> VTCPConn \<Rightarrow> read_pc" where
  \<comment> \<open>the checks before the loop\<close>
  "Read_start t vc =
     (if ReadCancelled vc then ReadDone 0 (Some ''Read operation is not permitted'')
      else case SocketTable t (SocketTableKey vc) of
        None \<Rightarrow> ReadDone 0 (Some ''Connection doesn't exist'')
      | Some tcb \<Rightarrow>
          if TimeoutCancelled tcb then ReadDone 0 (Some ''Read on timed out connection'')
          else if State tcb = CLOSE_WAIT \<and> RCV_LBR (RCV tcb) = RCV_NXT (RCV tcb) then ReadDone 0 (Some ''EOF'')
          else ReadLoop)"

definition read_plan :: "TCB \<Rightarrow> read_call \<Rightarrow> read_pc" where
  \<comment> \<open>the computation of \<open>bytesToRead\<close>\<close>
  "read_plan tcb c =
     (let leftToReadBuf = RCV_NXT (RCV tcb) - RCV_LBR (RCV tcb)
      in if rd_amount c - rd_sofar c < leftToReadBuf then ReadCopy (rd_amount c - rd_sofar c)
         else ReadCopy leftToReadBuf)"

definition read_head :: "TCB \<Rightarrow> read_call \<Rightarrow> read_pc" where
  \<comment> \<open>one iteration from the head of the loop to the release of the lock\<close>
  "read_head tcb c =
     (if rd_sofar c < rd_amount c
      then if RCV_LBR (RCV tcb) = RCV_NXT (RCV tcb)
        then if \<not> rd_all c \<and> rd_sofar c > 0 then ReadDone (rd_sofar c) None
          else if State tcb = CLOSE_WAIT \<or> TimeoutCancelled tcb then ReadDone 0 (Some ''EOF'')
          else ReadWait
        else read_plan tcb c
      else ReadDone (rd_sofar c) None)"

definition read_wake :: "TCB \<Rightarrow> read_call \<Rightarrow> read_pc" where
  \<comment> \<open>after \<open>ReadBlockedCond.Wait()\<close> has returned\<close>
  "read_wake tcb c =
     (if RCV_LBR (RCV tcb) = RCV_NXT (RCV tcb)
      then if State tcb = CLOSE_WAIT \<or> TimeoutCancelled tcb then ReadDone 0 (Some ''EOF'') else ReadWait
      else read_plan tcb c)"

definition read_copy :: "u32 \<Rightarrow> TCB \<Rightarrow> read_call \<Rightarrow> (TCB \<times> read_call) go" where
  \<comment> \<open>the copy to the application and the update of \<open>LBR\<close>\<close>
  "read_copy bytesToRead tcb c =
     (let buf = RCV_Buffer (RCV tcb); data = rd_data c; sofar = rd_sofar c;
          lbr_index = SequenceToBufferInd (RCV_LBR (RCV tcb))
      in gbind
        (if lbr_index + bytesToRead \<ge> MAX_BUF_SIZE
         then let copyToEndOfBufferLen = MAX_BUF_SIZE - lbr_index;
                  copyOverflowLen = bytesToRead - copyToEndOfBufferLen;
                  firstCopyDataEndIndex = sofar + copyToEndOfBufferLen;
                  secondCopyDataEndIndex = firstCopyDataEndIndex + copyOverflowLen
              in gbind (slice buf (unat lbr_index) (length buf)) (\<lambda>src1.
                 gbind (copy_into data (unat sofar) (unat firstCopyDataEndIndex) src1) (\<lambda>data1.
                 gbind (slice buf 0 (unat copyOverflowLen)) (\<lambda>src2.
                 copy_into data1 (unat firstCopyDataEndIndex) (unat secondCopyDataEndIndex) src2)))
         else gbind (slice buf (unat lbr_index) (unat (lbr_index + bytesToRead))) (\<lambda>src.
              copy_into data (unat sofar) (unat (sofar + bytesToRead)) src))
        (\<lambda>data'. Inr (tcb\<lparr>RCV := (RCV tcb)\<lparr>RCV_LBR := RCV_LBR (RCV tcb) + bytesToRead\<rparr>\<rparr>,
                    c\<lparr>rd_data := data', rd_sofar := sofar + bytesToRead, rd_pc := ReadAdd bytesToRead\<rparr>)))"

fun Read_step :: "TCB \<Rightarrow> read_call \<Rightarrow> (TCB \<times> read_call) go" where
  "Read_step tcb c =
     (case rd_pc c of
        ReadLoop \<Rightarrow> Inr (tcb, c\<lparr>rd_pc := read_head tcb c\<rparr>)
      | ReadWait \<Rightarrow> Inr (tcb, c\<lparr>rd_pc := read_wake tcb c\<rparr>)
      | ReadCopy n \<Rightarrow> read_copy n tcb c
      | ReadAdd n \<Rightarrow> Inr (tcb, c\<lparr>rd_pc := ReadStore (RCV_WND (RCV tcb) + n)\<rparr>)
      | ReadStore w \<Rightarrow> Inr (tcb\<lparr>RCV := (RCV tcb)\<lparr>RCV_WND := w\<rparr>\<rparr>, c\<lparr>rd_pc := ReadLoop\<rparr>)
      | ReadDone _ _ \<Rightarrow> Inr (tcb, c))"

section \<open>The copy is a fetch from the ring\<close>

lemma read_copy_fetch:
  assumes "length (RCV_Buffer (RCV tcb)) = 65535" and "unat n \<le> 65535"
    and "unat (rd_sofar c) + unat n \<le> length (rd_data c)" and "length (rd_data c) < 2 ^ 32"
  shows "read_copy n tcb c = Inr (tcb\<lparr>RCV := (RCV tcb)\<lparr>RCV_LBR := RCV_LBR (RCV tcb) + n\<rparr>\<rparr>,
    c\<lparr>rd_data := take (unat (rd_sofar c)) (rd_data c)
          @ ring_fetch (RCV_Buffer (RCV tcb)) (unat (RCV_LBR (RCV tcb))) (unat n)
          @ drop (unat (rd_sofar c) + unat n) (rd_data c),
      rd_sofar := rd_sofar c + n, rd_pc := ReadAdd n\<rparr>)"
proof -
  let ?buf = "RCV_Buffer (RCV tcb)" and ?n = "unat n" and ?s = "unat (rd_sofar c)"
  let ?ix = "SequenceToBufferInd (RCV_LBR (RCV tcb))" and ?i = "unat (RCV_LBR (RCV tcb)) mod 65535"
  have ix: "unat ?ix = ?i" by (simp add: u32_nat)
  have i: "?i < 65535" by simp
  have sum: "unat (?ix + n) = ?i + ?n" using ix i assms(2) by (simp add: unat_add_u32)
  have e2: "unat (rd_sofar c + n) = ?s + ?n" using assms(3,4) by (simp add: unat_add_u32)
  show ?thesis
  proof (cases "65535 \<le> ?i + ?n")
    case True
    have c: "?ix + n \<ge> MAX_BUF_SIZE" using True by (simp add: u32_le_nat sum)
    have first: "unat (MAX_BUF_SIZE - ?ix) = 65535 - ?i" using i ix by (simp add: unat_sub_u32 u32_le_nat)
    then have second: "unat (n - (MAX_BUF_SIZE - ?ix)) = ?i + ?n - 65535"
      using True by (simp add: unat_sub_u32 u32_le_nat)
    have e1: "unat (rd_sofar c + (MAX_BUF_SIZE - ?ix)) = ?s + (65535 - ?i)"
      using first True assms(3,4) by (simp add: unat_add_u32)
    have "ring_fetch ?buf (unat (RCV_LBR (RCV tcb))) ?n = drop ?i ?buf @ take (?i + ?n - 65535) ?buf"
      using ring_fetch_wrap [of ?buf "unat (RCV_LBR (RCV tcb))" ?n] assms True by simp
    then show ?thesis
      using True assms i c
      by (simp add: read_copy_def Let_def ix first second e1 e2 go_simps)
        (simp add: add.commute)
  next
    case False
    have c: "\<not> ?ix + n \<ge> MAX_BUF_SIZE" using False by (simp add: u32_le_nat sum)
    have "ring_fetch ?buf (unat (RCV_LBR (RCV tcb))) ?n = take ?n (drop ?i ?buf)"
      using ring_fetch_block [of "unat (RCV_LBR (RCV tcb))" ?buf ?n] assms(1) False by simp
    then show ?thesis
      using False assms c by (simp add: read_copy_def Let_def ix sum e2 go_simps)
  qed
qed

section \<open>Reading advances the window\<close>

lemma unread_split:
  assumes "rcv_fits r" and "unat n \<le> length (unread r)"
  defines "r' \<equiv> r\<lparr>RCV_LBR := RCV_LBR r + n\<rparr>"
  shows "rcv_fits r'" and "unread r' = drop (unat n) (unread r)"
    and "ring_fetch (RCV_Buffer r) (unat (RCV_LBR r)) (unat n) = take (unat n) (unread r)"
    and "unat (RCV_LBR r') = unat (RCV_LBR r) + unat n"
    and "length (unread r') + unat (RCV_WND r') + unat n = length (unread r) + unat (RCV_WND r)"
    and "length (unread r) + unat (RCV_WND r) \<le> 65535"
proof -
  have le: "unat n \<le> unat (RCV_NXT r) - unat (RCV_LBR r)" "unat (RCV_LBR r) \<le> unat (RCV_NXT r)"
    "unat (RCV_NXT r) - unat (RCV_LBR r) + unat (RCV_WND r) \<le> 65535"
    using assms(1,2) by (auto simp: unread_def rcv_fits_def u32_le_nat)
  show l: "unat (RCV_LBR r') = unat (RCV_LBR r) + unat n"
    using le unat_u32_less [of "RCV_NXT r"] by (simp add: r'_def unat_add_u32)
  have f: "RCV_Buffer r' = RCV_Buffer r" "RCV_NXT r' = RCV_NXT r" "RCV_WND r' = RCV_WND r" by (simp_all add: r'_def)
  show "length (unread r') + unat (RCV_WND r') + unat n = length (unread r) + unat (RCV_WND r)"
    using le l f by (simp add: unread_def)
  show "length (unread r) + unat (RCV_WND r) \<le> 65535" using le by (simp add: unread_def)
  show "rcv_fits r'" using assms(1) le l f by (auto simp: rcv_fits_def u32_le_nat)
  show "unread r' = drop (unat n) (unread r)"
    using le l f by (intro nth_equalityI) (auto simp: unread_def add.assoc)
  show "ring_fetch (RCV_Buffer r) (unat (RCV_LBR r)) (unat n) = take (unat n) (unread r)"
    using le by (intro nth_equalityI) (auto simp: unread_def)
qed

lemma agrees_read:
  assumes "rcv_agrees str tcb" and "unat n \<le> length (unread (RCV tcb))"
  shows "rcv_agrees str (tcb\<lparr>RCV := (RCV tcb)\<lparr>RCV_LBR := RCV_LBR (RCV tcb) + n\<rparr>\<rparr>)"
proof -
  have "rcv_fits (RCV tcb)" using assms(1) by (simp add: rcv_agrees_def)
  note s = unread_split [OF this assms(2)]
  then show ?thesis using assms(1) by (auto simp: rcv_agrees_def entry_agrees_def)
qed

lemma agrees_open:
  assumes "rcv_agrees str tcb" and "length (unread (RCV tcb)) + unat w \<le> 65535" and "RCV_WND (RCV tcb) \<le> w"
  shows "rcv_agrees str (tcb\<lparr>RCV := (RCV tcb)\<lparr>RCV_WND := w\<rparr>\<rparr>)"
  using assms by (auto simp: rcv_agrees_def rcv_fits_def entry_agrees_def unread_def u32_le_nat)

definition read_room :: "read_call \<Rightarrow> bool" where
  \<comment> \<open>the application's slice has room for what it asked for\<close>
  "read_room c \<longleftrightarrow> rd_sofar c \<le> rd_amount c \<and> unat (rd_amount c) \<le> length (rd_data c) \<and> length (rd_data c) < 2 ^ 32"

lemma length_unread: "rcv_fits r \<Longrightarrow> length (unread r) = unat (RCV_NXT r - RCV_LBR r)"
  by (simp add: unread_def rcv_fits_def unat_sub_u32)

lemma read_plan_min:
  assumes "rcv_fits (RCV tcb)" and "read_room c"
  obtains n where "read_plan tcb c = ReadCopy n"
    and "unat n = min (unat (rd_amount c) - unat (rd_sofar c)) (length (unread (RCV tcb)))"
proof -
  let ?n = "if rd_amount c - rd_sofar c < RCV_NXT (RCV tcb) - RCV_LBR (RCV tcb)
    then rd_amount c - rd_sofar c else RCV_NXT (RCV tcb) - RCV_LBR (RCV tcb)"
  have "unat (rd_amount c - rd_sofar c) = unat (rd_amount c) - unat (rd_sofar c)"
    using assms(2) by (simp add: read_room_def unat_sub_u32)
  then have "unat ?n = min (unat (rd_amount c) - unat (rd_sofar c)) (length (unread (RCV tcb)))"
    using length_unread [OF assms(1)] by (auto simp: u32_less_nat)
  moreover have "read_plan tcb c = ReadCopy ?n" by (simp add: read_plan_def Let_def)
  ultimately show ?thesis using that by blast
qed

lemma read_copy_spec:
  assumes "rcv_fits (RCV tcb)" and "read_room c"
    and "unat n \<le> unat (rd_amount c) - unat (rd_sofar c)" and "unat n \<le> length (unread (RCV tcb))"
  obtains tcb' c' where "read_copy n tcb c = Inr (tcb', c')"
    and "tcb' = tcb\<lparr>RCV := (RCV tcb)\<lparr>RCV_LBR := RCV_LBR (RCV tcb) + n\<rparr>\<rparr>"
    and "rd_data c' = take (unat (rd_sofar c)) (rd_data c) @ take (unat n) (unread (RCV tcb))
        @ drop (unat (rd_sofar c) + unat n) (rd_data c)"
    and "unat (rd_sofar c') = unat (rd_sofar c) + unat n" and "rd_pc c' = ReadAdd n"
    and "rd_amount c' = rd_amount c" and "rd_all c' = rd_all c" and "read_room c'"
proof -
  have b: "length (RCV_Buffer (RCV tcb)) = 65535" "unat n \<le> 65535"
    using assms(1,4) by (auto simp: rcv_fits_def unread_def)
  have le: "unat (rd_sofar c) \<le> unat (rd_amount c)" using assms(2) by (simp add: read_room_def u32_le_nat)
  have r: "unat (rd_sofar c) + unat n \<le> length (rd_data c)" "length (rd_data c) < 2 ^ 32"
    using assms(2,3) le by (auto simp: read_room_def)
  then have s: "unat (rd_sofar c + n) = unat (rd_sofar c) + unat n" by (simp add: unat_add_u32)
  show ?thesis
    by (rule that [OF read_copy_fetch [OF b r] refl])
      (use assms le r s unread_split(3) [OF assms(1,4)] in \<open>auto simp: read_room_def u32_le_nat\<close>)
qed

section \<open>A call interleaved with arriving segments\<close>

text \<open>
  While a call is in progress, segments of the peer's stream arrive in any order between its
  steps, a FIN may arrive, and the rest of the program (acknowledgements, the sending side, the timers, \<open>Close\<close>) may change
  everything that does not belong to the receiving side. \<open>base\<close> is the position of the stream at which the call started.
\<close>

fun storing :: "read_pc \<Rightarrow> bool" where
  \<comment> \<open>between the load and the store of \<open>RCV.WND += bytesToRead\<close>\<close>
  "storing (ReadStore _) = True"
| "storing _ = False"

inductive read_run :: "netstack \<Rightarrow> SocketData \<Rightarrow> (nat \<Rightarrow> byte) \<Rightarrow> TCB \<times> read_call \<Rightarrow> TCB \<times> read_call \<Rightarrow> bool"
  for ns key str where
  arrive: "has_flag h (TCPFlagAck ns) \<Longrightarrow> conforming str tcb (SeqNum h) payload \<Longrightarrow> \<not> storing (rd_pc c) \<Longrightarrow>
    Receive ns now h payload key tcb = Inr (tcb', fx) \<Longrightarrow> read_run ns key str (tcb, c) (tcb', c)"
| fin: "ReceiveFin ns h key tcb = (tcb', fx) \<Longrightarrow> read_run ns key str (tcb, c) (tcb', c)"
| rest: "RCV tcb' = RCV tcb \<Longrightarrow> EarlyQ tcb' = EarlyQ tcb \<Longrightarrow> snd_ready tcb' \<Longrightarrow> read_run ns key str (tcb, c) (tcb', c)"
| step: "Read_step tcb c = Inr (tcb', c') \<Longrightarrow> read_run ns key str (tcb, c) (tcb', c')"

definition read_inv :: "(nat \<Rightarrow> byte) \<Rightarrow> nat \<Rightarrow> TCB \<times> read_call \<Rightarrow> bool" where
  "read_inv str base = (\<lambda>(tcb, c). rcv_agrees str tcb \<and> snd_ready tcb \<and> read_room c
     \<and> unat (RCV_LBR (RCV tcb)) = base + unat (rd_sofar c)
     \<and> take (unat (rd_sofar c)) (rd_data c) = map str [base..<base + unat (rd_sofar c)]
     \<and> (case rd_pc c of
          ReadCopy n \<Rightarrow> unat n \<le> length (unread (RCV tcb)) \<and> unat n \<le> unat (rd_amount c) - unat (rd_sofar c)
        | ReadAdd n \<Rightarrow> length (unread (RCV tcb)) + unat (RCV_WND (RCV tcb)) + unat n \<le> 65535
        | ReadStore w \<Rightarrow> length (unread (RCV tcb)) + unat w \<le> 65535 \<and> RCV_WND (RCV tcb) \<le> w
        | ReadDone n None \<Rightarrow> n = rd_sofar c
        | _ \<Rightarrow> True))"

lemma read_inv_plan:
  assumes "read_inv str base (tcb, c)"
  shows "read_inv str base (tcb, c\<lparr>rd_pc := read_plan tcb c\<rparr>)"
proof -
  have ok: "rcv_fits (RCV tcb)" "read_room c" using assms by (auto simp: read_inv_def rcv_agrees_def)
  obtain n where "read_plan tcb c = ReadCopy n"
    "unat n = min (unat (rd_amount c) - unat (rd_sofar c)) (length (unread (RCV tcb)))"
    using read_plan_min [OF ok] by metis
  then show ?thesis using assms by (simp add: read_inv_def read_room_def)
qed

lemma read_inv_done:
  assumes "read_inv str base (tcb, c)" and "r = ReadWait \<or> r = ReadDone n (Some e) \<or> r = ReadDone (rd_sofar c) None"
  shows "read_inv str base (tcb, c\<lparr>rd_pc := r\<rparr>)"
  using assms by (auto simp: read_inv_def read_room_def)

lemma read_inv_copy:
  assumes "read_inv str base (tcb, c)" and "rd_pc c = ReadCopy n" and "read_copy n tcb c = Inr (tcb', c')"
  shows "read_inv str base (tcb', c')"
proof -
  have inv: "rcv_agrees str tcb" "rcv_fits (RCV tcb)" "read_room c" "unat n \<le> length (unread (RCV tcb))"
    "unat n \<le> unat (rd_amount c) - unat (rd_sofar c)" "snd_ready tcb"
    "unat (RCV_LBR (RCV tcb)) = base + unat (rd_sofar c)"
    "take (unat (rd_sofar c)) (rd_data c) = map str [base..<base + unat (rd_sofar c)]"
    using assms(1,2) by (auto simp: read_inv_def rcv_agrees_def)
  obtain u d where c: "read_copy n tcb c = Inr (u, d)"
    "u = tcb\<lparr>RCV := (RCV tcb)\<lparr>RCV_LBR := RCV_LBR (RCV tcb) + n\<rparr>\<rparr>"
    "rd_data d = take (unat (rd_sofar c)) (rd_data c) @ take (unat n) (unread (RCV tcb))
        @ drop (unat (rd_sofar c) + unat n) (rd_data c)"
    "unat (rd_sofar d) = unat (rd_sofar c) + unat n" "rd_pc d = ReadAdd n" "read_room d"
    using read_copy_spec [OF inv(2,3,5,4)] by metis
  have lbr: "unat (RCV_LBR (RCV u)) = base + unat (rd_sofar d)"
    using unread_split(4) [OF inv(2,4)] c(2,4) inv(7) by simp
  have len: "length (take (unat (rd_sofar c)) (rd_data c)) = unat (rd_sofar c)"
    using inv(3) by (auto simp: read_room_def u32_le_nat)
  have "base + unat (rd_sofar c) + unat n \<le> unat (RCV_NXT (RCV tcb))"
    using inv(2,4,7) by (auto simp: rcv_fits_def u32_le_nat unread_def)
  then have "take (unat n) (unread (RCV tcb)) = map str [base + unat (rd_sofar c)..<base + unat (rd_sofar c) + unat n]"
    unfolding unread_stream [OF inv(1)] inv(7) by (simp only: take_map take_upt)
  moreover have "[base..<base + unat (rd_sofar d)] =
      [base..<base + unat (rd_sofar c)] @ [base + unat (rd_sofar c)..<base + unat (rd_sofar c) + unat n]"
    unfolding c(4) by (metis add.assoc le_add1 upt_add_eq_append)
  ultimately have "take (unat (rd_sofar d)) (rd_data d) = map str [base..<base + unat (rd_sofar d)]"
    using c(3,4) inv(4,8) len by simp
  then show ?thesis
    using c agrees_read [OF inv(1,4)] inv(6) lbr assms(3) unread_split(5,6) [OF inv(2,4)]
    by (simp add: read_inv_def snd_ready_def cc_ok_def)
qed

lemma read_inv_open:
  assumes "read_inv str base (tcb, c)"
  shows "rd_pc c = ReadAdd n \<Longrightarrow> read_inv str base (tcb, c\<lparr>rd_pc := ReadStore (RCV_WND (RCV tcb) + n)\<rparr>)"
    and "rd_pc c = ReadStore w \<Longrightarrow> read_inv str base (tcb\<lparr>RCV := (RCV tcb)\<lparr>RCV_WND := w\<rparr>\<rparr>, c\<lparr>rd_pc := ReadLoop\<rparr>)"
proof -
  show "read_inv str base (tcb, c\<lparr>rd_pc := ReadStore (RCV_WND (RCV tcb) + n)\<rparr>)" if p: "rd_pc c = ReadAdd n"
  proof -
    have "length (unread (RCV tcb)) + unat (RCV_WND (RCV tcb)) + unat n \<le> 65535" using assms p by (simp add: read_inv_def)
    moreover from this have "unat (RCV_WND (RCV tcb) + n) = unat (RCV_WND (RCV tcb)) + unat n" by (intro unat_add_u32) simp
    ultimately show ?thesis using assms by (simp add: read_inv_def read_room_def u32_le_nat)
  qed
  show "read_inv str base (tcb\<lparr>RCV := (RCV tcb)\<lparr>RCV_WND := w\<rparr>\<rparr>, c\<lparr>rd_pc := ReadLoop\<rparr>)" if "rd_pc c = ReadStore w"
    using assms that agrees_open [of str tcb w] by (simp add: read_inv_def read_room_def snd_ready_def cc_ok_def)
qed

lemma read_inv_step:
  assumes "read_inv str base (tcb, c)" and "Read_step tcb c = Inr (tcb', c')"
  shows "read_inv str base (tcb', c')"
  using assms
  by (auto simp: read_head_def read_wake_def intro: read_inv_plan read_inv_done read_inv_copy read_inv_open
      split: read_pc.splits if_splits)

lemma read_inv_arrival:
  \<comment> \<open>what a call in progress relies on: no byte it may read is taken away, and the edge of the window stays\<close>
  assumes "read_inv str base (tcb, c)" and "rcv_agrees str tcb'" and "snd_ready tcb'" and "\<not> storing (rd_pc c)"
    and "RCV_LBR (RCV tcb') = RCV_LBR (RCV tcb)" and "RCV_NXT (RCV tcb) \<le> RCV_NXT (RCV tcb')"
    and "unat (RCV_NXT (RCV tcb')) + unat (RCV_WND (RCV tcb')) = unat (RCV_NXT (RCV tcb)) + unat (RCV_WND (RCV tcb))"
  shows "read_inv str base (tcb', c)"
proof -
  have le: "unat (RCV_LBR (RCV tcb)) \<le> unat (RCV_NXT (RCV tcb))" "unat (RCV_NXT (RCV tcb)) \<le> unat (RCV_NXT (RCV tcb'))"
    using assms(1,6) by (auto simp: read_inv_def rcv_agrees_def rcv_fits_def u32_le_nat)
  have "length (unread (RCV tcb)) \<le> length (unread (RCV tcb'))"
    "length (unread (RCV tcb')) + unat (RCV_WND (RCV tcb')) = length (unread (RCV tcb)) + unat (RCV_WND (RCV tcb))"
    using assms(5,7) le by (simp_all add: unread_def diff_le_mono)
  then show ?thesis using assms by (auto simp: read_inv_def split: read_pc.splits)
qed

lemma read_inv_rest:
  assumes "read_inv str base (tcb, c)" and "RCV tcb' = RCV tcb" and "EarlyQ tcb' = EarlyQ tcb" and "snd_ready tcb'"
  shows "read_inv str base (tcb', c)"
  using assms by (cases "rd_pc c") (auto simp: read_inv_def rcv_agrees_def split: option.splits)

lemma ReceiveFin_frame:
  assumes "ReceiveFin ns h key tcb = (tcb', fx)"
  shows "RCV tcb' = RCV tcb" and "EarlyQ tcb' = EarlyQ tcb" and "snd_ready tcb' = snd_ready tcb"
  using assms by (auto simp: ReceiveFin_def Let_def snd_ready_def cc_ok_def split: if_splits)

lemma read_inv_run:
  assumes "read_run ns key str s s'" and "read_inv str base s"
  shows "read_inv str base s'"
  using assms
proof (induction rule: read_run.induct)
  case (arrive h tcb payload c now tcb' fx)
  then have a: "rcv_agrees str tcb" "snd_ready tcb" by (simp_all add: read_inv_def)
  show ?case
    by (rule read_inv_arrival [OF arrive.prems])
      (use arrive.hyps Receive_stream_step [OF arrive(1) a arrive(2), of now key] in auto)
next
  case (fin h tcb tcb' fx c)
  note f = ReceiveFin_frame [OF fin.hyps]
  have "snd_ready tcb" using fin.prems by (simp add: read_inv_def)
  then show ?case using f(3) by (intro read_inv_rest [OF fin.prems f(1,2)]) blast
next
  case (rest tcb' tcb c)
  show ?case by (rule read_inv_rest [OF rest.prems rest.hyps])
next
  case (step tcb c tcb' c')
  show ?case by (rule read_inv_step [OF step.prems step.hyps])
qed

fun Read_steps :: "nat \<Rightarrow> TCB \<Rightarrow> read_call \<Rightarrow> (TCB \<times> read_call) go" where
  "Read_steps 0 tcb c = Inr (tcb, c)"
| "Read_steps (Suc k) tcb c = gbind (Read_step tcb c) (\<lambda>(tcb', c'). Read_steps k tcb' c')"

lemma unread_empty_iff: "rcv_fits r \<Longrightarrow> unread r = [] \<longleftrightarrow> RCV_LBR r = RCV_NXT r"
  using length_unread [of r] by (metis length_0_conv right_minus_eq unat_eq_0)

lemma read_four_steps:
  assumes "rcv_fits (RCV tcb)" and "read_room c" and "rd_pc c = ReadLoop" and "rd_sofar c = 0"
    and "0 < rd_amount c" and "unread (RCV tcb) \<noteq> []"
  obtains tcb' c' where "Read_steps 4 tcb c = Inr (tcb', c')" and "rcv_fits (RCV tcb')" and "rd_pc c' = ReadLoop"
    and "State tcb' = State tcb" and "TimeoutCancelled tcb' = TimeoutCancelled tcb"
    and "unat (rd_sofar c') = min (unat (rd_amount c)) (length (unread (RCV tcb)))"
    and "rd_data c' = take (unat (rd_sofar c')) (unread (RCV tcb)) @ drop (unat (rd_sofar c')) (rd_data c)"
    and "unread (RCV tcb') = drop (unat (rd_sofar c')) (unread (RCV tcb))"
    and "unat (RCV_WND (RCV tcb')) = unat (RCV_WND (RCV tcb)) + unat (rd_sofar c')"
    and "rd_amount c' = rd_amount c" and "rd_all c' = rd_all c"
proof -
  obtain n where n: "read_plan tcb c = ReadCopy n"
    "unat n = min (unat (rd_amount c) - unat (rd_sofar c)) (length (unread (RCV tcb)))"
    using read_plan_min [OF assms(1,2)] by metis
  let ?c = "c\<lparr>rd_pc := ReadCopy n\<rparr>"
  have head: "read_head tcb c = ReadCopy n"
    using assms(4-6) n(1) unread_empty_iff [OF assms(1)] by (simp add: read_head_def)
  have "read_room ?c" "unat n \<le> unat (rd_amount ?c) - unat (rd_sofar ?c)" "unat n \<le> length (unread (RCV tcb))"
    using assms(2) n(2) by (simp_all add: read_room_def)
  with read_copy_spec [OF assms(1), of ?c n] obtain u d where c: "read_copy n tcb ?c = Inr (u, d)"
    "u = tcb\<lparr>RCV := (RCV tcb)\<lparr>RCV_LBR := RCV_LBR (RCV tcb) + n\<rparr>\<rparr>"
    "rd_data d = take (unat (rd_sofar c)) (rd_data c) @ take (unat n) (unread (RCV tcb))
        @ drop (unat (rd_sofar c) + unat n) (rd_data c)"
    "unat (rd_sofar d) = unat (rd_sofar c) + unat n" "rd_pc d = ReadAdd n" "rd_amount d = rd_amount c" "rd_all d = rd_all c"
    by simp metis
  have "unat n \<le> length (unread (RCV tcb))" using n(2) by simp
  note s = unread_split [OF assms(1) this]
  have w: "unat (RCV_WND (RCV tcb) + n) = unat (RCV_WND (RCV tcb)) + unat n" using s(5,6) by (intro unat_add_u32) simp
  let ?u = "u\<lparr>RCV := (RCV u)\<lparr>RCV_WND := RCV_WND (RCV tcb) + n\<rparr>\<rparr>"
  have f: "rcv_fits (RCV ?u)" using s(1,4) s(5,6) [unfolded unread_def] c(2) w by (simp add: rcv_fits_def u32_le_nat)
  have u: "unread (RCV ?u) = drop (unat n) (unread (RCV tcb))" using s(2) c(2) by (simp add: unread_def)
  have "Read_steps 4 tcb c = Inr (?u, d\<lparr>rd_pc := ReadLoop\<rparr>)"
    using c(1,2,5) assms(3) head by (simp add: eval_nat_numeral)
  then show ?thesis by (rule that) (use c(2-7) u w n(2) assms(4) f in simp_all)
qed

lemma Read_steps_run:
  "Read_steps k tcb c = Inr (tcb', c') \<Longrightarrow> (read_run ns key str)\<^sup>*\<^sup>* (tcb, c) (tcb', c')"
proof (induction k arbitrary: tcb c)
  case (Suc k)
  then obtain u d where "Read_step tcb c = Inr (u, d)" "Read_steps k u d = Inr (tcb', c')"
    by (auto simp: gbind_Inr_iff simp del: Read_step.simps)
  then show ?case using Suc.IH by (meson converse_rtranclp_into_rtranclp read_run.step)
qed simp

lemma Read_steps_Suc:
  "Read_steps (Suc k) tcb c = gbind (Read_steps k tcb c) (\<lambda>(tcb', c'). Read_step tcb' c')"
proof (induction k arbitrary: tcb c)
  case 0
  show ?case by (cases "Read_step tcb c") (auto simp del: Read_step.simps)
next
  case (Suc k)
  show ?case
  proof (cases "Read_step tcb c")
    case (Inr p)
    then have "Read_steps (Suc (Suc k)) tcb c = Read_steps (Suc k) (fst p) (snd p)" "Read_steps (Suc k) tcb c = Read_steps k (fst p) (snd p)"
      by (simp_all add: case_prod_beta del: Read_step.simps)
    then show ?thesis using Suc [of "fst p" "snd p"] by (simp only:)
  qed (simp del: Read_step.simps)
qed

lemma read_five_steps:
  assumes "rcv_fits (RCV tcb)" and "read_room c" and "rd_pc c = ReadLoop" and "rd_sofar c = 0"
    and "0 < rd_amount c" and "unread (RCV tcb) \<noteq> []" and "\<not> rd_all c \<or> unat (rd_amount c) \<le> length (unread (RCV tcb))"
  obtains tcb' c' n where "Read_steps 5 tcb c = Inr (tcb', c')" and "rcv_fits (RCV tcb')"
    and "rd_pc c' = ReadDone n None" and "unat n = min (unat (rd_amount c)) (length (unread (RCV tcb)))"
    and "take (unat n) (rd_data c') = take (unat n) (unread (RCV tcb))"
    and "unread (RCV tcb') = drop (unat n) (unread (RCV tcb))"
    and "unat (RCV_WND (RCV tcb')) = unat (RCV_WND (RCV tcb)) + unat n"
proof -
  obtain u d where d: "Read_steps 4 tcb c = Inr (u, d)" "rcv_fits (RCV u)" "rd_pc d = ReadLoop"
    "unat (rd_sofar d) = min (unat (rd_amount c)) (length (unread (RCV tcb)))"
    "rd_data d = take (unat (rd_sofar d)) (unread (RCV tcb)) @ drop (unat (rd_sofar d)) (rd_data c)"
    "unread (RCV u) = drop (unat (rd_sofar d)) (unread (RCV tcb))"
    "unat (RCV_WND (RCV u)) = unat (RCV_WND (RCV tcb)) + unat (rd_sofar d)"
    "rd_amount d = rd_amount c" "rd_all d = rd_all c"
    using read_four_steps [OF assms(1-6)] by metis
  have "0 < rd_sofar d" using d(4) assms(5,6) by (auto simp: u32_less_nat)
  moreover have "unread (RCV u) = []" "\<not> rd_all d" if "rd_sofar d < rd_amount d"
    using that d(4,6,8,9) assms(7) by (auto simp: u32_less_nat)
  ultimately have "read_head u d = ReadDone (rd_sofar d) None"
    using unread_empty_iff [OF d(2)] by (auto simp: read_head_def)
  then have "Read_steps 5 tcb c = Inr (u, d\<lparr>rd_pc := ReadDone (rd_sofar d) None\<rparr>)"
    using d(1,3) Read_steps_Suc [of 4 tcb c] by simp
  then show ?thesis by (rule that) (use d in auto)
qed

section \<open>Properties\<close>


definition sample_data_conn :: TCB where
  \<comment> \<open>a connection with three bytes to read\<close>
  "sample_data_conn = sample_conn\<lparr>RCV := (RCV sample_conn)\<lparr>RCV_Buffer := ring_store make_buf 501 [245, 246, 247],
     RCV_NXT := 504, RCV_WND := 65532\<rparr>\<rparr>"

lemma sample_data_conn_agrees: "rcv_agrees (\<lambda>p. of_nat p) sample_data_conn" "snd_ready sample_data_conn"
    "unread (RCV sample_data_conn) = [245, 246, 247]"
proof -
  have "ring_fetch (ring_store make_buf 501 [245, 246, 247 :: byte]) 501 3 = [245, 246, 247]"
    using ring.get_put_same [of make_buf "[245, 246, 247]" 501]
    by (simp add: numeral_3_eq_3 del: ring_store.simps)
  then show u: "unread (RCV sample_data_conn) = [245, 246, 247]"
    by (simp add: unread_def sample_data_conn_def del: ring_store.simps)
  have "ring_at (ring_store make_buf 501 [245, 246, 247]) p = of_nat p" if "501 \<le> p" "p < 504" for p
    using ring_store_stream [of make_buf "\<lambda>p. of_nat p" 501 "[245, 246, 247]" 501 p] that
    by (simp add: from_stream_def upt_rec del: ring_store.simps)
  then show "rcv_agrees (\<lambda>p. of_nat p) sample_data_conn"
    by (auto simp: rcv_agrees_def rcv_fits_def sample_data_conn_def simp del: ring_store.simps)
  show "snd_ready sample_data_conn" by (simp add: snd_ready_def sample_data_conn_def)
qed

definition sample_read :: "bool \<Rightarrow> u32 \<Rightarrow> read_call" where
  "sample_read all n = \<lparr>rd_data = replicate (unat n) 0, rd_amount = n, rd_all = all, rd_sofar = 0, rd_pc = ReadLoop\<rparr>"

lemma sample_read_sel [simp]:
  "rd_amount (sample_read all n) = n" "rd_all (sample_read all n) = all" "rd_sofar (sample_read all n) = 0"
  "rd_pc (sample_read all n) = ReadLoop"
  by (simp_all add: sample_read_def)

lemma sample_data_conn_sel [simp]: "RCV_LBR (RCV sample_data_conn) = 501" "length (unread (RCV sample_data_conn)) = 3"
    "unread (RCV sample_data_conn) \<noteq> []"
  by (simp add: sample_data_conn_def) (simp_all add: sample_data_conn_agrees(3))

lemma read_room_sample: "read_room (sample_read all n)"
  using unat_u32_less [of n] by (simp add: read_room_def sample_read_def)


text \<open>
  C32. A \<open>Read\<close> with \<open>readAll\<close> off on an open connection that has data passes the checks at its start and returns without waiting (five steps
  of its own, with no other goroutine in between): it hands over as much of the available data as was asked for, in order, leaves
  the rest to be read, and opens the advertised window by the amount taken.
\<close>

theorem Read_returns_available:
  assumes "SocketTable t (SocketTableKey vc) = Some tcb" and "\<not> ReadCancelled vc" and "\<not> TimeoutCancelled tcb"
    and "rcv_fits (RCV tcb)" and "read_room c" and "rd_pc c = Read_start t vc" and "rd_sofar c = 0"
    and "0 < rd_amount c" and "unread (RCV tcb) \<noteq> []" and "\<not> rd_all c"
  shows "\<exists>tcb' c' n. Read_steps 5 tcb c = Inr (tcb', c') \<and> rd_pc c' = ReadDone n None
    \<and> unat n = min (unat (rd_amount c)) (length (unread (RCV tcb)))
    \<and> take (unat n) (rd_data c') = take (unat n) (unread (RCV tcb))
    \<and> unread (RCV tcb') = drop (unat n) (unread (RCV tcb))
    \<and> unat (RCV_WND (RCV tcb')) = unat (RCV_WND (RCV tcb)) + unat n"
proof -
  have "rd_pc c = ReadLoop" using assms(1-3,6,9) unread_empty_iff [OF assms(4)] by (simp add: Read_start_def)
  from read_five_steps [OF assms(4,5) this assms(7-9)] assms(10) show ?thesis by metis
qed

definition sample_data_handler :: TCPHandler where
  "sample_data_handler = \<lparr>SocketTable = [zero_SocketData \<mapsto> sample_data_conn], HandlerLocalAddr = 1, CurrentPort = 1025, Listeners = []\<rparr>"

theorem Read_returns_available_witness:
  "\<exists>tcb' c' n. Read_steps 5 sample_data_conn (sample_read False 2) = Inr (tcb', c') \<and> rd_pc c' = ReadDone n None
    \<and> unread (RCV tcb') = [247]"
proof -
  let ?vc = "\<lparr>SocketTableKey = zero_SocketData, ReadCancelled = False, WriteCancelled = False\<rparr>"
  have f: "rcv_fits (RCV sample_data_conn)" using sample_data_conn_agrees by (simp add: rcv_agrees_def)
  have s: "SocketTable sample_data_handler (SocketTableKey ?vc) = Some sample_data_conn" by (simp add: sample_data_handler_def)
  have t: "\<not> TimeoutCancelled sample_data_conn" "State sample_data_conn = ESTABLISHED" by (simp_all add: sample_data_conn_def)
  have "rd_pc (sample_read False 2) = Read_start sample_data_handler ?vc" using s t by (simp add: Read_start_def)
  from Read_returns_available [OF s _ t(1) f read_room_sample this] show ?thesis
    by (auto simp: sample_data_conn_agrees(3))
qed

text \<open>
  C38. With \<open>readAll\<close> on, a \<open>Read\<close> that asks for more than the peer sent before closing reports
  zero bytes and end of file, although it has taken all of the data out of the receive buffer: a later
  \<open>Read\<close> cannot get them.
\<close>

theorem Read_all_at_eof_loses_count:
  assumes "rcv_fits (RCV tcb)" and "read_room c" and "rd_pc c = ReadLoop" and "rd_sofar c = 0"
    and "unread (RCV tcb) \<noteq> []" and "rd_all c" and "length (unread (RCV tcb)) < unat (rd_amount c)"
    and "State tcb = CLOSE_WAIT"
  shows "\<exists>tcb' c'. Read_steps 5 tcb c = Inr (tcb', c') \<and> rd_pc c' = ReadDone 0 (Some ''EOF'')
    \<and> unread (RCV tcb') = []
    \<and> take (length (unread (RCV tcb))) (rd_data c') = unread (RCV tcb)"
proof -
  have "0 < rd_amount c" using assms(7) by (auto simp: u32_less_nat)
  then obtain u d where d: "Read_steps 4 tcb c = Inr (u, d)" "rcv_fits (RCV u)" "rd_pc d = ReadLoop"
    "State u = State tcb" "unat (rd_sofar d) = min (unat (rd_amount c)) (length (unread (RCV tcb)))"
    "rd_data d = take (unat (rd_sofar d)) (unread (RCV tcb)) @ drop (unat (rd_sofar d)) (rd_data c)"
    "unread (RCV u) = drop (unat (rd_sofar d)) (unread (RCV tcb))" "rd_amount d = rd_amount c" "rd_all d = rd_all c"
    using read_four_steps [OF assms(1-4) _ assms(5)] by metis
  have "rd_sofar d < rd_amount d" "unread (RCV u) = []"
    using d(5,7,8) assms(7) by (auto simp: u32_less_nat)
  then have "read_head u d = ReadDone 0 (Some ''EOF'')"
    using d(4,9) assms(6,8) unread_empty_iff [OF d(2)] by (simp add: read_head_def)
  then have "Read_steps 5 tcb c = Inr (u, d\<lparr>rd_pc := ReadDone 0 (Some ''EOF'')\<rparr>)"
    using d(1,3) Read_steps_Suc [of 4 tcb c] by simp
  then show ?thesis using d(5,6,7) assms(7) by simp
qed

theorem Read_all_at_eof_loses_count_witness:
  "\<exists>tcb' c'. Read_steps 5 (sample_data_conn\<lparr>State := CLOSE_WAIT\<rparr>) (sample_read True 5) = Inr (tcb', c')
    \<and> rd_pc c' = ReadDone 0 (Some ''EOF'') \<and> unread (RCV tcb') = []"
proof -
  have "rcv_fits (RCV (sample_data_conn\<lparr>State := CLOSE_WAIT\<rparr>))"
    using sample_data_conn_agrees by (simp add: rcv_agrees_def)
  from Read_all_at_eof_loses_count [OF this read_room_sample, of True 5] show ?thesis
    by (auto simp: sample_data_conn_agrees(3))
qed

text \<open>
  C35. The update \<open>RCV.WND += bytesToRead\<close> at the end of \<open>Read\<close>'s copy runs without the lock. When \<open>Receive\<close> handles an in-order
  segment between its load and its store, the store undoes what \<open>Receive\<close> took off the window: the connection then
  advertises, by at least the length of the segment, more than its buffer has room for.
\<close>

theorem read_race_overstates_window:
  assumes "has_flag h (TCPFlagAck ns)" and "rcv_agrees str tcb" and "snd_ready tcb"
    and "conforming str tcb (SeqNum h) payload" and "SeqNum h = RCV_NXT (RCV tcb)"
    and "rd_pc c = ReadAdd n" and "length (unread (RCV tcb)) + unat (RCV_WND (RCV tcb)) + unat n = 65535"
  shows "\<exists>c1 tcb2 fx tcb3 c3. Read_step tcb c = Inr (tcb, c1) \<and> Receive ns now h payload key tcb = Inr (tcb2, fx)
    \<and> Read_step tcb2 c1 = Inr (tcb3, c3) \<and> rd_pc c3 = ReadLoop
    \<and> 65535 + length payload \<le> length (unread (RCV tcb3)) + unat (RCV_WND (RCV tcb3))"
proof -
  let ?w = "RCV_WND (RCV tcb) + n" and ?r = "RCV tcb"
  have w: "unat ?w = unat (RCV_WND ?r) + unat n" using assms(7) by (intro unat_add_u32) simp
  have le: "unat (RCV_LBR ?r) \<le> unat (RCV_NXT ?r)" using assms(2) by (simp add: rcv_agrees_def rcv_fits_def u32_le_nat)
  obtain t fx where t: "Receive ns now h payload key tcb = Inr (t, fx)" "RCV_LBR (RCV t) = RCV_LBR ?r"
    "unat (SeqNum h) + length payload \<le> unat (RCV_NXT (RCV t))"
    using Receive_stream_step [OF assms(1-4), of now key] assms(5) by metis
  let ?t = "t\<lparr>RCV := (RCV t)\<lparr>RCV_WND := ?w\<rparr>\<rparr>"
  have "65535 + length payload \<le> length (unread (RCV ?t)) + unat (RCV_WND (RCV ?t))"
    using t(2,3) assms(5,7) le w by (simp add: unread_def)
  moreover have "Read_step tcb c = Inr (tcb, c\<lparr>rd_pc := ReadStore ?w\<rparr>)"
    "Read_step t (c\<lparr>rd_pc := ReadStore ?w\<rparr>) = Inr (?t, c\<lparr>rd_pc := ReadLoop\<rparr>)" using assms(6) by simp_all
  ultimately show ?thesis using t(1) by fastforce
qed

theorem read_race_overstates_window_witness:
  "\<exists>c1 tcb2 fx tcb3 c3. Read_step (sample_data_conn\<lparr>RCV := (RCV sample_data_conn)\<lparr>RCV_LBR := 503\<rparr>\<rparr>)
      ((sample_read False 2)\<lparr>rd_sofar := 2, rd_pc := ReadAdd 2\<rparr>) = Inr (sample_data_conn\<lparr>RCV := (RCV sample_data_conn)\<lparr>RCV_LBR := 503\<rparr>\<rparr>, c1)
    \<and> Read_step tcb2 c1 = Inr (tcb3, c3) \<and> 65536 \<le> length (unread (RCV tcb3)) + unat (RCV_WND (RCV tcb3))
    \<and> Receive rfc793 0 (sample_header 504 1001 16 100) [248] zero_SocketData
        (sample_data_conn\<lparr>RCV := (RCV sample_data_conn)\<lparr>RCV_LBR := 503\<rparr>\<rparr>) = Inr (tcb2, fx)"
proof -
  let ?t = "sample_data_conn\<lparr>RCV := (RCV sample_data_conn)\<lparr>RCV_LBR := 503\<rparr>\<rparr>"
  have "rcv_agrees (\<lambda>p. of_nat p) ?t" using agrees_read [OF sample_data_conn_agrees(1), of 2] by simp
  moreover have "snd_ready ?t" using sample_data_conn_agrees(2) by (simp add: snd_ready_def cc_ok_def)
  moreover have "RCV_NXT (RCV sample_data_conn) = 504" "RCV_WND (RCV sample_data_conn) = 65532" by (simp_all add: sample_data_conn_def)
  moreover from this have "conforming (\<lambda>p. of_nat p) ?t 504 [248]" "length (unread (RCV ?t)) = 1"
    by (simp_all add: conforming_def from_stream_def upt_rec unread_def)
  ultimately show ?thesis
    using read_race_overstates_window [of "sample_header 504 1001 16 100" rfc793 "\<lambda>p. of_nat p" ?t "[248]"
        "(sample_read False 2)\<lparr>rd_sofar := 2, rd_pc := ReadAdd 2\<rparr>" 2 0 zero_SocketData]
    by auto
qed

end
