(* ===== verification/SendPath.thy ===== *)
theory SendPath
  imports Timeout
begin

text \<open>
  The sending side, \<open>Write\<close> and \<open>Send\<close> of \<open>src/pkg/tcp/tcp_handler_core.go\<close>. \<open>Write\<close> puts the
  application's bytes into the send buffer and waits for room; the goroutine \<open>Send\<close> cuts the
  buffered bytes into segments, waits for data, for window space and, when the peer's window is
  closed, probes it. Both release the lock at several points, so each is a sequence of steps with a
  program counter. The goroutine that probes a closed window is \<open>zero_probe_tick\<close>.

  \<open>Send\<close> sends a burst without the lock. A segment of it is three steps: the segment is queued for retransmission and handed to
  the IP layer, \<open>SND.NXT\<close> moves, and the time is recorded; an acknowledgement of the segment may arrive in between.
  The append to the retransmission queue itself is taken to be atomic, although \<open>Receive\<close> may be changing the queue.
\<close>

section \<open>Write\<close>

datatype write_pc =
    WriteLoop                           \<comment> \<open>at the head of the loop, without the lock\<close>
  | WriteWait                           \<comment> \<open>in \<open>WriteBlockedCond.Wait()\<close>\<close>
  | WriteDone u32 "string option"       \<comment> \<open>returned with this count and error\<close>

record write_call =
  wr_data :: "byte list"
  wr_written :: u32
  wr_pc :: write_pc

definition Write_start :: "TCPHandler \<Rightarrow> VTCPConn \<Rightarrow> write_pc" where
  \<comment> \<open>the checks before the loop\<close>
  "Write_start t vc =
     (if WriteCancelled vc then WriteDone 0 (Some ''Write operation not permitted'')
      else case SocketTable t (SocketTableKey vc) of
        None \<Rightarrow> WriteDone 0 (Some ''Connection doesn't exist'')
      | Some tcb \<Rightarrow>
          if TimeoutCancelled tcb then WriteDone 0 (Some ''Write on timed out connection'') else WriteLoop)"

definition write_copy :: "TCB \<Rightarrow> write_call \<Rightarrow> (TCB \<times> write_call \<times> effect list) go" where
  \<comment> \<open>the part of an iteration after there is room: copy, advance \<open>LBW\<close>, wake the sender\<close>
  "write_copy tcb c =
     (let buf = SND_Buffer (SND tcb); data = wr_data c; written = wr_written c;
          amountToWrite = of_nat (length data);
          remainingBufSize = MAX_BUF_SIZE - (SND_LBW (SND tcb) - SND_UNA (SND tcb));
          bytesToWrite = Min32 remainingBufSize (amountToWrite - written);
          lbw_index = SequenceToBufferInd (SND_LBW (SND tcb))
      in gbind
        (if lbw_index + bytesToWrite \<ge> MAX_BUF_SIZE
         then let copyToEndOfBufferLen = MAX_BUF_SIZE - lbw_index;
                  copyOverflowLen = bytesToWrite - copyToEndOfBufferLen;
                  firstCopyDataEndIndex = written + copyToEndOfBufferLen;
                  secondCopyDataEndIndex = firstCopyDataEndIndex + copyOverflowLen
              in gbind (slice data (unat written) (unat firstCopyDataEndIndex)) (\<lambda>src1.
                 gbind (copy_into buf (unat lbw_index) (length buf) src1) (\<lambda>buf1.
                 gbind (slice data (unat firstCopyDataEndIndex) (unat secondCopyDataEndIndex)) (\<lambda>src2.
                 copy_into buf1 0 (unat copyOverflowLen) src2)))
         else gbind (slice data (unat written) (unat (written + bytesToWrite))) (\<lambda>src.
              copy_into buf (unat lbw_index) (length buf) src))
        (\<lambda>buf'. Inr (tcb\<lparr>SND := (SND tcb)\<lparr>SND_Buffer := buf', SND_LBW := SND_LBW (SND tcb) + bytesToWrite\<rparr>\<rparr>,
                    c\<lparr>wr_written := written + bytesToWrite, wr_pc := WriteLoop\<rparr>, [SignalSend])))"

definition write_room :: "TCB \<Rightarrow> write_call \<Rightarrow> (TCB \<times> write_call \<times> effect list) go" where
  \<comment> \<open>the loop that waits for room\<close>
  "write_room tcb c =
     (if SND_LBW (SND tcb) - SND_UNA (SND tcb) = MAX_BUF_SIZE then Inr (tcb, c\<lparr>wr_pc := WriteWait\<rparr>, [])
      else write_copy tcb c)"

fun Write_step :: "VTCPConn \<Rightarrow> TCB \<Rightarrow> write_call \<Rightarrow> (TCB \<times> write_call \<times> effect list) go" where
  "Write_step vc tcb c =
     (case wr_pc c of
        WriteLoop \<Rightarrow>
          if wr_written c < of_nat (length (wr_data c))
          then if State tcb \<noteq> ESTABLISHED \<and> State tcb \<noteq> CLOSE_WAIT
            then Inr (tcb, c\<lparr>wr_pc := WriteDone 0 (Some ''Connection is closing'')\<rparr>, [LeavesLocked])
            else write_room tcb c
          else Inr (tcb, c\<lparr>wr_pc := WriteDone (of_nat (length (wr_data c))) None\<rparr>, [])
      | WriteWait \<Rightarrow>
          if WriteCancelled vc then Inr (tcb, c\<lparr>wr_pc := WriteDone 0 (Some ''Write on a closed socket'')\<rparr>, [])
          else if TimeoutCancelled tcb
            then Inr (tcb, c\<lparr>wr_pc := WriteDone 0 (Some ''Write on timed out connection'')\<rparr>, [])
          else write_room tcb c
      | WriteDone _ _ \<Rightarrow> Inr (tcb, c, []))"

section \<open>Send\<close>

datatype send_pc =
    SendTop                             \<comment> \<open>at the head of the outer loop, without the lock\<close>
  | SendData1                           \<comment> \<open>waiting for data, inside the window loop\<close>
  | SendSegment u32 u32                 \<comment> \<open>the burst: \<open>amountToSend\<close> and \<open>amountSent\<close>, without the lock\<close>
  | SendAdvance u32 u32 u32             \<comment> \<open>\<open>amountToCopy\<close> bytes are with the IP layer, \<open>SND.NXT\<close> has not moved\<close>
  | SendStamp u32 u32                   \<comment> \<open>\<open>SND.NXT\<close> has moved, the time is not recorded\<close>
  | SendData2                           \<comment> \<open>waiting for data, after the window loop\<close>
  | SendZero                            \<comment> \<open>waiting for the peer's window to open\<close>
  | SendAck                             \<comment> \<open>waiting for an acknowledgement\<close>
  | SendReturned

type_synonym send_result = "send_pc \<times> TCB \<times> effect list"

definition send_window :: "TCB \<Rightarrow> u32" where
  "send_window tcb = Min32 (SND_WND (SND tcb)) (CWND tcb)"

definition send_ack_wait :: "TCB \<Rightarrow> send_result" where
  "send_ack_wait tcb =
     (if SND_NXT (SND tcb) - SND_UNA (SND tcb) = send_window tcb \<and> SND_WND (SND tcb) \<noteq> 0
      then if Cancelled tcb then (SendReturned, tcb, []) else (SendAck, tcb, [])
      else (SendTop, tcb, []))"

definition send_zero :: "SocketData \<Rightarrow> TCB \<Rightarrow> send_result" where
  "send_zero key tcb =
     (if SND_WND (SND tcb) = 0 \<and> SND_LBW (SND tcb) > SND_NXT (SND tcb)
      then (SendZero, tcb, [GoZeroProbe key])
      else send_ack_wait tcb)"

definition send_data_wait :: "send_pc \<Rightarrow> (TCB \<Rightarrow> send_result) \<Rightarrow> TCB \<Rightarrow> send_result" where
  \<comment> \<open>the loop that waits until there is something to send; the same code stands in two places\<close>
  "send_data_wait here go_on tcb =
     (if SND_NXT (SND tcb) = SND_LBW (SND tcb)
      then if PendingSendingFin tcb then (SendReturned, tcb, [SignalPendingFin])
           else if Cancelled tcb then (SendReturned, tcb, [])
           else (here, tcb, [])
      else go_on tcb)"

definition send_plan :: "TCB \<Rightarrow> send_result" where
  \<comment> \<open>the computation of \<open>amountToSend\<close>\<close>
  "send_plan tcb =
     (let totalWinIndex = SND_UNA (SND tcb) + send_window tcb;
          amountToSend = Min32 (totalWinIndex - SND_NXT (SND tcb)) (SND_LBW (SND tcb) - SND_NXT (SND tcb))
      in (SendSegment amountToSend 0, tcb, []))"

definition send_inner :: "SocketData \<Rightarrow> TCB \<Rightarrow> send_result" where
  \<comment> \<open>the head of the window loop\<close>
  "send_inner key tcb =
     (if SND_NXT (SND tcb) - SND_UNA (SND tcb) < send_window tcb
      then send_data_wait SendData1 send_plan tcb
      else send_data_wait SendData2 (send_zero key) tcb)"

definition send_payload :: "TCB \<Rightarrow> u32 \<Rightarrow> byte list go" where
  "send_payload tcb amountToCopy =
     (let buf = SND_Buffer (SND tcb); nxt_index = SequenceToBufferInd (SND_NXT (SND tcb))
      in if nxt_index + amountToCopy \<ge> MAX_BUF_SIZE
         then let amountLeftover = (nxt_index + amountToCopy) - MAX_BUF_SIZE
              in gbind (slice buf (unat nxt_index) (length buf)) (\<lambda>p1.
                 gbind (slice buf 0 (unat amountLeftover)) (\<lambda>p2. Inr (p1 @ p2)))
         else slice buf (unat nxt_index) (unat (nxt_index + amountToCopy)))"

definition data_header :: "netstack \<Rightarrow> SocketData \<Rightarrow> TCB \<Rightarrow> byte list \<Rightarrow> TCPFields" where
  "data_header ns key tcb payload =
     CreateTCPHeader ns (LocalAddr key) (DestAddr key) (LocalPort key) (DestPort key)
       (SND_NXT (SND tcb)) (RCV_NXT (RCV tcb)) (TCPFlagAck ns) (RCV_WND (RCV tcb)) payload"

definition send_segment :: "netstack \<Rightarrow> SocketData \<Rightarrow> u32 \<Rightarrow> u32 \<Rightarrow> TCB \<Rightarrow> send_result go" where
  \<comment> \<open>an iteration of the burst up to \<open>t.IPLayerChannel <- bufToSend\<close>, and the return to the head of the window loop after the last\<close>
  "send_segment ns key amountToSend amountSent tcb =
     (if amountSent < amountToSend
      then let amountToCopy = Min32 (amountToSend - amountSent) MSS_DATA
           in gbind (send_payload tcb amountToCopy) (\<lambda>payload.
              if Cancelled tcb then Inr (SendReturned, tcb, [])
              else
                let tcpHeader = data_header ns key tcb payload
                in Inr (SendAdvance amountToSend amountSent amountToCopy,
                        tcb\<lparr>RetransmissionQueue := RetransmissionQueue tcb
                               @ [\<lparr>TCPHeader = tcpHeader, PayloadLen = of_nat (length payload)\<rparr>]\<rparr>,
                        [IPSend (ip_message ns (LocalAddr key) (DestAddr key) tcpHeader payload)]))
      else Inr (send_inner key tcb))"

definition send_advance :: "u32 \<Rightarrow> u32 \<Rightarrow> u32 \<Rightarrow> TCB \<Rightarrow> send_result" where
  "send_advance amountToSend amountSent amountToCopy tcb =
     (SendStamp amountToSend (amountSent + amountToCopy),
      tcb\<lparr>SND := (SND tcb)\<lparr>SND_NXT := SND_NXT (SND tcb) + amountToCopy\<rparr>\<rparr>, [])"

definition send_stamp :: "int \<Rightarrow> u32 \<Rightarrow> u32 \<Rightarrow> TCB \<Rightarrow> send_result" where
  "send_stamp now amountToSend amountSent tcb =
     (SendSegment amountToSend amountSent,
      tcb\<lparr>SegmentToTimestamp := (SegmentToTimestamp tcb)(SND_NXT (SND tcb) \<mapsto> now)\<rparr>, [NotifyRTO])"

fun Send_step :: "netstack \<Rightarrow> int \<Rightarrow> SocketData \<Rightarrow> send_pc \<Rightarrow> TCB \<Rightarrow> send_result go" where
  \<comment> \<open>the goroutine up to its next wait or release of the lock\<close>
  "Send_step ns now key SendTop tcb = Inr (send_inner key tcb)"
| "Send_step ns now key SendData1 tcb =
     Inr (if Cancelled tcb then (SendReturned, tcb, []) else send_data_wait SendData1 send_plan tcb)"
| "Send_step ns now key (SendSegment amountToSend amountSent) tcb = send_segment ns key amountToSend amountSent tcb"
| "Send_step ns now key (SendAdvance amountToSend amountSent n) tcb = Inr (send_advance amountToSend amountSent n tcb)"
| "Send_step ns now key (SendStamp amountToSend amountSent) tcb = Inr (send_stamp now amountToSend amountSent tcb)"
| "Send_step ns now key SendData2 tcb =
     Inr (if Cancelled tcb then (SendReturned, tcb, []) else send_data_wait SendData2 (send_zero key) tcb)"
| "Send_step ns now key SendZero tcb =
     Inr (if Cancelled tcb then (SendReturned, tcb, [])
          else if SND_WND (SND tcb) = 0 then (SendZero, tcb, [])
          else let tcb1 = tcb\<lparr>SND := (SND tcb)\<lparr>SND_NXT := SND_NXT (SND tcb) + 1\<rparr>\<rparr>;
                   (pc, tcb2, fx) = send_ack_wait tcb1
               in (pc, tcb2, CancelZeroProbe # fx))"
| "Send_step ns now key SendAck tcb = Inr (if Cancelled tcb then (SendReturned, tcb, []) else send_ack_wait tcb)"
| "Send_step ns now key SendReturned tcb = Inr (SendReturned, tcb, [])"

definition zero_probe_tick :: "netstack \<Rightarrow> SocketData \<Rightarrow> TCB \<Rightarrow> (effect list \<times> bool) go" where
  \<comment> \<open>the probing goroutine at a tick of its clock; \<open>False\<close> means that it has ended\<close>
  "zero_probe_tick ns key tcb =
     (let nxt_index = SequenceToBufferInd (SND_NXT (SND tcb)); buf = SND_Buffer (SND tcb)
      in if unat nxt_index < length buf
         then let payload = [buf ! unat nxt_index]
              in if Cancelled tcb then Inr ([SignalZero], False)
                 else Inr ([IPSend (ip_message ns (LocalAddr key) (DestAddr key) (data_header ns key tcb payload) payload)], True)
         else Inl Panic)"

section \<open>Writing appends to the unacknowledged data\<close>

definition write_amount :: "TCB \<Rightarrow> write_call \<Rightarrow> nat" where
  "write_amount tcb c = min (65535 - length (unacked (SND tcb))) (length (wr_data c) - unat (wr_written c))"

definition write_wf :: "write_call \<Rightarrow> bool" where
  "write_wf c \<longleftrightarrow> unat (wr_written c) \<le> length (wr_data c) \<and> length (wr_data c) < 2 ^ 32"

lemma length_unacked: "snd_ok s \<Longrightarrow> length (unacked s) = unat (SND_LBW s - SND_UNA s)"
  by (auto simp: snd_ok_def unacked_def unat_sub_u32)

lemma unacked_append:
  assumes "snd_ok s" and "length (unacked s) + length xs \<le> 65535" and "unat (SND_LBW s) + length xs < 2 ^ 32"
    and "unat lbw = unat (SND_LBW s) + length xs"
  defines "s' \<equiv> s\<lparr>SND_Buffer := ring_store (SND_Buffer s) (unat (SND_LBW s)) xs, SND_LBW := lbw\<rparr>"
  shows "snd_ok s'" and "unacked s' = unacked s @ xs"
proof -
  have le: "unat (SND_UNA s) \<le> unat (SND_NXT s)" "unat (SND_NXT s) \<le> unat (SND_LBW s)"
    "length (SND_Buffer s) = 65535" "unat (SND_LBW s) - unat (SND_UNA s) + length xs \<le> 65535"
    using assms(1,2) by (auto simp: snd_ok_def u32_le_nat unacked_def)
  then show "snd_ok s'" using assms(4) by (auto simp: s'_def snd_ok_def u32_le_nat)
  show "unacked s' = unacked s @ xs"
    using ring.get_put_append [of "SND_Buffer s" "unat (SND_LBW s) - unat (SND_UNA s)" xs "unat (SND_UNA s)"] le assms(4)
    by (simp add: s'_def unacked_def)
qed

lemma write_copy_store:
  assumes "snd_ok (SND tcb)" and "write_wf c"
    and "unat (SND_LBW (SND tcb)) + write_amount tcb c < 2 ^ 32"
  obtains w lbw where "unat w = unat (wr_written c) + write_amount tcb c"
    and "unat lbw = unat (SND_LBW (SND tcb)) + write_amount tcb c"
    and "write_copy tcb c = Inr (tcb\<lparr>SND := (SND tcb)\<lparr>SND_Buffer := ring_store (SND_Buffer (SND tcb)) (unat (SND_LBW (SND tcb)))
          (take (write_amount tcb c) (drop (unat (wr_written c)) (wr_data c))), SND_LBW := lbw\<rparr>\<rparr>,
        c\<lparr>wr_written := w, wr_pc := WriteLoop\<rparr>, [SignalSend])"
proof -
  let ?s = "SND tcb" and ?lbw = "SND_LBW (SND tcb)"
  let ?b = "Min32 (MAX_BUF_SIZE - (?lbw - SND_UNA ?s)) (of_nat (length (wr_data c)) - wr_written c)"
  let ?n = "write_amount tcb c" and ?a = "unat (wr_written c)" and ?i = "unat ?lbw mod 65535"
  let ?ix = "SequenceToBufferInd ?lbw"
  have len: "length (SND_Buffer ?s) = 65535" "length (unacked ?s) \<le> 65535"
    using assms(1) by (auto simp: snd_ok_def unacked_def)
  have "unat (MAX_BUF_SIZE - (?lbw - SND_UNA ?s)) = 65535 - length (unacked ?s)"
    using len(2) length_unacked [OF assms(1)] by (subst unat_sub_u32) (simp_all add: u32_le_nat)
  moreover have "unat (of_nat (length (wr_data c)) - wr_written c) = length (wr_data c) - ?a"
    using assms(2) by (subst unat_sub_u32) (auto simp: write_wf_def u32_le_nat unat_of_nat_u32)
  ultimately have b: "unat ?b = ?n" by (simp add: unat_Min32 write_amount_def)
  have n: "?n \<le> 65535" "?a + ?n \<le> length (wr_data c)" "length (wr_data c) < 2 ^ 32"
    using assms(2) by (auto simp: write_amount_def write_wf_def)
  have ix: "unat ?ix = ?i" by (simp add: u32_nat)
  have sum: "unat (?ix + ?b) = ?i + ?n" using ix n(1) b by (simp add: unat_add_u32)
  have e: "unat (wr_written c + ?b) = ?a + ?n" using n b by (simp add: unat_add_u32)
  have l: "unat (?lbw + ?b) = unat ?lbw + ?n" using assms(3) b by (simp add: unat_add_u32)
  have "write_copy tcb c = Inr (tcb\<lparr>SND := ?s\<lparr>SND_Buffer := ring_store (SND_Buffer ?s) (unat ?lbw)
          (take ?n (drop ?a (wr_data c))), SND_LBW := ?lbw + ?b\<rparr>\<rparr>, c\<lparr>wr_written := wr_written c + ?b, wr_pc := WriteLoop\<rparr>, [SignalSend])"
  proof (cases "65535 \<le> ?i + ?n")
    case True
    have first: "unat (MAX_BUF_SIZE - ?ix) = 65535 - ?i" using ix by (simp add: unat_sub_u32 u32_le_nat)
    then have "unat (?b - (MAX_BUF_SIZE - ?ix)) = ?n - (65535 - ?i)"
      using True b by (subst unat_sub_u32) (auto simp: u32_le_nat)
    moreover have "unat (wr_written c + (MAX_BUF_SIZE - ?ix)) = ?a + (65535 - ?i)"
      using first True n by (simp add: unat_add_u32)
    moreover have "?ix + ?b \<ge> MAX_BUF_SIZE" using True by (simp add: u32_le_nat sum)
    ultimately show ?thesis
      using store_two_copies [OF len(1) n(1,2) True] len(1)
      by (simp add: write_copy_def Let_def ix e)
  next
    case False
    then have "\<not> ?ix + ?b \<ge> MAX_BUF_SIZE" by (simp add: u32_le_nat sum)
    then show ?thesis
      using store_one_copy [OF len(1) n(2), of "unat ?lbw" 65535] False len(1)
      by (simp add: write_copy_def Let_def ix e)
  qed
  then show ?thesis using e l by (intro that) auto
qed

section \<open>The send buffer agrees with the written stream\<close>

text \<open>
  \<open>str\<close> is the stream the application has written, indexed by sequence number. Every byte that is
  not acknowledged is in the buffer, and every queued segment lies between \<open>UNA\<close> and \<open>NXT\<close>, in
  sequence order; so what is sent for the first time or again is a piece of the stream.
\<close>

definition seg_placed :: "Send \<Rightarrow> RetransmitSegment \<Rightarrow> bool" where
  "seg_placed s seg \<longleftrightarrow> SND_UNA s \<le> SeqNum (TCPHeader seg)
     \<and> unat (SeqNum (TCPHeader seg)) + unat (PayloadLen seg) \<le> unat (SND_NXT s)"

definition snd_agrees :: "(nat \<Rightarrow> byte) \<Rightarrow> TCB \<Rightarrow> bool" where
  "snd_agrees str tcb \<longleftrightarrow> snd_ok (SND tcb)
     \<and> (\<forall>p. unat (SND_UNA (SND tcb)) \<le> p \<and> p < unat (SND_LBW (SND tcb)) \<longrightarrow> ring_at (SND_Buffer (SND tcb)) p = str p)
     \<and> (\<forall>seg \<in> set (RetransmissionQueue tcb). seg_placed (SND tcb) seg)
     \<and> sorted (map (\<lambda>s. SeqNum (TCPHeader s)) (RetransmissionQueue tcb))"

definition seg_payload :: "TCB \<Rightarrow> RetransmitSegment \<Rightarrow> byte list" where
  "seg_payload tcb seg = ring_fetch (SND_Buffer (SND tcb)) (unat (SeqNum (TCPHeader seg))) (unat (PayloadLen seg))"

lemma fetch_stream:
  assumes "snd_agrees str tcb" and "unat (SND_UNA (SND tcb)) \<le> p" and "p + n \<le> unat (SND_LBW (SND tcb))"
  shows "ring_fetch (SND_Buffer (SND tcb)) p n = map str [p..<p + n]"
  using assms by (intro nth_equalityI) (auto simp: snd_agrees_def)

lemma seg_payload_stream:
  assumes "snd_agrees str tcb" and "seg \<in> set (RetransmissionQueue tcb)"
  shows "seg_payload tcb seg = map str [unat (SeqNum (TCPHeader seg))..<unat (SeqNum (TCPHeader seg)) + unat (PayloadLen seg)]"
  unfolding seg_payload_def
  by (rule fetch_stream [OF assms(1)])
    (use assms in \<open>auto simp: snd_agrees_def seg_placed_def snd_ok_def u32_le_nat\<close>)

lemma agrees_write:
  assumes "snd_agrees str tcb" and "xs = map str [unat (SND_LBW (SND tcb))..<unat (SND_LBW (SND tcb)) + length xs]"
    and "length (unacked (SND tcb)) + length xs \<le> 65535" and "unat lbw = unat (SND_LBW (SND tcb)) + length xs"
  shows "snd_agrees str (tcb\<lparr>SND := (SND tcb)\<lparr>SND_Buffer := ring_store (SND_Buffer (SND tcb)) (unat (SND_LBW (SND tcb))) xs,
      SND_LBW := lbw\<rparr>\<rparr>)"
proof -
  let ?s = "SND tcb" and ?una = "unat (SND_UNA (SND tcb))" and ?lbw = "unat (SND_LBW (SND tcb))"
  let ?s' = "?s\<lparr>SND_Buffer := ring_store (SND_Buffer ?s) ?lbw xs, SND_LBW := lbw\<rparr>"
  have ok: "snd_ok ?s" using assms(1) by (simp add: snd_agrees_def)
  have lt: "?lbw + length xs < 2 ^ 32" using unat_u32_less [of lbw] assms(4) by simp
  note a = unacked_append [OF ok assms(3) lt assms(4)]
  have le: "?una \<le> ?lbw" using ok by (auto simp: snd_ok_def u32_le_nat)
  have "unacked ?s = map str [?una..<?lbw]"
    using fetch_stream [OF assms(1) order_refl, of "?lbw - ?una"] le by (simp add: unacked_def)
  then have "unacked ?s' = map str [?una..<?lbw] @ map str [?lbw..<?lbw + length xs]"
    using a(2) assms(2) by simp
  also have "\<dots> = map str [?una..<unat lbw]"
    unfolding assms(4) by (metis le map_append upt_add_eq_append)
  finally have u: "unacked ?s' = map str [?una..<unat lbw]" .
  have "ring_at (SND_Buffer ?s') p = str p" if "?una \<le> p" "p < unat lbw" for p
    using arg_cong [OF u, of "\<lambda>l. l ! (p - ?una)"] that by (simp add: unacked_def)
  then show ?thesis using assms(1) a(1) by (auto simp: snd_agrees_def seg_placed_def)
qed

section \<open>One segment of a burst\<close>

lemma send_payload_fetch:
  assumes "length (SND_Buffer (SND tcb)) = 65535" and "unat n \<le> 65535"
  shows "send_payload tcb n = Inr (ring_fetch (SND_Buffer (SND tcb)) (unat (SND_NXT (SND tcb))) (unat n))"
proof -
  let ?buf = "SND_Buffer (SND tcb)" and ?s = "unat (SND_NXT (SND tcb))"
  let ?ix = "SequenceToBufferInd (SND_NXT (SND tcb))" and ?i = "unat (SND_NXT (SND tcb)) mod 65535"
  have ix: "unat ?ix = ?i" by (simp add: u32_nat)
  have sum: "unat (?ix + n) = ?i + unat n" using ix assms(2) by (simp add: unat_add_u32)
  show ?thesis
  proof (cases "65535 \<le> ?i + unat n")
    case True
    then have c: "?ix + n \<ge> MAX_BUF_SIZE" by (simp add: u32_le_nat sum)
    then have "unat (?ix + n - MAX_BUF_SIZE) = ?i + unat n - 65535" using sum by (simp add: unat_sub_u32)
    then show ?thesis
      using c ring_fetch_wrap [of ?buf ?s "unat n"] assms True
      by (simp add: send_payload_def Let_def ix go_simps)
  next
    case False
    then have "\<not> ?ix + n \<ge> MAX_BUF_SIZE" by (simp add: u32_le_nat sum)
    then show ?thesis
      using ring_fetch_block [of ?s ?buf "unat n"] assms False
      by (simp add: send_payload_def Let_def ix sum go_simps)
  qed
qed

definition sent_segment :: "netstack \<Rightarrow> SocketData \<Rightarrow> TCB \<Rightarrow> u32 \<Rightarrow> RetransmitSegment" where
  "sent_segment ns key tcb n =
     (let payload = ring_fetch (SND_Buffer (SND tcb)) (unat (SND_NXT (SND tcb))) (unat n)
      in \<lparr>TCPHeader = data_header ns key tcb payload, PayloadLen = n\<rparr>)"

lemma sent_segment_sel [simp]:
  "SeqNum (TCPHeader (sent_segment ns key tcb n)) = SND_NXT (SND tcb)"
  "AckNum (TCPHeader (sent_segment ns key tcb n)) = RCV_NXT (RCV tcb)"
  "PayloadLen (sent_segment ns key tcb n) = n"
  by (simp_all add: sent_segment_def data_header_def Let_def)

lemma send_segment_step:
  assumes "length (SND_Buffer (SND tcb)) = 65535" and "sent < amt" and "\<not> Cancelled tcb"
  defines "n \<equiv> Min32 (amt - sent) MSS_DATA"
  shows "send_segment ns key amt sent tcb = Inr (SendAdvance amt sent n,
    tcb\<lparr>RetransmissionQueue := RetransmissionQueue tcb @ [sent_segment ns key tcb n]\<rparr>,
    [IPSend (queued_message ns key tcb (sent_segment ns key tcb n))])"
proof -
  have "unat n \<le> 1360" by (simp add: n_def unat_Min32)
  then have "send_payload tcb n = Inr (ring_fetch (SND_Buffer (SND tcb)) (unat (SND_NXT (SND tcb))) (unat n))"
    using assms(1) by (intro send_payload_fetch) auto
  then show ?thesis
    using assms(2,3)
    by (simp add: send_segment_def n_def [symmetric] Let_def queued_message_def)
      (simp add: sent_segment_def Let_def)
qed

lemma agrees_send:
  assumes "snd_agrees str tcb" and "unat (SND_NXT (SND tcb)) + unat n \<le> unat (SND_LBW (SND tcb))"
    and "RetransmissionQueue tcb' = RetransmissionQueue tcb @ [sent_segment ns key tcb n]"
    and "SND tcb' = (SND tcb)\<lparr>SND_NXT := SND_NXT (SND tcb) + n\<rparr>"
  shows "snd_agrees str tcb'" and "unat (SND_NXT (SND tcb')) = unat (SND_NXT (SND tcb)) + unat n"
proof -
  show n: "unat (SND_NXT (SND tcb')) = unat (SND_NXT (SND tcb)) + unat n"
    using assms(2,4) unat_u32_less [of "SND_LBW (SND tcb)"] by (simp add: unat_add_u32)
  have "SeqNum (TCPHeader seg) \<le> SND_NXT (SND tcb)" if "seg \<in> set (RetransmissionQueue tcb)" for seg
    using assms(1) that by (auto simp: snd_agrees_def seg_placed_def u32_le_nat)
  then show "snd_agrees str tcb'"
    using assms n by (auto simp: snd_agrees_def seg_placed_def snd_ok_def u32_le_nat sorted_append)
qed

section \<open>Bursts\<close>

fun Send_steps :: "nat \<Rightarrow> netstack \<Rightarrow> int \<Rightarrow> SocketData \<Rightarrow> send_pc \<Rightarrow> TCB \<Rightarrow> send_result go" where
  "Send_steps 0 ns now key pc tcb = Inr (pc, tcb, [])"
| "Send_steps (Suc k) ns now key pc tcb =
     gbind (Send_step ns now key pc tcb) (\<lambda>(pc1, tcb1, fx1).
       gbind (Send_steps k ns now key pc1 tcb1) (\<lambda>(pc2, tcb2, fx2). Inr (pc2, tcb2, fx1 @ fx2)))"

lemma Send_steps_add:
  "Send_steps (j + k) ns now key pc tcb =
     gbind (Send_steps j ns now key pc tcb) (\<lambda>(pc1, tcb1, fx1).
       gbind (Send_steps k ns now key pc1 tcb1) (\<lambda>(pc2, tcb2, fx2). Inr (pc2, tcb2, fx1 @ fx2)))"
proof (induction j arbitrary: pc tcb)
  case 0
  show ?case by (cases "Send_steps k ns now key pc tcb") auto
next
  case (Suc j)
  show ?case
    by (cases "Send_step ns now key pc tcb")
      (auto simp: Suc gbind_def simp del: Send_step.simps split: sum.splits prod.splits)
qed

lemma send_three_steps:
  assumes "length (SND_Buffer (SND tcb)) = 65535" and "sent < amt" and "\<not> Cancelled tcb"
  defines "n \<equiv> Min32 (amt - sent) MSS_DATA"
  shows "Send_steps 3 ns now key (SendSegment amt sent) tcb = Inr (SendSegment amt (sent + n),
    tcb\<lparr>RetransmissionQueue := RetransmissionQueue tcb @ [sent_segment ns key tcb n],
        SND := (SND tcb)\<lparr>SND_NXT := SND_NXT (SND tcb) + n\<rparr>,
        SegmentToTimestamp := (SegmentToTimestamp tcb)(SND_NXT (SND tcb) + n \<mapsto> now)\<rparr>,
    [IPSend (queued_message ns key tcb (sent_segment ns key tcb n)), NotifyRTO])"
  using send_segment_step [OF assms(1-3), of ns key]
  by (simp add: n_def numeral_3_eq_3 send_advance_def send_stamp_def)

definition segments_for :: "nat \<Rightarrow> nat" where
  \<comment> \<open>the number of segments \<open>n\<close> bytes are cut into\<close>
  "segments_for n = (n + 1359) div 1360"

lemma segments_for_step: "0 < n \<Longrightarrow> segments_for n = Suc (segments_for (n - min n 1360))"
proof -
  assume "0 < n"
  show ?thesis
  proof (cases "n \<le> 1360")
    case True
    with \<open>0 < n\<close> have "(n + 1359) div 1360 = 1" by (intro div_nat_eqI) auto
    then show ?thesis using True by (simp add: segments_for_def)
  next
    case False
    then have "n + 1359 = (n - 1360 + 1359) + 1360" by simp
    then have "(n + 1359) div 1360 = Suc ((n - 1360 + 1359) div 1360)" by simp
    then show ?thesis using False by (simp add: segments_for_def)
  qed
qed

definition burst_sent :: "netstack \<Rightarrow> SocketData \<Rightarrow> (nat \<Rightarrow> byte) \<Rightarrow> TCB \<Rightarrow> nat \<Rightarrow> TCB \<Rightarrow> effect list \<Rightarrow> bool" where
  \<comment> \<open>the next \<open>n\<close> bytes went out, in segments of at most one MSS, and are queued for retransmission\<close>
  "burst_sent ns key str tcb n tcb' fx \<longleftrightarrow> (\<exists>segs.
     RetransmissionQueue tcb' = RetransmissionQueue tcb @ segs
     \<and> ip_sends fx = map (queued_message ns key tcb) segs
     \<and> concat (map (seg_payload tcb) segs) = map str [unat (SND_NXT (SND tcb))..<unat (SND_NXT (SND tcb)) + n]
     \<and> (\<forall>seg \<in> set segs. 0 < PayloadLen seg \<and> PayloadLen seg \<le> MSS_DATA))
   \<and> unat (SND_NXT (SND tcb')) = unat (SND_NXT (SND tcb)) + n
   \<and> SND_Buffer (SND tcb') = SND_Buffer (SND tcb) \<and> SND_UNA (SND tcb') = SND_UNA (SND tcb)
   \<and> SND_LBW (SND tcb') = SND_LBW (SND tcb)"

lemma burst_sent_trans:
  assumes "burst_sent ns key str tcb m t1 fx1" and "burst_sent ns key str t1 n t2 fx2"
  shows "burst_sent ns key str tcb (m + n) t2 (fx1 @ fx2)"
proof -
  let ?p = "unat (SND_NXT (SND tcb))"
  have "[?p..<?p + (m + n)] = [?p..<?p + m] @ [?p + m..<?p + m + n]"
    by (metis add.assoc le_add1 upt_add_eq_append)
  moreover have "queued_message ns key t1 = queued_message ns key tcb" "seg_payload t1 = seg_payload tcb"
    using assms(1) by (auto simp: burst_sent_def queued_message_def seg_payload_def fun_eq_iff)
  ultimately show ?thesis
    using assms unfolding burst_sent_def by (elim exE conjE) (rule conjI, rule exI [of _ "_ @ _"], auto)
qed

lemma burst_sent_one:
  assumes "snd_agrees str tcb" and "0 < n" and "n \<le> MSS_DATA"
    and "unat (SND_NXT (SND tcb)) + unat n \<le> unat (SND_LBW (SND tcb))"
    and "RetransmissionQueue tcb' = RetransmissionQueue tcb @ [sent_segment ns key tcb n]"
    and "SND tcb' = (SND tcb)\<lparr>SND_NXT := SND_NXT (SND tcb) + n\<rparr>"
  shows "burst_sent ns key str tcb (unat n) tcb' [IPSend (queued_message ns key tcb (sent_segment ns key tcb n)), NotifyRTO]"
proof -
  have "SND_UNA (SND tcb) \<le> SND_NXT (SND tcb)" using assms(1) by (simp add: snd_agrees_def snd_ok_def)
  then have "seg_payload tcb (sent_segment ns key tcb n)
      = map str [unat (SND_NXT (SND tcb))..<unat (SND_NXT (SND tcb)) + unat n]"
    using fetch_stream [OF assms(1) _ assms(4)] by (simp add: seg_payload_def u32_le_nat)
  moreover have "unat (SND_NXT (SND tcb')) = unat (SND_NXT (SND tcb)) + unat n"
    using agrees_send [OF assms(1,4,5,6)] by simp
  ultimately show ?thesis using assms by (simp add: burst_sent_def)
qed

lemma send_burst:
  assumes "snd_agrees str tcb" and "\<not> Cancelled tcb" and "sent \<le> amt"
    and "unat (SND_NXT (SND tcb)) + unat (amt - sent) \<le> unat (SND_LBW (SND tcb))"
    and "k = segments_for (unat (amt - sent))"
  shows "\<exists>tcb' fx. Send_steps (3 * k) ns now key (SendSegment amt sent) tcb = Inr (SendSegment amt amt, tcb', fx)
    \<and> snd_agrees str tcb' \<and> burst_sent ns key str tcb (unat (amt - sent)) tcb' fx"
  using assms
proof (induction k arbitrary: tcb sent)
  case 0
  then have "unat (amt - sent) = 0" using segments_for_step [of "unat (amt - sent)"] by fastforce
  moreover from this have "sent = amt" by (simp add: unat_eq_0)
  ultimately show ?case using "0.prems"(1) by (simp add: burst_sent_def)
next
  case (Suc k)
  let ?d = "unat (amt - sent)" and ?n = "Min32 (amt - sent) MSS_DATA"
  have d: "0 < ?d" using Suc.prems(5) by (cases "?d = 0") (auto simp: segments_for_def)
  then have lt: "sent < amt" using Suc.prems(3) by (simp add: u32_less_nat unat_sub_u32)
  have n: "unat ?n = min ?d 1360" by (simp add: unat_Min32)
  let ?t = "tcb\<lparr>RetransmissionQueue := RetransmissionQueue tcb @ [sent_segment ns key tcb ?n],
        SND := (SND tcb)\<lparr>SND_NXT := SND_NXT (SND tcb) + ?n\<rparr>,
        SegmentToTimestamp := (SegmentToTimestamp tcb)(SND_NXT (SND tcb) + ?n \<mapsto> now)\<rparr>"
  have fits: "unat (SND_NXT (SND tcb)) + unat ?n \<le> unat (SND_LBW (SND tcb))" using Suc.prems(4) n by simp
  note a = agrees_send [OF Suc.prems(1) fits, of ?t ns key, simplified]
  have n': "0 < ?n" "?n \<le> MSS_DATA" using d n by (auto simp: u32_less_nat u32_le_nat)
  have b: "burst_sent ns key str tcb (unat ?n) ?t [IPSend (queued_message ns key tcb (sent_segment ns key tcb ?n)), NotifyRTO]"
    by (rule burst_sent_one [OF Suc.prems(1) n' fits]) simp_all
  have le: "unat sent \<le> unat amt" "?d = unat amt - unat sent"
    using Suc.prems(3) by (simp_all add: u32_le_nat unat_sub_u32)
  have e: "unat (sent + ?n) = unat sent + unat ?n"
    using le n unat_u32_less [of amt] by (subst unat_add_u32) auto
  then have le': "sent + ?n \<le> amt" using le n by (simp add: u32_le_nat)
  then have rest: "unat (amt - (sent + ?n)) = ?d - unat ?n" using e le by (simp add: unat_sub_u32)
  obtain t2 fx2 where t2: "Send_steps (3 * k) ns now key (SendSegment amt (sent + ?n)) ?t = Inr (SendSegment amt amt, t2, fx2)"
    "snd_agrees str t2" "burst_sent ns key str ?t (unat (amt - (sent + ?n))) t2 fx2"
    using Suc.IH [of ?t "sent + ?n"] a(1) le' Suc.prems(2,4,5) rest n d segments_for_step [OF d] fits a(2) by auto
  have "length (SND_Buffer (SND tcb)) = 65535" using Suc.prems(1) by (simp add: snd_agrees_def snd_ok_def)
  note s3 = send_three_steps [OF this lt Suc.prems(2), of ns now key]
  moreover have "3 * Suc k = 3 + 3 * k" by simp
  moreover have "unat ?n + unat (amt - (sent + ?n)) = ?d" using rest n by simp
  ultimately show ?case
    using t2(1,2) burst_sent_trans [OF b t2(3)] by (simp only: Send_steps_add [of 3 "3 * k"] gbind_simps prod.case) simp
qed

lemma send_plan_amount:
  assumes "snd_ok (SND tcb)" and "SND_NXT (SND tcb) - SND_UNA (SND tcb) < send_window tcb"
    and "unat (SND_UNA (SND tcb)) + unat (send_window tcb) < 2 ^ 32"
  obtains amt where "send_plan tcb = (SendSegment amt 0, tcb, [])"
    and "unat amt = min (unat (SND_UNA (SND tcb)) + unat (send_window tcb)) (unat (SND_LBW (SND tcb))) - unat (SND_NXT (SND tcb))"
proof -
  let ?s = "SND tcb"
  let ?amt = "Min32 (SND_UNA ?s + send_window tcb - SND_NXT ?s) (SND_LBW ?s - SND_NXT ?s)"
  have le: "unat (SND_UNA ?s) \<le> unat (SND_NXT ?s)" "SND_NXT ?s \<le> SND_LBW ?s"
    using assms(1) by (auto simp: snd_ok_def u32_le_nat)
  have win: "unat (SND_UNA ?s + send_window tcb) = unat (SND_UNA ?s) + unat (send_window tcb)"
    using assms(3) by (simp add: unat_add_u32)
  have "unat (SND_NXT ?s) < unat (SND_UNA ?s) + unat (send_window tcb)"
    using assms(2) le by (simp add: u32_less_nat unat_sub_u32 u32_le_nat)
  then have "unat (SND_UNA ?s + send_window tcb - SND_NXT ?s)
      = unat (SND_UNA ?s) + unat (send_window tcb) - unat (SND_NXT ?s)"
    using win by (subst unat_sub_u32) (auto simp: u32_le_nat)
  then have "unat ?amt = min (unat (SND_UNA ?s) + unat (send_window tcb)) (unat (SND_LBW ?s)) - unat (SND_NXT ?s)"
    using le by (simp add: unat_Min32 unat_sub_u32 min_diff)
  then show ?thesis by (intro that [of ?amt]) (simp_all add: send_plan_def Let_def)
qed

fun Write_steps :: "nat \<Rightarrow> VTCPConn \<Rightarrow> TCB \<Rightarrow> write_call \<Rightarrow> (TCB \<times> write_call \<times> effect list) go" where
  "Write_steps 0 vc tcb c = Inr (tcb, c, [])"
| "Write_steps (Suc k) vc tcb c =
     gbind (Write_step vc tcb c) (\<lambda>(tcb1, c1, fx1).
       gbind (Write_steps k vc tcb1 c1) (\<lambda>(tcb2, c2, fx2). Inr (tcb2, c2, fx1 @ fx2)))"

lemma full_iff: "snd_ok s \<Longrightarrow> SND_LBW s - SND_UNA s = MAX_BUF_SIZE \<longleftrightarrow> length (unacked s) = 65535"
  by (simp add: length_unacked u32_eq_nat)

definition write_inv :: "(nat \<Rightarrow> byte) \<Rightarrow> nat \<Rightarrow> TCB \<Rightarrow> write_call \<Rightarrow> bool" where
  "write_inv str base tcb c \<longleftrightarrow> snd_agrees str tcb \<and> write_wf c
     \<and> wr_data c = map str [base..<base + length (wr_data c)]
     \<and> unat (SND_LBW (SND tcb)) = base + unat (wr_written c)
     \<and> (\<forall>n. wr_pc c = WriteDone n None \<longrightarrow> unat (wr_written c) = length (wr_data c) \<and> unat n = length (wr_data c))"

lemma write_copy_inv:
  assumes "write_inv str base tcb c" and "base + length (wr_data c) < 2 ^ 32"
  obtains tcb' c' where "write_copy tcb c = Inr (tcb', c', [SignalSend])" and "write_inv str base tcb' c'"
    and "unat (wr_written c') = unat (wr_written c) + write_amount tcb c" and "wr_data c' = wr_data c"
    and "wr_pc c' = WriteLoop" and "State tcb' = State tcb" and "RetransmissionQueue tcb' = RetransmissionQueue tcb"
proof -
  let ?n = "write_amount tcb c" and ?a = "unat (wr_written c)" and ?lbw = "unat (SND_LBW (SND tcb))"
  let ?xs = "take ?n (drop ?a (wr_data c))"
  have inv: "snd_agrees str tcb" "snd_ok (SND tcb)" "write_wf c" "?lbw = base + ?a"
    "wr_data c = map str [base..<base + length (wr_data c)]"
    using assms(1) by (auto simp: write_inv_def snd_agrees_def)
  have n: "?a + ?n \<le> length (wr_data c)" "length (unacked (SND tcb)) + ?n \<le> 65535"
    using inv(2,3) by (auto simp: write_amount_def write_wf_def snd_ok_def unacked_def)
  have "?lbw + ?n < 2 ^ 32" using assms(2) n inv(4) by simp
  then obtain w lbw where w: "unat w = ?a + ?n" "unat lbw = ?lbw + ?n"
    "write_copy tcb c = Inr (tcb\<lparr>SND := (SND tcb)\<lparr>SND_Buffer := ring_store (SND_Buffer (SND tcb)) ?lbw ?xs, SND_LBW := lbw\<rparr>\<rparr>,
        c\<lparr>wr_written := w, wr_pc := WriteLoop\<rparr>, [SignalSend])"
    using write_copy_store [OF inv(2,3)] by metis
  have len: "length ?xs = ?n" using n(1) by simp
  have "?xs = map str (take ?n (drop ?a [base..<base + length (wr_data c)]))"
    by (subst inv(5)) (simp only: take_map drop_map)
  also have "\<dots> = map str [?lbw..<?lbw + ?n]"
    using n(1) inv(4) by (simp add: take_upt)
  finally have "?xs = map str [?lbw..<?lbw + length ?xs]" using len by simp
  from agrees_write [OF inv(1) this] show ?thesis
    using w n len inv assms(1) by (intro that [OF w(3)]) (auto simp: write_inv_def write_wf_def)
qed

section \<open>Properties\<close>

text \<open>
  The application writes \<open>data\<close>, the bytes of the stream from position \<open>base\<close> on. Every step of
  \<open>Write\<close> keeps the unacknowledged part of the stream intact in the send buffer and has put
  exactly the first \<open>wr_written\<close> bytes of the data behind it, whether the data fits or the call has to
  wait for acknowledgements; it returns without error only when all of it is in the buffer.
\<close>

lemma Write_step_stream:
  assumes "write_inv str base tcb c" and "base + length (wr_data c) < 2 ^ 32"
  shows "\<exists>tcb' c' fx. Write_step vc tcb c = Inr (tcb', c', fx) \<and> write_inv str base tcb' c'
    \<and> wr_written c \<le> wr_written c' \<and> RetransmissionQueue tcb' = RetransmissionQueue tcb"
proof -
  have room: "\<exists>tcb' c' fx. write_room tcb c = Inr (tcb', c', fx) \<and> write_inv str base tcb' c'
      \<and> wr_written c \<le> wr_written c' \<and> RetransmissionQueue tcb' = RetransmissionQueue tcb"
  proof (cases "SND_LBW (SND tcb) - SND_UNA (SND tcb) = MAX_BUF_SIZE")
    case True
    then show ?thesis using assms(1) by (simp add: write_room_def write_inv_def write_wf_def)
  next
    case False
    show ?thesis
      by (rule write_copy_inv [OF assms]) (use False in \<open>auto simp: write_room_def u32_le_nat\<close>)
  qed
  have "unat (of_nat (length (wr_data c)) :: u32) = length (wr_data c)"
    using assms(1) by (simp add: write_inv_def write_wf_def unat_of_nat_u32)
  then have "unat (wr_written c) = length (wr_data c)" if "\<not> wr_written c < of_nat (length (wr_data c))"
    using that assms(1) by (simp add: write_inv_def write_wf_def u32_less_nat)
  with \<open>unat (of_nat _ :: u32) = _\<close> show ?thesis
    using room assms(1) by (auto simp: write_inv_def write_wf_def split: write_pc.splits)
qed

definition sample_write :: "nat \<Rightarrow> write_call" where
  "sample_write n = \<lparr>wr_data = map (\<lambda>p. of_nat p) [1001..<1001 + n], wr_written = 0, wr_pc = WriteLoop\<rparr>"

lemma sample_write_sel [simp]:
  "length (wr_data (sample_write n)) = n" "wr_pc (sample_write n) = WriteLoop" "wr_written (sample_write n) = 0"
  by (simp_all add: sample_write_def)

lemma sample_snd_agrees: "snd_agrees str sample_conn"
  by (auto simp: snd_agrees_def snd_ok_def)

lemma sample_write_inv: "n < 2 ^ 31 \<Longrightarrow> write_inv (\<lambda>p. of_nat p) 1001 sample_conn (sample_write n)"
  by (simp add: write_inv_def sample_snd_agrees write_wf_def) (simp add: sample_write_def)

text \<open>
  C33. Data that fits the free part of the send buffer is accepted at once: \<open>Write\<close> copies it behind
  the unacknowledged data, wakes the sender and returns the length of the data, without error.
\<close>

theorem Write_accepts_what_fits:
  assumes "snd_ok (SND tcb)" and "State tcb = ESTABLISHED \<or> State tcb = CLOSE_WAIT"
    and "wr_pc c = WriteLoop" and "wr_written c = 0" and "wr_data c \<noteq> []"
    and "length (unacked (SND tcb)) + length (wr_data c) \<le> 65535"
    and "unat (SND_LBW (SND tcb)) + length (wr_data c) < 2 ^ 32"
  shows "\<exists>tcb' c'. Write_steps 2 vc tcb c = Inr (tcb', c', [SignalSend])
    \<and> wr_pc c' = WriteDone (of_nat (length (wr_data c))) None
    \<and> snd_ok (SND tcb') \<and> unacked (SND tcb') = unacked (SND tcb) @ wr_data c"
proof -
  have len: "0 < length (wr_data c)" "length (wr_data c) < 2 ^ 32" using assms(5,6) by auto
  then have wf: "write_wf c" and amt: "write_amount tcb c = length (wr_data c)"
    using assms(4,6) by (auto simp: write_wf_def write_amount_def)
  obtain w lbw where w: "unat w = length (wr_data c)" "unat lbw = unat (SND_LBW (SND tcb)) + length (wr_data c)"
    "write_copy tcb c = Inr (tcb\<lparr>SND := (SND tcb)\<lparr>SND_Buffer := ring_store (SND_Buffer (SND tcb)) (unat (SND_LBW (SND tcb)))
          (wr_data c), SND_LBW := lbw\<rparr>\<rparr>, c\<lparr>wr_written := w, wr_pc := WriteLoop\<rparr>, [SignalSend])"
    using write_copy_store [OF assms(1) wf] assms(4,7) amt by auto
  have n: "unat (of_nat (length (wr_data c)) :: u32) = length (wr_data c)" using len by (simp add: unat_of_nat_u32)
  have "\<not> SND_LBW (SND tcb) - SND_UNA (SND tcb) = MAX_BUF_SIZE"
    using full_iff [OF assms(1)] len(1) assms(6) by simp
  then have "Write_steps 2 vc tcb c = Inr (tcb\<lparr>SND := (SND tcb)\<lparr>SND_Buffer := ring_store (SND_Buffer (SND tcb))
        (unat (SND_LBW (SND tcb))) (wr_data c), SND_LBW := lbw\<rparr>\<rparr>,
      c\<lparr>wr_written := w, wr_pc := WriteDone (of_nat (length (wr_data c))) None\<rparr>, [SignalSend])"
    using assms(2,3,4) w(1,3) n len(1)
    by (auto simp: numeral_2_eq_2 write_room_def u32_less_nat simp del: length_greater_0_conv)
  then show ?thesis using unacked_append [OF assms(1,6,7) w(2)] by simp
qed

theorem Write_accepts_what_fits_witness:
  "\<exists>vc tcb' c'. Write_steps 2 vc sample_conn (sample_write 5) = Inr (tcb', c', [SignalSend])
    \<and> wr_pc c' = WriteDone 5 None"
proof -
  have s: "snd_ok (SND sample_conn)" "unacked (SND sample_conn) = []"
    by (simp_all add: snd_ok_def unacked_def ring_fetch_def)
  have ne: "wr_data (sample_write 5) \<noteq> []" using length_0_conv [of "wr_data (sample_write 5)"] by simp
  from Write_accepts_what_fits [OF s(1) _ _ _ ne, of vc for vc] show ?thesis using s(2) by fastforce
qed

text \<open>
  C16. With data to send and room in the window, \<open>Send\<close> sends exactly the bytes from \<open>NXT\<close> up to the
  end of the data or of the window, the smaller of the peer's and the congestion window counted from
  \<open>UNA\<close>, whichever comes first: in sequence order, in segments of at most one MSS, each of them
  queued for retransmission, and the payloads put together are that piece of the stream.
\<close>

theorem Send_fills_window:
  fixes tcb :: TCB
  assumes "snd_agrees str tcb" and "\<not> Cancelled tcb"
    and "SND_NXT (SND tcb) - SND_UNA (SND tcb) < send_window tcb" and "SND_NXT (SND tcb) \<noteq> SND_LBW (SND tcb)"
    and "unat (SND_UNA (SND tcb)) + unat (send_window tcb) < 2 ^ 32"
  defines "n \<equiv> min (unat (SND_UNA (SND tcb)) + unat (send_window tcb)) (unat (SND_LBW (SND tcb))) - unat (SND_NXT (SND tcb))"
  shows "\<exists>tcb' fx amt. Send_steps (Suc (3 * segments_for n)) ns now key SendTop tcb = Inr (SendSegment amt amt, tcb', fx)
    \<and> 0 < n \<and> burst_sent ns key str tcb n tcb' fx \<and> snd_agrees str tcb'"
proof -
  have ok: "snd_ok (SND tcb)" using assms(1) by (simp add: snd_agrees_def)
  obtain amt where amt: "send_plan tcb = (SendSegment amt 0, tcb, [])" "unat amt = n"
    using send_plan_amount [OF ok assms(3,5)] by (auto simp: n_def)
  have le: "unat (SND_UNA (SND tcb)) \<le> unat (SND_NXT (SND tcb))" "unat (SND_NXT (SND tcb)) < unat (SND_LBW (SND tcb))"
    using ok assms(4) by (auto simp: snd_ok_def u32_le_nat u32_eq_nat)
  have "unat (SND_NXT (SND tcb)) < unat (SND_UNA (SND tcb)) + unat (send_window tcb)"
    using assms(3) le by (simp add: u32_less_nat unat_sub_u32 u32_le_nat)
  then have pos: "0 < n" "unat (SND_NXT (SND tcb)) + n \<le> unat (SND_LBW (SND tcb))" using le by (auto simp: n_def)
  obtain tcb' fx where b: "Send_steps (3 * segments_for n) ns now key (SendSegment amt 0) tcb = Inr (SendSegment amt amt, tcb', fx)"
    "snd_agrees str tcb'" "burst_sent ns key str tcb n tcb' fx"
    using send_burst [OF assms(1,2), of 0 amt "segments_for n" ns now key] amt(2) pos(2) by auto
  have "Send_step ns now key SendTop tcb = Inr (SendSegment amt 0, tcb, [])"
    using assms(3,4) amt(1) by (simp add: send_inner_def send_data_wait_def)
  then show ?thesis using b pos(1) by auto
qed

definition sample_sending :: TCB where
  \<comment> \<open>a connection with 3000 bytes to send\<close>
  "sample_sending = sample_conn\<lparr>SND := (SND sample_conn)\<lparr>SND_LBW := 4001\<rparr>, CWND := 65535\<rparr>"

lemma sample_sending_sel [simp]:
  "SND sample_sending = (SND sample_conn)\<lparr>SND_LBW := 4001\<rparr>" "CWND sample_sending = 65535" "Cancelled sample_sending = False"
  "State sample_sending = ESTABLISHED" "RetransmissionQueue sample_sending = []" "RetransmitCounter sample_sending = 0"
  by (simp_all add: sample_sending_def)

lemma sample_sending_agrees: "snd_agrees (\<lambda>_. 0) sample_sending"
proof -
  have "ring_at make_buf p = 0" for p by (simp add: ring_at_def make_buf_def)
  then show ?thesis by (simp add: snd_agrees_def snd_ok_def)
qed

theorem Send_fills_window_witness:
  "\<exists>tcb' fx amt. Send_steps 10 rfc793 0 zero_SocketData SendTop sample_sending = Inr (SendSegment amt amt, tcb', fx)
    \<and> burst_sent rfc793 zero_SocketData (\<lambda>_. 0) sample_sending 3000 tcb' fx"
proof -
  have w: "unat (send_window sample_sending) = 65535" by (simp add: send_window_def unat_Min32)
  have "\<not> Cancelled sample_sending" "SND_NXT (SND sample_sending) - SND_UNA (SND sample_sending) < send_window sample_sending"
    "SND_NXT (SND sample_sending) \<noteq> SND_LBW (SND sample_sending)"
    "unat (SND_UNA (SND sample_sending)) + unat (send_window sample_sending) < 2 ^ 32"
    using w by (simp_all add: u32_less_nat)
  from Send_fills_window [OF sample_sending_agrees this, of rfc793 0 zero_SocketData] w show ?thesis
    by (auto simp: segments_for_def simp del: Send_steps.simps Send_step.simps)
qed

text \<open>
  C18. What the retransmission timer resends is the piece of the stream that belongs to the sequence
  number in the segment's header, however much has been written or acknowledged since it was
  first sent; the send window does not change.
\<close>

theorem retransmission_is_stream:
  assumes "snd_agrees str tcb" and "RetransmissionQueue tcb = seg # rest"
    and "State tcb \<noteq> TIME_WAIT" and "State tcb \<noteq> CLOSED" and "RetransmitCounter tcb \<noteq> MAX_RETRANSMISSIONS"
  shows "\<exists>tcb'. waitTimeout_fire ns now key tcb = Inr (tcb', [IPSend (ip_message ns (LocalAddr key) (DestAddr key) (TCPHeader seg)
        (map str [unat (SeqNum (TCPHeader seg))..<unat (SeqNum (TCPHeader seg)) + unat (PayloadLen seg)]))], True)
    \<and> snd_agrees str tcb' \<and> SND tcb' = SND tcb"
proof -
  have b: "length (SND_Buffer (SND tcb)) = 65535" "unat (PayloadLen seg) \<le> 65535" "RetransmitCounter tcb \<noteq> 5"
    using assms(1,2,5) by (auto simp: snd_agrees_def snd_ok_def seg_placed_def u32_le_nat MAX_RETRANSMISSIONS_def)
  obtain tcb' where "waitTimeout_fire ns now key tcb = Inr (tcb', [IPSend (queued_message ns key tcb seg)], True)"
    "SND tcb' = SND tcb" "RetransmissionQueue tcb' = seg # rest"
    using waitTimeout_fire_resends [OF assms(3,4,2) b] by metis
  then show ?thesis
    using seg_payload_stream [OF assms(1), of seg] assms(1,2)
    by (simp add: queued_message_def seg_payload_def snd_agrees_def)
qed

theorem retransmission_is_stream_witness:
  "\<exists>tcb tcb'. waitTimeout_fire rfc793 7 zero_SocketData tcb = Inr (tcb',
      [IPSend (ip_message rfc793 0 0 (TCPHeader (sample_segment 1001 3)) [0, 0, 0])], True)"
proof -
  let ?tcb = "sample_sending\<lparr>SND := (SND sample_sending)\<lparr>SND_NXT := 1004\<rparr>, RetransmissionQueue := [sample_segment 1001 3]\<rparr>"
  have "snd_agrees (\<lambda>_. 0) ?tcb"
    using sample_sending_agrees
    by (auto simp: snd_agrees_def snd_ok_def seg_placed_def sample_segment_def)
  from retransmission_is_stream [OF this, of "sample_segment 1001 3" "[]" rfc793 7 zero_SocketData] show ?thesis
    by - (rule exI [of _ ?tcb], auto simp: sample_segment_def MAX_RETRANSMISSIONS_def zero_SocketData_def)
qed

text \<open>
  A \<open>Write\<close> on a connection that is neither established nor half closed by the peer returns with an
  error and with the lock of the connection held.
\<close>

lemma Write_while_closing_keeps_lock:
  assumes "State tcb \<notin> {ESTABLISHED, CLOSE_WAIT}" and "wr_pc c = WriteLoop"
    and "wr_written c < of_nat (length (wr_data c))"
  shows "\<exists>c'. Write_step vc tcb c = Inr (tcb, c', [LeavesLocked]) \<and> wr_pc c' = WriteDone 0 (Some ''Connection is closing'')"
  using assms by simp

end
