(* ===== verification/Handlers.thy ===== *)
theory Handlers
  imports ReceivePath
begin

text \<open>
  The TCP state machine: \<open>ReceivePacket\<close> of \<open>src/pkg/tcp/tcp_handler.go\<close> and the handlers of
  \<open>src/pkg/tcp/tcp_segment_receive.go\<close>, one per connection state. A handler gets the parsed header
  (the source reads the same fields from the bytes through accessors) and returns the changed control
  block or the changed handler with the effects in order. The random initial sequence number of
  \<open>NewISS\<close> is the argument \<open>iss\<close>.
\<close>

section \<open>Opening a connection\<close>

definition new_conn :: TCB where
  \<comment> \<open>the fields that \<open>HandleStateListen\<close> and \<open>Connect\<close> set alike in a new control block\<close>
  "new_conn = zero_TCB\<lparr>SND := zero_Send\<lparr>SND_Buffer := make_buf\<rparr>, RCV := zero_Receive\<lparr>RCV_Buffer := make_buf\<rparr>,
     RTO := RTO_UPPER, SRTT := -1, CWND := MAX_BUF_SIZE\<rparr>"

definition HandleStateListen ::
  "netstack \<Rightarrow> u32 \<Rightarrow> TCPFields \<Rightarrow> u32 \<Rightarrow> u16 \<Rightarrow> u32 \<Rightarrow> u16 \<Rightarrow> SocketData \<Rightarrow> TCPHandler \<Rightarrow> TCPHandler \<times> effect list" where
  "HandleStateListen ns iss h localAddr srcPort destAddr destPort key t =
     (if has_flag h (TCPFlagAck ns) then (t, [])
      else if has_flag h (TCPFlagSyn ns)
      then let socketData = \<lparr>LocalAddr = localAddr, LocalPort = srcPort, DestAddr = destAddr, DestPort = destPort\<rparr>;
               tcb = new_conn\<lparr>State := SYN_RECEIVED, RTOTimeoutChan_cap := 49, ListenKey := key,
                 RCV := (RCV new_conn)\<lparr>RCV_NXT := SeqNum h + 1, RCV_LBR := SeqNum h + 1, RCV_IRS := SeqNum h, RCV_WND := MAX_BUF_SIZE\<rparr>,
                 SND := (SND new_conn)\<lparr>SND_ISS := iss, SND_NXT := iss + 1, SND_UNA := iss, SND_LBW := iss + 1\<rparr>\<rparr>;
               hdr = CreateTCPHeader ns localAddr destAddr (LocalPort socketData) destPort (SND_ISS (SND tcb))
                       (RCV_NXT (RCV tcb)) (TCPFlagSyn ns OR TCPFlagAck ns) (RCV_WND (RCV tcb)) []
           in (t\<lparr>SocketTable := (SocketTable t)(socketData \<mapsto> tcb)\<rparr>,
               [IPSend (ip_message ns localAddr destAddr hdr []), GoWaitForAckReceiver socketData])
      else (t, []))"

definition HandleStateSynSent ::
  "netstack \<Rightarrow> u32 \<Rightarrow> TCPFields \<Rightarrow> TCB \<Rightarrow> u32 \<Rightarrow> u16 \<Rightarrow> u32 \<Rightarrow> u16 \<Rightarrow> SocketData \<Rightarrow> TCB \<times> effect list" where
  "HandleStateSynSent ns iss h tcb localAddr srcPort destAddr destPort key =
     (if has_flag h (TCPFlagAck ns) \<and> (AckNum h \<le> SND_ISS (SND tcb) \<or> AckNum h > SND_NXT (SND tcb)) then (tcb, [])
      else if has_flag h (TCPFlagSyn ns)
      then let tcb1 = tcb\<lparr>RCV := (RCV tcb)\<lparr>RCV_NXT := SeqNum h + 1, RCV_LBR := SeqNum h + 1, RCV_IRS := SeqNum h\<rparr>,
                 SND := (SND tcb)\<lparr>SND_WND := ucast (WindowSize h), SND_UNA := AckNum h\<rparr>\<rparr>
           in if SND_UNA (SND tcb1) > SND_ISS (SND tcb1)
              then let tcb2 = tcb1\<lparr>State := ESTABLISHED, SND := (SND tcb1)\<lparr>SND_ISS := iss\<rparr>\<rparr>;
                       hdr = CreateTCPHeader ns (LocalAddr key) (DestAddr key) srcPort destPort (SND_NXT (SND tcb2))
                               (RCV_NXT (RCV tcb2)) (TCPFlagAck ns) MAX_BUF_SIZE []
                   in (tcb2, [NotifyReceiveChan key, IPSend (ip_message ns localAddr destAddr hdr []),
                              GoSend key, GoWaitTimeout key])
              else let tcb2 = tcb1\<lparr>State := SYN_RECEIVED, SND := (SND tcb1)\<lparr>SND_ISS := iss\<rparr>\<rparr>;
                       hdr = CreateTCPHeader ns (LocalAddr key) (DestAddr key) srcPort destPort (SND_ISS (SND tcb2))
                               (RCV_NXT (RCV tcb2)) (TCPFlagSyn ns OR TCPFlagAck ns) (RCV_WND (RCV tcb2)) []
                   in (tcb2, [IPSend (MarshallTCPHeader ns hdr destAddr)])
      else (tcb, []))"

definition HandleStateSynReceived ::
  "netstack \<Rightarrow> TCPFields \<Rightarrow> TCB \<Rightarrow> SocketData \<Rightarrow> byte list \<Rightarrow> TCPHandler \<Rightarrow> (TCPHandler \<times> effect list) go" where
  \<comment> \<open>after a simultaneous open \<open>RTOTimeoutChan\<close> has no buffer and nobody receives from it yet\<close>
  "HandleStateSynReceived ns h tcb key payload t =
     (if length payload > 0 then Inr (t, [])
      else
        let fx1 = (if has_flag h (TCPFlagSyn ns)
                   then [IPSend (ip_message ns (LocalAddr key) (DestAddr key)
                          (CreateTCPHeader ns (LocalAddr key) (DestAddr key) (LocalPort key) (DestPort key) (SND_ISS (SND tcb))
                             (RCV_NXT (RCV tcb)) (TCPFlagSyn ns OR TCPFlagAck ns) (RCV_WND (RCV tcb)) []) [])]
                   else [])
        in if has_flag h (TCPFlagAck ns)
           then if SND_UNA (SND tcb) < AckNum h \<and> AckNum h \<le> SND_NXT (SND tcb)
             then let tcb1 = tcb\<lparr>State := ESTABLISHED, SND := (SND tcb)\<lparr>SND_WND := ucast (WindowSize h)\<rparr>\<rparr>;
                      table1 = (SocketTable t)(key \<mapsto> tcb1)
                  in if RTOTimeoutChan_cap tcb1 = 0 then Inr (t\<lparr>SocketTable := table1\<rparr>, fx1 @ [BlocksForever])
                     else case table1 (ListenKey tcb1) of
                       None \<Rightarrow> Inl Panic
                     | Some listenerEntry \<Rightarrow>
                         Inr (t\<lparr>SocketTable := table1(ListenKey tcb1 \<mapsto>
                                 listenerEntry\<lparr>PendingConnections := PendingConnections listenerEntry @ [key]\<rparr>)\<rparr>,
                              fx1 @ [NotifyRTO, GoSend key, GoWaitTimeout key, SignalPendingConn (ListenKey tcb1)])
             else Inr (t, fx1)
           else Inr (t, fx1))"

section \<open>Data transfer and close\<close>

definition HandleEstablished ::
  "netstack \<Rightarrow> int \<Rightarrow> TCPFields \<Rightarrow> TCB \<Rightarrow> SocketData \<Rightarrow> byte list \<Rightarrow> (TCB \<times> effect list) go" where
  "HandleEstablished ns now h tcb key tcpPayload =
     (if has_flag h (TCPFlagFin ns) then Inr (ReceiveFin ns h key tcb)
      else Receive ns now h tcpPayload key tcb)"

definition HandleFinWait1 ::
  "netstack \<Rightarrow> int \<Rightarrow> TCPFields \<Rightarrow> TCB \<Rightarrow> SocketData \<Rightarrow> byte list \<Rightarrow> (TCB \<times> effect list) go" where
  "HandleFinWait1 ns now h tcb key tcpPayload =
     (if has_flag h (TCPFlagAck ns)
      then if AckNum h = SND_NXT (SND tcb) then Receive ns now h tcpPayload key (tcb\<lparr>State := FIN_WAIT_2\<rparr>)
      else if has_flag h (TCPFlagFin ns)
      then let tcb1 = tcb\<lparr>State := (if AckNum h = SND_NXT (SND tcb) - 1 then CLOSING else TIME_WAIT)\<rparr>;
               tcb2 = tcb1\<lparr>RCV := (RCV tcb1)\<lparr>RCV_NXT := RCV_NXT (RCV tcb1) + 1\<rparr>\<rparr>
           in Inr (tcb2, [IPSend (ack_message ns key tcb2 (RCV_NXT (RCV tcb2)))]
                     @ (if State tcb2 = TIME_WAIT then [GoWaitForClosed key] else []))
      else Receive ns now h tcpPayload key tcb
      else Inr (tcb, []))"

definition WaitForClosed_fire :: "SocketData \<Rightarrow> TCB \<Rightarrow> TCB \<times> effect list" where
  \<comment> \<open>the timer of 2 MSL fires; a message on \<open>ResetWaitChan\<close> before that only restarts it\<close>
  "WaitForClosed_fire key tcb = (tcb\<lparr>State := CLOSED\<rparr>, [NotifyReceiveChan key])"

definition HandleFinWait2 ::
  "netstack \<Rightarrow> int \<Rightarrow> TCPFields \<Rightarrow> TCB \<Rightarrow> SocketData \<Rightarrow> byte list \<Rightarrow> (TCB \<times> effect list) go" where
  "HandleFinWait2 ns now h tcb key tcpPayload =
     (if has_flag h (TCPFlagFin ns)
      then if SeqNum h \<noteq> RCV_NXT (RCV tcb) then Inr (tcb, [])
           else let tcb1 = tcb\<lparr>State := TIME_WAIT, RCV := (RCV tcb)\<lparr>RCV_NXT := RCV_NXT (RCV tcb) + 1\<rparr>, ResetWaitChan_made := True\<rparr>
                in Inr (tcb1, [IPSend (ack_message ns key tcb1 (RCV_NXT (RCV tcb1))), GoWaitForClosed key])
      else Receive ns now h tcpPayload key tcb)"

definition HandleClosing :: "netstack \<Rightarrow> TCPFields \<Rightarrow> TCB \<Rightarrow> SocketData \<Rightarrow> TCB \<times> effect list" where
  "HandleClosing ns h tcb key =
     (if has_flag h (TCPFlagAck ns) \<and> AckNum h = SND_NXT (SND tcb)
      then (tcb\<lparr>State := TIME_WAIT\<rparr>, [GoWaitForClosed key]) else (tcb, []))"

definition HandleTimeWait :: "netstack \<Rightarrow> TCPFields \<Rightarrow> TCB \<Rightarrow> SocketData \<Rightarrow> TCB \<times> effect list" where
  \<comment> \<open>the send on \<open>ResetWaitChan\<close> blocks for ever, with the lock, while the channel is nil\<close>
  "HandleTimeWait ns h tcb key =
     (if has_flag h (TCPFlagFin ns)
      then (tcb, IPSend (ack_message ns key tcb (RCV_NXT (RCV tcb)))
                 # (if ResetWaitChan_made tcb then [NotifyResetWait] else [BlocksForever, LeavesLocked]))
      else (tcb, []))"

definition HandleCloseWait :: "netstack \<Rightarrow> TCPFields \<Rightarrow> TCB \<Rightarrow> SocketData \<Rightarrow> TCB \<times> effect list" where
  "HandleCloseWait ns h tcb key =
     (if has_flag h (TCPFlagFin ns) then (tcb, [IPSend (ack_message ns key tcb (RCV_NXT (RCV tcb)))]) else (tcb, []))"

definition HandleLastAck :: "netstack \<Rightarrow> TCPFields \<Rightarrow> TCB \<Rightarrow> SocketData \<Rightarrow> TCB \<times> effect list" where
  "HandleLastAck ns h tcb key =
     (if has_flag h (TCPFlagAck ns) \<and> AckNum h = SND_NXT (SND tcb)
      then (removeFromRetransmissionQueue (tcb\<lparr>State := CLOSED\<rparr>) (AckNum h), [NotifyReceiveChan key])
      else (tcb, []))"

section \<open>Dispatch\<close>

definition with_tcb :: "SocketData \<Rightarrow> TCPHandler \<Rightarrow> TCB \<times> effect list \<Rightarrow> TCPHandler \<times> effect list" where
  "with_tcb key t r = (t\<lparr>SocketTable := (SocketTable t)(key \<mapsto> fst r)\<rparr>, snd r)"

definition dispatch ::
  "netstack \<Rightarrow> int \<Rightarrow> u32 \<Rightarrow> TCPFields \<Rightarrow> byte list \<Rightarrow> u32 \<Rightarrow> u16 \<Rightarrow> u32 \<Rightarrow> u16 \<Rightarrow> SocketData \<Rightarrow> TCB \<Rightarrow> TCPHandler
    \<Rightarrow> (TCPHandler \<times> effect list) go" where
  \<comment> \<open>the switch on the state of the connection\<close>
  "dispatch ns now iss h tcpPayload localAddr srcPort destAddr destPort key tcb t =
     (case State tcb of
        CLOSED \<Rightarrow> Inr (t, [])
      | LISTEN \<Rightarrow> Inr (HandleStateListen ns iss h localAddr srcPort destAddr destPort key t)
      | SYN_SENT \<Rightarrow> Inr (with_tcb key t (HandleStateSynSent ns iss h tcb localAddr srcPort destAddr destPort key))
      | SYN_RECEIVED \<Rightarrow> HandleStateSynReceived ns h tcb key tcpPayload t
      | ESTABLISHED \<Rightarrow> gbind (HandleEstablished ns now h tcb key tcpPayload) (\<lambda>r. Inr (with_tcb key t r))
      | FIN_WAIT_1 \<Rightarrow> gbind (HandleFinWait1 ns now h tcb key tcpPayload) (\<lambda>r. Inr (with_tcb key t r))
      | FIN_WAIT_2 \<Rightarrow> gbind (HandleFinWait2 ns now h tcb key tcpPayload) (\<lambda>r. Inr (with_tcb key t r))
      | CLOSING \<Rightarrow> Inr (with_tcb key t (HandleClosing ns h tcb key))
      | TIME_WAIT \<Rightarrow> Inr (with_tcb key t (HandleTimeWait ns h tcb key))
      | CLOSE_WAIT \<Rightarrow> Inr (with_tcb key t (HandleCloseWait ns h tcb key))
      | LAST_ACK \<Rightarrow> Inr (with_tcb key t (HandleLastAck ns h tcb key)))"

definition socket_key :: "TCPHandler \<Rightarrow> u32 \<Rightarrow> u16 \<Rightarrow> u32 \<Rightarrow> u16 \<Rightarrow> SocketData" where
  \<comment> \<open>the key of the connection, or of the listener if there is one and no such connection\<close>
  "socket_key t localAddr srcPort destAddr destPort =
     (let key = \<lparr>LocalAddr = localAddr, LocalPort = srcPort, DestAddr = destAddr, DestPort = destPort\<rparr>;
          listenerKey = \<lparr>LocalAddr = localAddr, LocalPort = srcPort, DestAddr = 0, DestPort = 0\<rparr>
      in if SocketTable t key = None \<and> SocketTable t listenerKey \<noteq> None then listenerKey else key)"

definition ReceivePacket ::
  "netstack \<Rightarrow> int \<Rightarrow> u32 \<Rightarrow> byte list \<Rightarrow> u32 \<Rightarrow> u32 \<Rightarrow> TCPHandler \<Rightarrow> (TCPHandler \<times> effect list) go" where
  \<comment> \<open>\<open>localAddr\<close> and \<open>destAddr\<close> are the destination and the source of the IP packet\<close>
  "ReceivePacket ns now iss tcpData localAddr destAddr t =
     gbind (TCP_DataOffset ns tcpData) (\<lambda>off.
     gbind (slice tcpData (unat off) (length tcpData)) (\<lambda>tcpPayload.
     gbind (ParseTCPHeader ns tcpData) (\<lambda>h.
       let srcPort = DstPort h; destPort = SrcPort h;
           originalChecksum = Checksum h;
           computedChecksum = ComputeTCPChecksum ns (h\<lparr>Checksum := 0\<rparr>) localAddr destAddr tcpPayload
       in if computedChecksum \<noteq> originalChecksum then Inr (t, [])
          else
            let key = socket_key t localAddr srcPort destAddr destPort
            in case SocketTable t key of
                 None \<Rightarrow> Inr (t, [])
               | Some tcb \<Rightarrow> dispatch ns now iss h tcpPayload localAddr srcPort destAddr destPort key tcb t)))"

text \<open>A segment built by \<open>CreateTCPHeader\<close> at the peer reaches the handler of the connection's state.\<close>

lemma ReceivePacket_built:
  assumes "netstack_ok ns"
  shows "ReceivePacket ns now iss (MarshallTCPHeader ns (CreateTCPHeader ns src dst sp dp sq ak fl wnd payload) dst @ payload) dst src t
    = (case SocketTable t (socket_key t dst dp src sp) of
         None \<Rightarrow> Inr (t, [])
       | Some tcb \<Rightarrow> dispatch ns now iss (CreateTCPHeader ns src dst sp dp sq ak fl wnd payload) payload dst dp src sp
           (socket_key t dst dp src sp) tcb t)"
proof -
  let ?h = "CreateTCPHeader ns src dst sp dp sq ak fl wnd payload"
  have "TCP_DataOffset ns (MarshallTCPHeader ns ?h dst @ payload) = Inr 20"
    using assms by (simp add: netstack_ok_def accessors_ok_def MarshallTCPHeader_def)
  moreover have "slice (MarshallTCPHeader ns ?h dst @ payload) 20 (length (MarshallTCPHeader ns ?h dst @ payload)) = Inr payload"
    using assms by (simp add: netstack_ok_def MarshallTCPHeader_def slice_def)
  moreover have "accessors_ok ns" "header_Checksum ns = rfc1071"
    using assms by (simp_all add: netstack_ok_def)
  ultimately show ?thesis
    by (simp add: ReceivePacket_def built_header_parses built_header_checksum Let_def split: option.split)
qed

section \<open>State transitions\<close>

text \<open>The transitions an arriving segment may cause, as in the diagram of RFC 793.\<close>

inductive tcp_edge :: "ConnectionState \<Rightarrow> ConnectionState \<Rightarrow> bool" where
  "tcp_edge LISTEN SYN_RECEIVED"
| "tcp_edge SYN_SENT ESTABLISHED"
| "tcp_edge SYN_SENT SYN_RECEIVED"
| "tcp_edge SYN_RECEIVED ESTABLISHED"
| "tcp_edge ESTABLISHED CLOSE_WAIT"
| "tcp_edge FIN_WAIT_1 FIN_WAIT_2"
| "tcp_edge FIN_WAIT_1 CLOSING"
| "tcp_edge FIN_WAIT_1 TIME_WAIT"
| "tcp_edge FIN_WAIT_2 TIME_WAIT"
| "tcp_edge CLOSING TIME_WAIT"
| "tcp_edge LAST_ACK CLOSED"

definition fin_jump :: "TCB \<Rightarrow> TCB \<Rightarrow> bool" where
  \<comment> \<open>the remembered FIN of the peer is reached after this side has closed\<close>
  "fin_jump tcb tcb' \<longleftrightarrow> State tcb \<in> {FIN_WAIT_1, FIN_WAIT_2} \<and> State tcb' = CLOSE_WAIT
     \<and> RCV_NXT (RCV tcb') = PendingReceivedFin tcb'"

definition moves :: "TCB \<Rightarrow> TCB \<Rightarrow> bool" where
  "moves tcb tcb' \<longleftrightarrow> State tcb' = State tcb \<or> tcp_edge (State tcb) (State tcb') \<or> fin_jump tcb tcb'"

lemma moves_refl [simp]: "moves tcb tcb"
  by (simp add: moves_def)

text \<open>An acknowledgement changes neither the state nor the receive window.\<close>

lemma fastRetransmit_keeps:
  "fastRetransmit ns now key tcb = Inr (tcb', fx) \<Longrightarrow>
    State tcb' = State tcb \<and> RCV tcb' = RCV tcb \<and> PendingReceivedFin tcb' = PendingReceivedFin tcb"
  by (auto simp: fastRetransmit_def retransmit_first_def AfterLoss_def gbind_Inr_iff Let_def split: list.splits)

lemma updateTimeout_keeps:
  "updateTimeout now tcb a = (tcb', fx) \<Longrightarrow>
    State tcb' = State tcb \<and> RCV tcb' = RCV tcb \<and> PendingReceivedFin tcb' = PendingReceivedFin tcb"
  using updateTimeout_frame by (auto simp: same_receiver_def)

lemma receive_ack_keeps:
  "receive_ack ns now key h tcb = Inr (tcb', fx) \<Longrightarrow>
    State tcb' = State tcb \<and> RCV tcb' = RCV tcb \<and> PendingReceivedFin tcb' = PendingReceivedFin tcb"
  by (auto simp: receive_ack_def Let_def UpdateCWNDWindow_def gbind_Inr_iff
      dest!: fastRetransmit_keeps updateTimeout_keeps split: if_splits prod.splits)

lemma receive_data_state:
  assumes "receive_data ns key sq payload tcb = Inr (tcb', fx)"
  shows "State tcb' = State tcb \<or> State tcb' = CLOSE_WAIT \<and> RCV_NXT (RCV tcb') = PendingReceivedFin tcb'"
  using assms
  by (auto simp: receive_data_def Let_def gbind_Inr_iff updateAckNum_drain split: if_splits)

lemma Receive_state:
  assumes "Receive ns now h payload key tcb = Inr (tcb', fx)"
  shows "State tcb' = State tcb \<or> State tcb' = CLOSE_WAIT \<and> RCV_NXT (RCV tcb') = PendingReceivedFin tcb'"
  using assms
  by (auto simp: Receive_def gbind_Inr_iff dest!: receive_data_state receive_ack_keeps split: if_splits)

lemmas tcp_edges [simp] = tcp_edge.intros

lemma Receive_moves:
  assumes "Receive ns now h payload key tcb = Inr (tcb', fx)" and "State tcb \<in> {ESTABLISHED, FIN_WAIT_1, FIN_WAIT_2}"
  shows "moves tcb tcb'"
  using Receive_state [OF assms(1)] assms(2) by (auto simp: moves_def fin_jump_def)

lemma HandleEstablished_moves:
  "State tcb = ESTABLISHED \<Longrightarrow> HandleEstablished ns now h tcb key payload = Inr (tcb', fx) \<Longrightarrow> moves tcb tcb'"
  by (auto simp: HandleEstablished_def ReceiveFin_def Let_def moves_def split: if_splits
      dest!: Receive_state)

lemma HandleFinWait1_moves:
  assumes "State tcb = FIN_WAIT_1" and "HandleFinWait1 ns now h tcb key payload = Inr (tcb', fx)"
  shows "moves tcb tcb'"
  using assms
  by (auto simp: HandleFinWait1_def Let_def moves_def fin_jump_def split: if_splits dest!: Receive_state)

lemma HandleFinWait2_moves:
  assumes "State tcb = FIN_WAIT_2" and "HandleFinWait2 ns now h tcb key payload = Inr (tcb', fx)"
  shows "moves tcb tcb'"
  using assms
  by (auto simp: HandleFinWait2_def Let_def moves_def fin_jump_def split: if_splits dest!: Receive_state)

lemma quiet_handlers_move:
  "State tcb = SYN_SENT \<Longrightarrow> moves tcb (fst (HandleStateSynSent ns iss h tcb la sp da dp key))"
  "State tcb = CLOSING \<Longrightarrow> moves tcb (fst (HandleClosing ns h tcb key))"
  "State tcb = CLOSE_WAIT \<Longrightarrow> moves tcb (fst (HandleCloseWait ns h tcb key))"
  "State tcb = LAST_ACK \<Longrightarrow> moves tcb (fst (HandleLastAck ns h tcb key))"
  "moves tcb (fst (HandleTimeWait ns h tcb key))"
  by (auto simp: HandleStateSynSent_def HandleClosing_def HandleCloseWait_def HandleLastAck_def HandleTimeWait_def
      Let_def moves_def split: if_splits)

definition table_moves :: "TCPHandler \<Rightarrow> TCPHandler \<Rightarrow> bool" where
  "table_moves t t' \<longleftrightarrow> (\<forall>k tcb. SocketTable t k = Some tcb \<longrightarrow> (\<exists>tcb'. SocketTable t' k = Some tcb' \<and> moves tcb tcb'))"

lemma table_moves_refl [simp]: "table_moves t t"
  by (simp add: table_moves_def)

lemma table_moves_with_tcb:
  "SocketTable t key = Some tcb \<Longrightarrow> moves tcb (fst r) \<Longrightarrow> table_moves t (fst (with_tcb key t r))"
  by (auto simp: table_moves_def with_tcb_def)

lemma table_moves_bind:
  assumes "SocketTable t key = Some tcb" and "gbind m (\<lambda>r. Inr (with_tcb key t r)) = Inr (t', fx)"
    and "\<And>tcb' fx'. m = Inr (tcb', fx') \<Longrightarrow> moves tcb tcb'"
  shows "table_moves t t'"
proof -
  obtain r where r: "m = Inr r" "with_tcb key t r = (t', fx)" using assms(2) by (auto simp: gbind_Inr_iff)
  then show ?thesis using table_moves_with_tcb [OF assms(1), of r] assms(3) [of "fst r" "snd r"] by simp
qed

lemma HandleStateListen_moves:
  assumes "SocketTable t key = Some tcb" and "State tcb = LISTEN"
    and "SocketTable t \<lparr>LocalAddr = la, LocalPort = sp, DestAddr = da, DestPort = dp\<rparr> = None
      \<or> key = \<lparr>LocalAddr = la, LocalPort = sp, DestAddr = da, DestPort = dp\<rparr>"
  shows "table_moves t (fst (HandleStateListen ns iss h la sp da dp key t))"
  using assms by (auto simp: table_moves_def HandleStateListen_def Let_def moves_def)

lemma HandleStateSynReceived_moves:
  assumes "SocketTable t key = Some tcb" and "State tcb = SYN_RECEIVED"
    and "HandleStateSynReceived ns h tcb key payload t = Inr (t', fx)"
  shows "table_moves t t'"
  using assms
  by (auto simp: table_moves_def HandleStateSynReceived_def Let_def moves_def split: if_splits option.splits)

lemma dispatch_moves:
  assumes "SocketTable t key = Some tcb"
    and "SocketTable t \<lparr>LocalAddr = la, LocalPort = sp, DestAddr = da, DestPort = dp\<rparr> = None
      \<or> key = \<lparr>LocalAddr = la, LocalPort = sp, DestAddr = da, DestPort = dp\<rparr>"
    and "dispatch ns now iss h payload la sp da dp key tcb t = Inr (t', fx)"
  shows "table_moves t t'"
proof -
  note wt = table_moves_with_tcb [OF assms(1)]
  show ?thesis
  proof (cases "State tcb")
    case LISTEN
    then show ?thesis
      using HandleStateListen_moves [OF assms(1) LISTEN assms(2), of ns iss h] assms(3) by (simp add: dispatch_def)
  next
    case SYN_RECEIVED
    then show ?thesis
      using HandleStateSynReceived_moves [OF assms(1)] assms(3) by (simp add: dispatch_def)
  next
    case SYN_SENT
    then show ?thesis
      using wt [OF quiet_handlers_move(1) [OF SYN_SENT, of ns iss h la sp da dp key]] assms(3) by (simp add: dispatch_def)
  next
    case ESTABLISHED
    with assms(3) have "gbind (HandleEstablished ns now h tcb key payload) (\<lambda>r. Inr (with_tcb key t r)) = Inr (t', fx)"
      by (simp add: dispatch_def)
    then show ?thesis by (rule table_moves_bind [OF assms(1) _ HandleEstablished_moves [OF ESTABLISHED]])
  next
    case FIN_WAIT_1
    with assms(3) have "gbind (HandleFinWait1 ns now h tcb key payload) (\<lambda>r. Inr (with_tcb key t r)) = Inr (t', fx)"
      by (simp add: dispatch_def)
    then show ?thesis by (rule table_moves_bind [OF assms(1) _ HandleFinWait1_moves [OF FIN_WAIT_1]])
  next
    case FIN_WAIT_2
    with assms(3) have "gbind (HandleFinWait2 ns now h tcb key payload) (\<lambda>r. Inr (with_tcb key t r)) = Inr (t', fx)"
      by (simp add: dispatch_def)
    then show ?thesis by (rule table_moves_bind [OF assms(1) _ HandleFinWait2_moves [OF FIN_WAIT_2]])
  next
    case TIME_WAIT
    then show ?thesis
      using wt [OF quiet_handlers_move(5) [of tcb ns h key]] assms(3) by (simp add: dispatch_def)
  next
    case CLOSING
    then show ?thesis
      using wt [OF quiet_handlers_move(2) [OF CLOSING, of ns h key]] assms(3) by (simp add: dispatch_def)
  next
    case CLOSE_WAIT
    then show ?thesis
      using wt [OF quiet_handlers_move(3) [OF CLOSE_WAIT, of ns h key]] assms(3) by (simp add: dispatch_def)
  next
    case LAST_ACK
    then show ?thesis
      using wt [OF quiet_handlers_move(4) [OF LAST_ACK, of ns h key]] assms(3) by (simp add: dispatch_def)
  next
    case CLOSED
    then show ?thesis using assms(3) by (simp add: dispatch_def)
  qed
qed

section \<open>Properties\<close>

text \<open>
  C15. An arriving packet removes no socket from the table and moves every socket, if at all, along an
  edge of the TCP state diagram, with one exception: a side that has already closed jumps from
  FIN_WAIT_1 or FIN_WAIT_2 to CLOSE_WAIT when the data in front of a remembered FIN arrives.
\<close>

theorem ReceivePacket_transitions:
  assumes "ReceivePacket ns now iss tcpData localAddr destAddr t = Inr (t', fx)"
    and "SocketTable t k = Some tcb"
  shows "\<exists>tcb'. SocketTable t' k = Some tcb' \<and> (State tcb' = State tcb \<or> tcp_edge (State tcb) (State tcb')
    \<or> State tcb \<in> {FIN_WAIT_1, FIN_WAIT_2} \<and> State tcb' = CLOSE_WAIT \<and> RCV_NXT (RCV tcb') = PendingReceivedFin tcb')"
proof -
  have "table_moves t t'"
    using assms(1)
    by (auto simp: ReceivePacket_def socket_key_def gbind_Inr_iff Let_def split: if_splits option.splits
        intro: dispatch_moves)
  then show ?thesis using assms(2) by (auto simp: table_moves_def moves_def fin_jump_def)
qed

definition sample_last_ack :: TCPHandler where
  "sample_last_ack = \<lparr>SocketTable = [\<lparr>LocalAddr = 2, LocalPort = 7, DestAddr = 1, DestPort = 9\<rparr> \<mapsto> sample_conn\<lparr>State := LAST_ACK\<rparr>],
     HandlerLocalAddr = 2, CurrentPort = 1025, Listeners = []\<rparr>"

theorem ReceivePacket_transitions_witness:
  "\<exists>t' tcb'. ReceivePacket rfc793 0 0
       (MarshallTCPHeader rfc793 (CreateTCPHeader rfc793 1 2 9 7 501 1001 16 65535 []) 2 @ []) 2 1 sample_last_ack
       = Inr (t', [NotifyReceiveChan \<lparr>LocalAddr = 2, LocalPort = 7, DestAddr = 1, DestPort = 9\<rparr>])
     \<and> SocketTable t' \<lparr>LocalAddr = 2, LocalPort = 7, DestAddr = 1, DestPort = 9\<rparr> = Some tcb'
     \<and> (State tcb' = LAST_ACK \<or> tcp_edge LAST_ACK (State tcb'))"
proof -
  let ?k = "\<lparr>LocalAddr = 2, LocalPort = 7, DestAddr = 1, DestPort = 9\<rparr> :: SocketData"
  let ?d = "MarshallTCPHeader rfc793 (CreateTCPHeader rfc793 1 2 9 7 501 1001 16 65535 []) 2 @ []"
  obtain t' where r: "ReceivePacket rfc793 0 0 ?d 2 1 sample_last_ack = Inr (t', [NotifyReceiveChan ?k])"
    using ReceivePacket_built [OF netstack_ok_rfc793, of 0 0 1 2 9 7 501 1001 16 65535 "[]" sample_last_ack]
    by (simp add: sample_last_ack_def socket_key_def dispatch_def HandleLastAck_def has_flag_def with_tcb_def)
  have "SocketTable sample_last_ack ?k = Some (sample_conn\<lparr>State := LAST_ACK\<rparr>)" by (simp add: sample_last_ack_def)
  from ReceivePacket_transitions [OF r this] show ?thesis using r by auto
qed

end
