(* ===== verification/SocketApi.thy ===== *)
theory SocketApi
  imports ReadPath SendPath Handlers
begin

text \<open>
  The socket interface of the TCP layer: \<open>Connect\<close>, \<open>Listen\<close> and \<open>Accept\<close> of
  \<open>src/pkg/tcp/tcp_handler_core.go\<close>, \<open>Close\<close> and \<open>CloseListener\<close> of \<open>src/pkg/tcp/tcp_close.go\<close>, and the
  methods of \<open>src/pkg/tcp/vtcp_conn.go\<close> and \<open>src/pkg/tcp/vtcp_listener.go\<close> in front of them. A call that
  blocks is a program counter with one step per event it waits for. Such a call keeps a pointer to its
  control block: the steps get that block as an argument.
\<close>

section \<open>Connect\<close>

datatype connect_pc =
    ConnectWait SocketData              \<comment> \<open>in the \<open>select\<close>, the SYN has been sent\<close>
  | ConnectReturned "VTCPConn option" "string option"

datatype connect_event =
    SynTimeout                          \<comment> \<open>\<open>timeout\<close> delivers\<close>
  | IPError string                      \<comment> \<open>\<open>IPErrorChannel\<close> delivers\<close>
  | Handshaken                          \<comment> \<open>\<open>ReceiveChan\<close> delivers\<close>

definition syn_message :: "netstack \<Rightarrow> SocketData \<Rightarrow> TCB \<Rightarrow> TCPHandler \<Rightarrow> byte list" where
  "syn_message ns key tcb t =
     ip_message ns (HandlerLocalAddr t) (DestAddr key)
       (CreateTCPHeader ns (HandlerLocalAddr t) (DestAddr key) (LocalPort key) (DestPort key)
          (SND_ISS (SND tcb)) 0 (TCPFlagSyn ns) MAX_BUF_SIZE []) []"

definition syn_sent_conn :: "u32 \<Rightarrow> TCB" where
  \<comment> \<open>the control block \<open>Connect\<close> creates\<close>
  "syn_sent_conn iss = new_conn\<lparr>State := SYN_SENT,
     SND := (SND new_conn)\<lparr>SND_ISS := iss, SND_NXT := iss + 1, SND_LBW := iss + 1, SND_UNA := iss\<rparr>,
     RCV := (RCV new_conn)\<lparr>RCV_WND := MAX_BUF_SIZE\<rparr>\<rparr>"

definition Connect_start ::
  "netstack \<Rightarrow> u32 \<Rightarrow> u32 option \<Rightarrow> u16 \<Rightarrow> TCPHandler \<Rightarrow> (connect_pc \<times> TCPHandler \<times> effect list) go" where
  \<comment> \<open>\<open>addr\<close> is \<open>addr.To4()\<close>: there is none for an address that is not IPv4\<close>
  "Connect_start ns iss addr port t =
     (case addr of None \<Rightarrow> Inl Panic
      | Some destAddr \<Rightarrow>
        let socketData = \<lparr>LocalAddr = HandlerLocalAddr t, LocalPort = CurrentPort t, DestAddr = destAddr, DestPort = port\<rparr>;
            t1 = t\<lparr>CurrentPort := CurrentPort t + 1\<rparr>
        in if SocketTable t1 socketData \<noteq> None
           then Inr (ConnectReturned None (Some ''Socket for this address already exists''), t1, [])
           else let tcb = syn_sent_conn iss
                in Inr (ConnectWait socketData, t1\<lparr>SocketTable := (SocketTable t1)(socketData \<mapsto> tcb)\<rparr>,
                        [IPSend (syn_message ns socketData tcb t1)]))"

fun Connect_event ::
  "netstack \<Rightarrow> connect_event \<Rightarrow> SocketData \<Rightarrow> TCB \<Rightarrow> TCPHandler \<Rightarrow> connect_pc \<times> TCPHandler \<times> effect list" where
  "Connect_event ns SynTimeout key tcb t =
     (if RetransmitCounter tcb = MAX_RETRANSMISSIONS
      then (ConnectReturned None (Some ''Connection timed out''), t\<lparr>SocketTable := (SocketTable t)(key := None)\<rparr>, [])
      else let tcb1 = tcb\<lparr>RetransmitCounter := RetransmitCounter tcb + 1\<rparr>
           in (ConnectWait key, t\<lparr>SocketTable := (SocketTable t)(key \<mapsto> tcb1)\<rparr>, [IPSend (syn_message ns key tcb1 t)]))"
| "Connect_event ns (IPError err) key tcb t = (ConnectReturned None (Some err), t, [])"
| "Connect_event ns Handshaken key tcb t =
     (ConnectReturned (Some \<lparr>SocketTableKey = key, ReadCancelled = False, WriteCancelled = False\<rparr>) None,
      t\<lparr>SocketTable := (SocketTable t)(key \<mapsto> tcb\<lparr>RetransmitCounter := 0\<rparr>)\<rparr>, [])"

section \<open>Listen and Accept\<close>

definition Listen :: "u16 \<Rightarrow> TCPHandler \<Rightarrow> VTCPListener option \<times> string option \<times> TCPHandler" where
  "Listen port t =
     (if port \<le> 1024 then (None, Some ''Invalid port number'', t)
      else
        let socketTableKey = \<lparr>LocalAddr = HandlerLocalAddr t, LocalPort = port, DestAddr = 0, DestPort = 0\<rparr>;
            t1 = t\<lparr>Listeners := Listeners t @ [socketTableKey]\<rparr>
        in if SocketTable t1 socketTableKey \<noteq> None then (None, Some ''Listener socket already exists'', t1)
           else (Some \<lparr>ListenerTableKey = socketTableKey, ListenerCancelled = False\<rparr>, None,
                 t1\<lparr>SocketTable := (SocketTable t1)(socketTableKey \<mapsto> zero_TCB\<lparr>State := LISTEN\<rparr>)\<rparr>))"

datatype accept_pc =
    AcceptLoop                          \<comment> \<open>the mutex is taken, at the head of the loop\<close>
  | AcceptWait                          \<comment> \<open>in \<open>PendingConnCond.Wait()\<close>\<close>
  | AcceptReturned "VTCPConn option" "string option"

definition accept_pop :: "TCB \<Rightarrow> (accept_pc \<times> TCB) option" where
  \<comment> \<open>take the first pending connection, if there is one\<close>
  "accept_pop tcb =
     (case PendingConnections tcb of
        [] \<Rightarrow> None
      | connEntry # rest \<Rightarrow>
          Some (AcceptReturned (Some \<lparr>SocketTableKey = connEntry, ReadCancelled = False, WriteCancelled = False\<rparr>) None,
                tcb\<lparr>PendingConnections := rest\<rparr>))"

definition Accept_start :: "VTCPListener \<Rightarrow> TCPHandler \<Rightarrow> accept_pc \<times> TCPHandler" where
  "Accept_start vl t =
     (case SocketTable t (ListenerTableKey vl) of
        None \<Rightarrow> (AcceptReturned None (Some ''Listener socket does not exist''), t)
      | Some tcb \<Rightarrow>
          (case accept_pop tcb of
             Some (pc, tcb1) \<Rightarrow> (pc, t\<lparr>SocketTable := (SocketTable t)(ListenerTableKey vl \<mapsto> tcb1)\<rparr>)
           | None \<Rightarrow> (AcceptLoop, t)))"

definition accept_loop :: "TCB \<Rightarrow> accept_pc \<times> TCB" where
  "accept_loop tcb = (case accept_pop tcb of Some r \<Rightarrow> r | None \<Rightarrow> (AcceptWait, tcb))"

fun Accept_step :: "VTCPListener \<Rightarrow> accept_pc \<Rightarrow> TCB \<Rightarrow> accept_pc \<times> TCB \<times> effect list" where
  "Accept_step vl AcceptLoop tcb = (case accept_loop tcb of (pc, tcb1) \<Rightarrow> (pc, tcb1, []))"
| "Accept_step vl AcceptWait tcb =
     (if ListenerCancelled vl
      then (AcceptReturned None (Some ''Listener has been cancelled due to close''), tcb, [LeavesLocked])
      else case accept_loop tcb of (pc, tcb1) \<Rightarrow> (pc, tcb1, []))"
| "Accept_step vl (AcceptReturned c e) tcb = (AcceptReturned c e, tcb, [])"

section \<open>Close\<close>

datatype close_pc =
    CloseWaitData                       \<comment> \<open>in \<open>PendingSendingFinCond.Wait()\<close>\<close>
  | CloseWaitClosed                     \<comment> \<open>the FIN is sent, waiting on \<open>ReceiveChan\<close>\<close>
  | CloseReturned "string option"

definition close_fin :: "netstack \<Rightarrow> SocketData \<Rightarrow> TCPHandler \<Rightarrow> TCB \<Rightarrow> close_pc \<times> TCB \<times> effect list" where
  \<comment> \<open>all data has been sent: build and send the FIN\<close>
  "close_fin ns socketData t tcb =
     (let nextToSend = (if State tcb = CLOSE_WAIT then RCV_NXT (RCV tcb) + 1 else RCV_NXT (RCV tcb));
          tcpHeader = CreateTCPHeader ns (HandlerLocalAddr t) (DestAddr socketData) (LocalPort socketData) (DestPort socketData)
            (SND_NXT (SND tcb)) nextToSend (TCPFlagFin ns OR TCPFlagAck ns) (RCV_WND (RCV tcb)) []
      in (CloseWaitClosed,
          tcb\<lparr>Cancelled := True, State := (if State tcb = CLOSE_WAIT then LAST_ACK else FIN_WAIT_1),
              SND := (SND tcb)\<lparr>SND_NXT := SND_NXT (SND tcb) + 1\<rparr>,
              RetransmissionQueue := RetransmissionQueue tcb @ [\<lparr>TCPHeader = tcpHeader, PayloadLen = 0\<rparr>]\<rparr>,
          [SignalSend, BroadcastWrite, IPSend (ip_message ns (HandlerLocalAddr t) (DestAddr socketData) tcpHeader []), NotifyRTO]))"

definition close_loop :: "netstack \<Rightarrow> SocketData \<Rightarrow> TCPHandler \<Rightarrow> TCB \<Rightarrow> close_pc \<times> TCB \<times> effect list" where
  \<comment> \<open>the loop that waits until all data has been sent\<close>
  "close_loop ns socketData t tcb =
     (if SND_NXT (SND tcb) \<noteq> SND_LBW (SND tcb) then (CloseWaitData, tcb, []) else close_fin ns socketData t tcb)"

definition Close_start ::
  "netstack \<Rightarrow> SocketData \<Rightarrow> VTCPConn \<Rightarrow> TCPHandler \<Rightarrow> (close_pc \<times> TCPHandler \<times> effect list) go" where
  "Close_start ns socketData vc t =
     (case SocketTable t (SocketTableKey vc) of
        None \<Rightarrow> Inl Panic
      | Some tcb \<Rightarrow>
          let (pc, tcb1, fx) = close_loop ns socketData t (tcb\<lparr>PendingSendingFin := True\<rparr>)
          in Inr (pc, t\<lparr>SocketTable := (SocketTable t)(SocketTableKey vc \<mapsto> tcb1)\<rparr>, fx))"

definition Close_done :: "SocketData \<Rightarrow> TCPHandler \<Rightarrow> close_pc \<times> TCPHandler" where
  \<comment> \<open>\<open>ReceiveChan\<close> delivers: the connection has reached CLOSED\<close>
  "Close_done socketData t = (CloseReturned None, t\<lparr>SocketTable := (SocketTable t)(socketData := None)\<rparr>)"

definition CloseListener :: "VTCPListener \<Rightarrow> TCPHandler \<Rightarrow> (VTCPListener \<times> TCPHandler \<times> effect list) go" where
  "CloseListener vl t =
     (case SocketTable t (ListenerTableKey vl) of
        None \<Rightarrow> Inl Panic
      | Some _ \<Rightarrow> Inr (vl\<lparr>ListenerCancelled := True\<rparr>,
                       t\<lparr>SocketTable := (SocketTable t)(ListenerTableKey vl := None)\<rparr>,
                       [SignalPendingConn (ListenerTableKey vl)]))"

section \<open>The methods of the handles\<close>

definition VRead :: "byte list \<Rightarrow> u32 \<Rightarrow> bool \<Rightarrow> VTCPConn \<Rightarrow> TCPHandler \<Rightarrow> read_call" where
  "VRead data amountToRead readAll vc t =
     \<lparr>rd_data = data, rd_amount = amountToRead, rd_all = readAll, rd_sofar = 0, rd_pc = Read_start t vc\<rparr>"

definition VWrite :: "byte list \<Rightarrow> VTCPConn \<Rightarrow> TCPHandler \<Rightarrow> write_call" where
  "VWrite data vc t = \<lparr>wr_data = data, wr_written = 0, wr_pc = Write_start t vc\<rparr>"

definition VClose :: "netstack \<Rightarrow> VTCPConn \<Rightarrow> TCPHandler \<Rightarrow> (VTCPConn \<times> close_pc \<times> TCPHandler \<times> effect list) go" where
  "VClose ns vc t =
     (let vc1 = vc\<lparr>ReadCancelled := True, WriteCancelled := True\<rparr>
      in gbind (Close_start ns (SocketTableKey vc1) vc1 t) (\<lambda>r. Inr (vc1, r)))"

definition VShutdown ::
  "netstack \<Rightarrow> int \<Rightarrow> VTCPConn \<Rightarrow> TCPHandler \<Rightarrow> (VTCPConn \<times> close_pc \<times> TCPHandler \<times> effect list) go" where
  "VShutdown ns sdType vc t =
     (if sdType = 0 then Inr (vc\<lparr>ReadCancelled := True\<rparr>, CloseReturned None, t, [])
      else if sdType = 1
      then let vc1 = vc\<lparr>WriteCancelled := True\<rparr>
           in gbind (Close_start ns (SocketTableKey vc1) vc1 t) (\<lambda>r. Inr (vc1, r))
      else if sdType = 2 then VClose ns vc t
      else Inr (vc, CloseReturned (Some ''Invalid shutdown type''), t, []))"

definition VAccept :: "VTCPListener \<Rightarrow> TCPHandler \<Rightarrow> accept_pc \<times> TCPHandler" where
  "VAccept vl t = Accept_start vl t"

definition listener_VClose :: "VTCPListener \<Rightarrow> TCPHandler \<Rightarrow> (VTCPListener \<times> TCPHandler \<times> effect list) go" where
  "listener_VClose vl t = CloseListener vl t"

section \<open>A connection attempt without answer\<close>

fun connect_timeouts :: "netstack \<Rightarrow> nat \<Rightarrow> SocketData \<Rightarrow> TCPHandler \<Rightarrow> connect_pc \<times> TCPHandler \<times> effect list" where
  \<comment> \<open>the timer fires \<open>n\<close> times and nothing else happens\<close>
  "connect_timeouts ns 0 key t = (ConnectWait key, t, [])"
| "connect_timeouts ns (Suc n) key t =
     (case SocketTable t key of
        None \<Rightarrow> (ConnectWait key, t, [])
      | Some tcb \<Rightarrow>
          (case Connect_event ns SynTimeout key tcb t of
             (ConnectWait _, t1, fx) \<Rightarrow> (case connect_timeouts ns n key t1 of (pc, t2, fx2) \<Rightarrow> (pc, t2, fx @ fx2))
           | r \<Rightarrow> r))"

lemma connect_timeouts_resend:
  assumes "SocketTable t key = Some tcb" and "RetransmitCounter tcb + int n = MAX_RETRANSMISSIONS"
  shows "\<exists>t'. connect_timeouts ns (Suc n) key t = (ConnectReturned None (Some ''Connection timed out''), t',
        replicate n (IPSend (syn_message ns key tcb t)))
      \<and> SocketTable t' = (SocketTable t)(key := None) \<and> Listeners t' = Listeners t \<and> CurrentPort t' = CurrentPort t"
  using assms
proof (induction n arbitrary: t tcb)
  case 0
  then show ?case by (auto simp: fun_eq_iff)
next
  case (Suc n)
  let ?tcb = "tcb\<lparr>RetransmitCounter := RetransmitCounter tcb + 1\<rparr>"
  let ?t = "t\<lparr>SocketTable := (SocketTable t)(key \<mapsto> ?tcb)\<rparr>"
  have m: "syn_message ns key ?tcb t' = syn_message ns key tcb t" if "HandlerLocalAddr t' = HandlerLocalAddr t" for t'
    using that by (simp add: syn_message_def)
  have p: "SocketTable ?t key = Some ?tcb" "RetransmitCounter ?tcb + int n = MAX_RETRANSMISSIONS"
    using Suc.prems by simp_all
  obtain t' where t': "connect_timeouts ns (Suc n) key ?t = (ConnectReturned None (Some ''Connection timed out''), t',
        replicate n (IPSend (syn_message ns key ?tcb ?t)))"
      "SocketTable t' = (SocketTable ?t)(key := None)" "Listeners t' = Listeners ?t" "CurrentPort t' = CurrentPort ?t"
    using Suc.IH [OF p] by (elim exE conjE) (rule that)
  have "RetransmitCounter tcb \<noteq> MAX_RETRANSMISSIONS" using Suc.prems by simp
  then have "connect_timeouts ns (Suc (Suc n)) key t = (case connect_timeouts ns (Suc n) key ?t of
      (pc, t2, fx2) \<Rightarrow> (pc, t2, IPSend (syn_message ns key tcb t) # fx2))"
    using Suc.prems(1) m [of t] by (subst connect_timeouts.simps(2)) (simp add: Let_def del: connect_timeouts.simps)
  then show ?case using t' by (auto simp: m fun_eq_iff simp del: connect_timeouts.simps)
qed

lemma connect_timeouts_waits:
  assumes "SocketTable t key = Some tcb" and "RetransmitCounter tcb + int n \<le> MAX_RETRANSMISSIONS"
  shows "fst (connect_timeouts ns n key t) = ConnectWait key"
  using assms
proof (induction n arbitrary: t tcb)
  case (Suc n)
  let ?tcb = "tcb\<lparr>RetransmitCounter := RetransmitCounter tcb + 1\<rparr>"
  have "fst (connect_timeouts ns n key (t\<lparr>SocketTable := (SocketTable t)(key \<mapsto> ?tcb)\<rparr>)) = ConnectWait key"
    using Suc.prems by (intro Suc.IH [of _ ?tcb]) auto
  then show ?case using Suc.prems by (auto simp: Let_def split: prod.split)
qed simp

declare connect_timeouts.simps(2) [simp del]

section \<open>Pending connections are served in order\<close>

text \<open>
  The contract between the handshake, which queues an established connection at its listener, and
  \<open>Accept\<close>, which takes them: a first-in first-out queue.
\<close>

locale pending_queue =
  fixes pend :: "'s \<Rightarrow> 'k list" and enq :: "'k \<Rightarrow> 's \<Rightarrow> 's" and deq :: "'s \<Rightarrow> ('k \<times> 's) option"
  assumes pend_enq: "pend (enq k s) = pend s @ [k]"
    and deq_none: "deq s = None \<longleftrightarrow> pend s = []"
    and deq_some: "deq s = Some (k, s') \<Longrightarrow> pend s = k # pend s'"
begin

fun drain_n :: "nat \<Rightarrow> 's \<Rightarrow> 'k list" where
  "drain_n 0 s = []"
| "drain_n (Suc n) s = (case deq s of None \<Rightarrow> [] | Some (k, s') \<Rightarrow> k # drain_n n s')"

lemma pend_enqs: "pend (fold enq ks s) = pend s @ ks"
  by (induction ks arbitrary: s) (simp_all add: pend_enq)

lemma drain_n_pend: "drain_n n s = take n (pend s)"
  by (induction n arbitrary: s) (auto simp: deq_none dest: deq_some split: option.splits)

lemma first_in_first_out: "drain_n (length (pend s) + length ks) (fold enq ks s) = pend s @ ks"
  by (simp add: drain_n_pend pend_enqs)

end

definition queue_pending :: "SocketData \<Rightarrow> TCB \<Rightarrow> TCB" where
  \<comment> \<open>what \<open>HandleStateSynReceived\<close> does to the listener\<close>
  "queue_pending key tcb = tcb\<lparr>PendingConnections := PendingConnections tcb @ [key]\<rparr>"

definition take_pending :: "TCB \<Rightarrow> (SocketData \<times> TCB) option" where
  "take_pending tcb = (case accept_pop tcb of
       Some (AcceptReturned (Some vc) e, tcb1) \<Rightarrow> Some (SocketTableKey vc, tcb1) | _ \<Rightarrow> None)"

interpretation accept_queue: pending_queue PendingConnections queue_pending take_pending
  by unfold_locales (auto simp: queue_pending_def take_pending_def accept_pop_def split: list.splits)

section \<open>Properties\<close>

text \<open>
  C25. A \<open>Connect\<close> to a host that never answers returns: it sends the same SYN six times, the first and
  five retransmissions, and at the sixth expiry of the timer returns an error, with the socket removed
  from the table.
\<close>

theorem Connect_gives_up:
  assumes "SocketTable t \<lparr>LocalAddr = HandlerLocalAddr t, LocalPort = CurrentPort t, DestAddr = a, DestPort = port\<rparr> = None"
  shows "\<exists>key t1 syn t2. Connect_start ns iss (Some a) port t = Inr (ConnectWait key, t1, [IPSend syn])
    \<and> connect_timeouts ns 6 key t1 = (ConnectReturned None (Some ''Connection timed out''), t2, replicate 5 (IPSend syn))
    \<and> (\<forall>n \<le> 5. fst (connect_timeouts ns n key t1) = ConnectWait key)
    \<and> SocketTable t2 = SocketTable t \<and> CurrentPort t2 = CurrentPort t + 1"
proof -
  let ?key = "\<lparr>LocalAddr = HandlerLocalAddr t, LocalPort = CurrentPort t, DestAddr = a, DestPort = port\<rparr>"
  let ?tcb = "syn_sent_conn iss"
  let ?t1 = "t\<lparr>CurrentPort := CurrentPort t + 1, SocketTable := (SocketTable t)(?key \<mapsto> ?tcb)\<rparr>"
  let ?syn = "syn_message ns ?key ?tcb ?t1"
  have s: "Connect_start ns iss (Some a) port t = Inr (ConnectWait ?key, ?t1, [IPSend ?syn])"
    using assms by (simp add: Connect_start_def Let_def syn_message_def)
  have c: "SocketTable ?t1 ?key = Some ?tcb" "RetransmitCounter ?tcb = 0"
    by (simp_all add: syn_sent_conn_def new_conn_def zero_TCB_def)
  have "connect_timeouts ns 6 ?key ?t1 = connect_timeouts ns (Suc 5) ?key ?t1" by simp
  moreover obtain t2 where t2: "connect_timeouts ns (Suc 5) ?key ?t1 = (ConnectReturned None (Some ''Connection timed out''), t2,
        replicate 5 (IPSend ?syn))" "SocketTable t2 = (SocketTable ?t1)(?key := None)" "CurrentPort t2 = CurrentPort ?t1"
    using connect_timeouts_resend [OF c(1), of 5 ns] c(2) by (auto simp: MAX_RETRANSMISSIONS_def)
  moreover have "SocketTable t2 = SocketTable t" using t2(2) assms by (simp add: fun_upd_idem)
  moreover have "fst (connect_timeouts ns n ?key ?t1) = ConnectWait ?key" if "n \<le> 5" for n
    using connect_timeouts_waits [OF c(1), of n ns] c(2) that by (simp add: MAX_RETRANSMISSIONS_def)
  ultimately show ?thesis using s by (intro exI [of _ ?key] exI [of _ ?t1] exI [of _ ?syn] exI [of _ t2]) simp
qed

theorem Connect_gives_up_witness:
  "\<exists>key t1 syn t2. Connect_start rfc793 7 (Some 2) 9000 \<lparr>SocketTable = Map.empty, HandlerLocalAddr = 1, CurrentPort = 1025, Listeners = []\<rparr>
      = Inr (ConnectWait key, t1, [IPSend syn])
    \<and> connect_timeouts rfc793 6 key t1 = (ConnectReturned None (Some ''Connection timed out''), t2, replicate 5 (IPSend syn))"
  using Connect_gives_up [of "\<lparr>SocketTable = Map.empty, HandlerLocalAddr = 1, CurrentPort = 1025, Listeners = []\<rparr>" 2 9000 rfc793 7]
  by auto

end
