(* ===== verification/Endpoints.thy ===== *)
theory Endpoints
  imports ReadPath SendPath Handlers
begin

text \<open>
  The two ends of a connection during the transfer of data, each with an invariant that its steps keep
  whatever the other end does: the receiving end with \<open>HandleEstablished\<close> and \<open>Read\<close>, the sending end
  with \<open>Write\<close>, the goroutine \<open>Send\<close>, the zero-window probes, the retransmission timer and arriving
  acknowledgements. \<open>str\<close> is the stream the sending application writes, indexed by sequence number.
\<close>

section \<open>Messages\<close>

definition hdr_ok :: "netstack \<Rightarrow> TCPFields \<Rightarrow> bool" where
  \<comment> \<open>a header of the data transfer: only the ACK flag, no options\<close>
  "hdr_ok ns h \<longleftrightarrow> DataOffset h = 20 \<and> UrgentPointer h = 0 \<and> Flags h = TCPFlagAck ns"

lemma parse_message:
  assumes "netstack_ok ns" and "hdr_ok ns h"
  shows "ParseTCPHeader ns (drop 8 (ip_message ns s d h p)) = Inr h" and "drop 28 (ip_message ns s d h p) = p"
proof -
  have l: "length (TCP_Encode ns h) = 20" "accessors_ok ns" using assms(1) by (simp_all add: netstack_ok_def)
  then show "ParseTCPHeader ns (drop 8 (ip_message ns s d h p)) = Inr h"
    using assms(2) by (simp add: ip_message_def MarshallTCPHeader_def hdr_ok_def ParseTCPHeader_Encode)
  show "drop 28 (ip_message ns s d h p) = p"
    using l by (simp add: ip_message_def MarshallTCPHeader_def)
qed

lemma hdr_ok_flags:
  assumes "netstack_ok ns" and "hdr_ok ns h"
  shows "has_flag h (TCPFlagAck ns)" and "\<not> has_flag h (TCPFlagFin ns)"
  using assms by (simp_all add: hdr_ok_def has_flag_def netstack_ok_def flags_ok_def)

lemma hdr_ok_created [simp]: "hdr_ok ns (CreateTCPHeader ns sa da sp dp sq ak (TCPFlagAck ns) w pl)"
  by (simp add: hdr_ok_def)

lemma hdr_ok_data [simp]: "hdr_ok ns (data_header ns key tcb pl)"
  by (simp add: data_header_def)

section \<open>Progress of the calls\<close>

definition write_progress :: "write_call \<Rightarrow> write_call \<Rightarrow> byte list" where
  \<comment> \<open>the bytes of the data a step of \<open>Write\<close> has dealt with\<close>
  "write_progress c c' = take (unat (wr_written c') - unat (wr_written c)) (drop (unat (wr_written c)) (wr_data c))"

definition read_progress :: "read_call \<Rightarrow> read_call \<Rightarrow> byte list" where
  \<comment> \<open>the part of the application's slice a step of \<open>Read\<close> has filled\<close>
  "read_progress c c' = take (unat (rd_sofar c') - unat (rd_sofar c)) (drop (unat (rd_sofar c)) (rd_data c'))"

section \<open>The receiving side\<close>

definition edge :: "TCB \<Rightarrow> nat" where
  \<comment> \<open>the end of the receive window\<close>
  "edge b = unat (RCV_NXT (RCV b)) + unat (RCV_WND (RCV b))"

definition early_below :: "nat \<Rightarrow> TCB \<Rightarrow> bool" where
  "early_below hi b \<longleftrightarrow> (\<forall>e \<in> set (EarlyArrivals (EarlyQ b)). entry_end e \<le> hi)"

definition segment_ok :: "(nat \<Rightarrow> byte) \<Rightarrow> nat \<Rightarrow> TCB \<Rightarrow> u32 \<Rightarrow> byte list \<Rightarrow> bool" where
  \<comment> \<open>a data segment in the network: old, or a piece of the stream that fits the window or is a single byte\<close>
  "segment_ok str hi b sq p \<longleftrightarrow> p \<noteq> [] \<and> (sq < RCV_NXT (RCV b) \<or>
     from_stream str sq p \<and> unat sq + length p \<le> hi \<and> (unat sq + length p \<le> edge b \<or> length p = 1))"

definition rcv_inv :: "(nat \<Rightarrow> byte) \<Rightarrow> nat \<Rightarrow> TCB \<Rightarrow> bool" where
  "rcv_inv str hi b \<longleftrightarrow> rcv_agrees str b \<and> snd_ready b \<and> \<not> CControlEnabled b \<and> PendingReceivedFin b = 0
     \<and> 0 < RCV_LBR (RCV b) \<and> unat (RCV_NXT (RCV b)) \<le> hi \<and> early_below hi b \<and> edge b < 2 ^ 32 \<and> hi + 65536 \<le> 2 ^ 32"

lemma receive_ack_quiet:
  assumes "snd_ready tcb" and "\<not> CControlEnabled tcb"
  obtains tcb' fx where "receive_ack ns now key h tcb = Inr (tcb', fx)" and "same_receiver tcb tcb'" and "snd_ready tcb'"
    and "ip_sends fx = []"
proof -
  have n: "\<not> third_dup h tcb" "\<not> dup_ack h tcb" using assms(2) by (simp_all add: third_dup_def dup_ack_def)
  show ?thesis
  proof (cases "ack_rejected h (SND tcb)")
    case True
    then show ?thesis using that [of tcb "[]"] receive_ack_rejected [OF n(1) True] n(2) assms(1) by (simp add: same_receiver_def)
  next
    case False
    show ?thesis by (rule receive_ack_accepted [OF n(1) False assms(1), of ns now key]) (rule that)
  qed
qed

lemma early_drain:
  assumes "early_below hi b" and "unat n \<le> hi" and "hi < 2 ^ 32"
  shows "unat (snd (drain (EarlyQ b) n)) \<le> hi" and "\<forall>e \<in> set (EarlyArrivals (fst (drain (EarlyQ b) n))). entry_end e \<le> hi"
proof -
  show "unat (snd (drain (EarlyQ b) n)) \<le> hi"
  proof (rule eaq.drain_walk_all [where Q = "\<lambda>e. entry_end e \<le> hi" and P = "\<lambda>m. unat m \<le> hi"])
    show "unat (SequenceNum e + EntryLen e) \<le> hi" if "entry_end e \<le> hi" "unat (SequenceNum e) \<le> hi" for e
      using that assms(3) by (simp add: unat_entry_end)
  qed (use assms in \<open>auto simp: early_below_def\<close>)
  show "\<forall>e \<in> set (EarlyArrivals (fst (drain (EarlyQ b) n))). entry_end e \<le> hi"
    using assms(1) eaq.entries_drain [of "EarlyQ b" n] by (auto simp: early_below_def)
qed

lemma receive_data_cc:
  "receive_data ns key sq p b = Inr (b', fx) \<Longrightarrow> CControlEnabled b' = CControlEnabled b"
  by (auto simp: receive_data_def gbind_Inr_iff updateAckNum_drain Let_def split_def split: if_splits)

lemma receive_segment:
  assumes "rcv_inv str hi b" and "segment_ok str hi b sq p"
  obtains b' fx where "receive_data ns key sq p b = Inr (b', fx)" and "rcv_inv str hi b'"
    and "RCV_LBR (RCV b') = RCV_LBR (RCV b)" and "RCV_NXT (RCV b) \<le> RCV_NXT (RCV b')"
    and "edge b' = edge b" and "ip_sends fx = [ack_message ns key b' (RCV_NXT (RCV b'))]"
    and "sq = RCV_NXT (RCV b) \<longrightarrow> unat sq + length p \<le> edge b \<longrightarrow> unat sq + length p \<le> unat (RCV_NXT (RCV b'))"
proof -
  have inv: "rcv_agrees str b" "rcv_fits (RCV b)" "snd_ready b" "PendingReceivedFin b = 0" "0 < RCV_LBR (RCV b)"
    "unat (RCV_NXT (RCV b)) \<le> hi" "early_below hi b" "edge b < 2 ^ 32" "hi < 2 ^ 32" "\<not> CControlEnabled b"
    "hi + 65536 \<le> 2 ^ 32"
    using assms(1) by (auto simp: rcv_inv_def rcv_agrees_def)
  have w: "unat (RCV_NXT (RCV b) + RCV_WND (RCV b)) = edge b"
    using inv(8) by (simp add: edge_def unat_add_u32)
  have fin: "finish_data ns key t = (t, [IPSend (ack_message ns key t (RCV_NXT (RCV t))), SignalRead])"
    if "RCV_NXT (RCV b) \<le> RCV_NXT (RCV t)" "PendingReceivedFin t = PendingReceivedFin b" for t
    using that inv(2,4,5) by (auto simp: finish_data_def rcv_fits_def u32_le_nat u32_less_nat)
  have pos: "0 < length p" using assms(2) by (simp add: segment_ok_def)
  consider "sq < RCV_NXT (RCV b)" | "\<not> sq < RCV_NXT (RCV b)" "edge b \<le> unat sq"
    | "\<not> sq < RCV_NXT (RCV b)" "unat sq < edge b" by fastforce
  then show ?thesis
  proof cases
    case 1
    then show ?thesis using that [OF receive_data_old [OF 1]] assms(1) by (auto simp: u32_less_nat)
  next
    case 2
    then have "receive_data ns key sq p b = Inr (b, [IPSend (ack_message ns key b (RCV_NXT (RCV b)))])"
      using w by (simp add: receive_data_def u32_le_nat)
    moreover have "\<not> unat sq + length p \<le> edge b" using 2(2) pos by linarith
    ultimately show ?thesis using assms(1) by (intro that) (assumption, auto)
  next
    case 3
    have s: "from_stream str sq p" "unat sq + length p \<le> hi" "unat sq + length p \<le> edge b"
      using assms(2) 3 by (auto simp: segment_ok_def)
    then have c: "conforming str b sq p" using pos inv(8) by (simp add: conforming_def edge_def)
    show ?thesis
    proof (cases "sq = RCV_NXT (RCV b)")
      case True
      obtain t n where t: "receive_data ns key (RCV_NXT (RCV b)) p b = Inr (finish_data ns key t)" "rcv_agrees str t"
        "RCV_NXT (RCV t) = snd (drain (EarlyQ b) n)" "EarlyQ t = fst (drain (EarlyQ b) n)"
        "unat n = unat (RCV_NXT (RCV b)) + length p" "n \<le> RCV_NXT (RCV t)" "RCV_LBR (RCV t) = RCV_LBR (RCV b)"
        "SND t = SND b" "State t = State b" "PendingReceivedFin t = PendingReceivedFin b" "snd_ready t = snd_ready b"
        "unat (RCV_NXT (RCV t)) + unat (RCV_WND (RCV t)) = unat (RCV_NXT (RCV b)) + unat (RCV_WND (RCV b))"
        by (rule receive_data_in_order [OF inv(1) c [unfolded True]])
      have n: "unat n \<le> hi" using t(5) s(2) True by simp
      have le: "RCV_NXT (RCV b) \<le> RCV_NXT (RCV t)" using t(5,6) by (simp add: u32_le_nat)
      have "\<not> CControlEnabled t" using receive_data_cc t(1) inv(10) fin [OF le t(10)] by simp
      then have "rcv_inv str hi t"
        using t inv early_drain [OF inv(7) n inv(9)] by (simp add: rcv_inv_def early_below_def edge_def)
      then show ?thesis using t(1,5-7) le fin [OF le t(10)] True
        by (intro that [of t "[IPSend (ack_message ns key t (RCV_NXT (RCV t))), SignalRead]"]) (auto simp: u32_le_nat edge_def t(12))
    next
      case False
      then have lt: "RCV_NXT (RCV b) < sq" using 3(1) by simp
      let ?e = "\<lparr>SequenceNum = sq, EntryLen = of_nat (length p)\<rparr> :: EarlyArrivalEntry"
      let ?t = "b\<lparr>RCV := (RCV b)\<lparr>RCV_Buffer := ring_store (RCV_Buffer (RCV b)) (unat sq) p\<rparr>, EarlyQ := Push ?e (EarlyQ b)\<rparr>"
      have r: "receive_data ns key sq p b = Inr (finish_data ns key ?t)" "rcv_agrees str ?t"
        using receive_data_early [OF inv(1) c lt, of ns key] by simp_all
      have "entry_end ?e \<le> hi" using s(2) inv(9) by (simp add: entry_end_def unat_of_nat_u32)
      then have "early_below hi ?t"
        using inv(7) eaq.all_push [of "EarlyQ b" "\<lambda>e. entry_end e \<le> hi" ?e] by (simp add: early_below_def)
      then have "rcv_inv str hi ?t"
        using r(2) inv by (simp add: rcv_inv_def edge_def snd_ready_def cc_ok_def)
      moreover have "receive_data ns key sq p b = Inr (?t, [IPSend (ack_message ns key ?t (RCV_NXT (RCV ?t))), SignalRead])"
        using r(1) fin [of ?t] by simp
      ultimately show ?thesis using False
        by (intro that [of ?t "[IPSend (ack_message ns key ?t (RCV_NXT (RCV ?t))), SignalRead]"]) (simp_all add: edge_def)
    qed
  qed
qed

lemma same_receiver_inv: "same_receiver b b' \<Longrightarrow> snd_ready b' \<Longrightarrow> rcv_inv str hi b \<Longrightarrow> rcv_inv str hi b'"
  by (simp add: rcv_inv_def same_receiver_agrees) (simp add: same_receiver_def early_below_def edge_def)

lemma data_step:
  assumes "netstack_ok ns" and "hdr_ok ns h" and "rcv_inv str hi b" and "segment_ok str hi b (SeqNum h) p"
    and "HandleEstablished ns now h b key p = Inr (b', fx)"
  shows "rcv_inv str hi b'" and "RCV_LBR (RCV b') = RCV_LBR (RCV b)" and "RCV_NXT (RCV b) \<le> RCV_NXT (RCV b')"
    and "edge b' = edge b" and "ip_sends fx = [ack_message ns key b' (RCV_NXT (RCV b'))]"
    and "SeqNum h = RCV_NXT (RCV b) \<Longrightarrow> unat (SeqNum h) + length p \<le> edge b \<Longrightarrow>
      unat (SeqNum h) + length p \<le> unat (RCV_NXT (RCV b'))"
proof -
  obtain t fx1 where t: "receive_data ns key (SeqNum h) p b = Inr (t, fx1)" "rcv_inv str hi t" "RCV_LBR (RCV t) = RCV_LBR (RCV b)"
    "RCV_NXT (RCV b) \<le> RCV_NXT (RCV t)" "edge t = edge b" "ip_sends fx1 = [ack_message ns key t (RCV_NXT (RCV t))]"
    "SeqNum h = RCV_NXT (RCV b) \<longrightarrow> unat (SeqNum h) + length p \<le> edge b \<longrightarrow> unat (SeqNum h) + length p \<le> unat (RCV_NXT (RCV t))"
    by (rule receive_segment [OF assms(3,4), of ns key])
  then have ready: "snd_ready t" "\<not> CControlEnabled t" by (simp_all add: rcv_inv_def)
  obtain u fx2 where u: "receive_ack ns now key h t = Inr (u, fx2)" "same_receiver t u" "snd_ready u" "ip_sends fx2 = []"
    by (rule receive_ack_quiet [OF ready])
  have "p \<noteq> []" using assms(4) by (simp add: segment_ok_def)
  then have e: "b' = u" "fx = fx1 @ fx2"
    using assms(5) hdr_ok_flags [OF assms(1,2)] t(1) u(1) by (auto simp: HandleEstablished_def ReceivePath.Receive_def)
  then show "rcv_inv str hi b'" using same_receiver_inv [OF u(2,3) t(2)] by simp
  show "RCV_LBR (RCV b') = RCV_LBR (RCV b)" "RCV_NXT (RCV b) \<le> RCV_NXT (RCV b')" "edge b' = edge b"
    "ip_sends fx = [ack_message ns key b' (RCV_NXT (RCV b'))]"
    using t(3-6) u(2,4) e by (simp_all add: same_receiver_def ack_message_def edge_def)
  show "unat (SeqNum h) + length p \<le> unat (RCV_NXT (RCV b'))"
    if "SeqNum h = RCV_NXT (RCV b)" "unat (SeqNum h) + length p \<le> edge b"
    using t(7) that u(2) e by (simp add: same_receiver_def)
qed

lemma segment_ok_mono:
  assumes "segment_ok str hi b sq p" and "RCV_NXT (RCV b) \<le> RCV_NXT (RCV b')" and "edge b \<le> edge b'" and "hi \<le> hi'"
  shows "segment_ok str hi' b' sq p"
  using assms by (auto simp: segment_ok_def intro: less_le_trans)

lemma rcv_inv_mono: "rcv_inv str hi b \<Longrightarrow> hi \<le> hi' \<Longrightarrow> hi' + 65536 \<le> 2 ^ 32 \<Longrightarrow> rcv_inv str hi' b"
  by (fastforce simp: rcv_inv_def early_below_def)

lemma Read_step_frame:
  assumes "Read_step b c = Inr (b', c')"
  shows "SND b' = SND b \<and> EarlyQ b' = EarlyQ b \<and> CControlEnabled b' = CControlEnabled b \<and> RCV_NXT (RCV b') = RCV_NXT (RCV b)
    \<and> PendingReceivedFin b' = PendingReceivedFin b \<and> RetransmissionQueue b' = RetransmissionQueue b"
  using assms by (auto simp: read_copy_def Let_def gbind_Inr_iff split: read_pc.splits)

lemma read_step:
  assumes "rcv_inv str hi b" and "read_inv str base (b, c)" and "Read_step b c = Inr (b', c')"
  shows "read_inv str base (b', c')" and "rcv_inv str hi b'" and "RCV_LBR (RCV b) \<le> RCV_LBR (RCV b')"
    and "RCV_NXT (RCV b') = RCV_NXT (RCV b)" and "edge b \<le> edge b'"
    and "read_progress c c' = map str [unat (RCV_LBR (RCV b))..<unat (RCV_LBR (RCV b'))]"
proof -
  show r: "read_inv str base (b', c')" by (rule read_inv_step [OF assms(2,3)])
  show nxt: "RCV_NXT (RCV b') = RCV_NXT (RCV b)" using Read_step_frame [OF assms(3)] by simp
  have ok: "rcv_fits (RCV b)" "rcv_fits (RCV b')" using assms(2) r by (auto simp: read_inv_def rcv_agrees_def)
  show le: "RCV_LBR (RCV b) \<le> RCV_LBR (RCV b')"
  proof (cases "rd_pc c")
    case (ReadCopy n)
    then have "unat n \<le> length (unread (RCV b))" using assms(2) by (simp add: read_inv_def)
    moreover have "RCV_LBR (RCV b') = RCV_LBR (RCV b) + n"
      using assms(3) ReadCopy by (auto simp: read_copy_def Let_def gbind_Inr_iff)
    ultimately show ?thesis using unread_split(4) [OF ok(1), of n] by (simp add: u32_le_nat)
  qed (use assms(3) in auto)
  have "RCV_WND (RCV b) \<le> RCV_WND (RCV b')"
    using assms(2,3) by (auto simp: read_inv_def read_copy_def Let_def gbind_Inr_iff split: read_pc.splits)
  then show "edge b \<le> edge b'" using nxt by (simp add: edge_def u32_le_nat)
  have "edge b' < 2 ^ 32" using ok(2) nxt assms(1) by (auto simp: edge_def rcv_fits_def rcv_inv_def u32_le_nat)
  then show "rcv_inv str hi b'"
    using assms(1) r le Read_step_frame [OF assms(3)]
    by (auto simp: rcv_inv_def read_inv_def early_below_def u32_le_nat u32_less_nat)
  have "read_progress c c' = drop (unat (rd_sofar c)) (take (unat (rd_sofar c')) (rd_data c'))"
    by (simp add: read_progress_def drop_take)
  also have "\<dots> = map str [unat (RCV_LBR (RCV b))..<unat (RCV_LBR (RCV b'))]"
    using assms(2) r by (simp add: read_inv_def drop_map)
  finally show "read_progress c c' = map str [unat (RCV_LBR (RCV b))..<unat (RCV_LBR (RCV b'))]" .
qed

lemma read_inv_received:
  assumes "read_inv str base (b, c)" and "rcv_inv str hi b'" and "\<not> storing (rd_pc c)"
    and "RCV_LBR (RCV b') = RCV_LBR (RCV b)" and "RCV_NXT (RCV b) \<le> RCV_NXT (RCV b')" and "edge b' = edge b"
  shows "read_inv str base (b', c)"
  by (rule read_inv_arrival [OF assms(1)]) (use assms in \<open>auto simp: rcv_inv_def edge_def\<close>)

section \<open>The sending side\<close>

definition ahead :: "send_pc \<Rightarrow> TCB \<Rightarrow> u32" where
  \<comment> \<open>what \<open>Send\<close> has sent, or probed with success, and not yet added to \<open>SND.NXT\<close>\<close>
  "ahead pc a = (case pc of SendZero \<Rightarrow> if SND_WND (SND a) = 0 then 0 else 1 | SendAdvance amt sent n \<Rightarrow> n | _ \<Rightarrow> 0)"

definition settled :: "send_pc \<Rightarrow> TCB \<Rightarrow> TCB" where
  \<comment> \<open>the control block as it will be when \<open>Send\<close> has moved \<open>NXT\<close>; an acknowledgement may have moved \<open>UNA\<close> past \<open>NXT\<close> already\<close>
  "settled pc a = a\<lparr>SND := (SND a)\<lparr>SND_NXT := SND_NXT (SND a) + ahead pc a\<rparr>\<rparr>"

definition sent_upto :: "send_pc \<Rightarrow> TCB \<Rightarrow> nat" where
  \<comment> \<open>no byte at or after this position has been sent\<close>
  "sent_upto pc a = unat (SND_NXT (SND a)) + (case pc of SendZero \<Rightarrow> 1 | SendAdvance amt sent n \<Rightarrow> unat n | _ \<Rightarrow> 0)"

definition snd_edge :: "TCB \<Rightarrow> nat" where
  "snd_edge a = unat (SND_UNA (SND a)) + unat (SND_WND (SND a))"

definition burst_ok :: "u32 \<Rightarrow> u32 \<Rightarrow> TCB \<Rightarrow> bool" where
  \<comment> \<open>the rest of a burst is in the buffer and inside the window\<close>
  "burst_ok amt sent a \<longleftrightarrow> sent \<le> amt
     \<and> unat (SND_NXT (SND a)) + unat (amt - sent) \<le> min (unat (SND_LBW (SND a))) (snd_edge a)"

fun pc_ok :: "send_pc \<Rightarrow> TCB \<Rightarrow> bool" where
  "pc_ok (SendSegment amt sent) a \<longleftrightarrow> burst_ok amt sent a"
| "pc_ok (SendAdvance amt sent n) a \<longleftrightarrow> burst_ok amt sent a \<and> n \<le> amt - sent"
| "pc_ok (SendStamp amt sent) a \<longleftrightarrow> burst_ok amt sent a"
| "pc_ok SendZero a \<longleftrightarrow> SND_NXT (SND a) < SND_LBW (SND a)
     \<and> unat (SND_UNA (SND a)) = (if SND_WND (SND a) = 0 then unat (SND_NXT (SND a)) else unat (SND_NXT (SND a)) + 1)"
| "pc_ok _ a \<longleftrightarrow> True"

definition snd_inv :: "netstack \<Rightarrow> (nat \<Rightarrow> byte) \<Rightarrow> send_pc \<Rightarrow> TCB \<Rightarrow> bool" where
  "snd_inv ns str pc a \<longleftrightarrow> snd_agrees str (settled pc a) \<and> \<not> CControlEnabled a \<and> \<not> Cancelled a \<and> SND_WND (SND a) \<le> 65535 \<and> CWND a = 65535
     \<and> (\<forall>seg \<in> set (RetransmissionQueue a). 0 < PayloadLen seg \<and> hdr_ok ns (TCPHeader seg))
     \<and> unat (SND_NXT (SND a)) \<le> snd_edge a \<and> pc_ok pc a \<and> unat (SND_LBW (SND a)) + 65536 \<le> 2 ^ 32"

definition sent_ok :: "netstack \<Rightarrow> SocketData \<Rightarrow> (nat \<Rightarrow> byte) \<Rightarrow> send_pc \<Rightarrow> TCB \<Rightarrow> byte list \<Rightarrow> bool" where
  \<comment> \<open>a message of the sending side: acknowledged already, or a piece of the stream inside the window,
      or a single byte\<close>
  "sent_ok ns key str pc a m \<longleftrightarrow> (\<exists>h p. m = ip_message ns (LocalAddr key) (DestAddr key) h p \<and> hdr_ok ns h \<and> p \<noteq> []
     \<and> (SeqNum h < SND_UNA (SND a) \<or> from_stream str (SeqNum h) p \<and> unat (SeqNum h) + length p \<le> sent_upto pc a
          \<and> (unat (SeqNum h) + length p \<le> snd_edge a \<or> length p = 1)))"

lemma settled_sel [simp]:
  "SND_UNA (SND (settled pc a)) = SND_UNA (SND a)" "SND_LBW (SND (settled pc a)) = SND_LBW (SND a)"
  "SND_NXT (SND (settled pc a)) = SND_NXT (SND a) + ahead pc a"
  "SND_Buffer (SND (settled pc a)) = SND_Buffer (SND a)" "RetransmissionQueue (settled pc a) = RetransmissionQueue a"
  by (simp_all add: settled_def)

lemma settled_plain: "ahead pc a = 0 \<Longrightarrow> settled pc a = a"
  by (simp add: settled_def)

lemma settled_nxt:
  assumes "pc_ok pc a" and "unat (SND_NXT (SND a)) \<le> snd_edge a" and "SND_NXT (SND a) \<le> SND_LBW (SND a)"
  shows "unat (SND_NXT (SND a) + ahead pc a) = unat (SND_NXT (SND a)) + unat (ahead pc a)"
    and "unat (SND_NXT (SND a) + ahead pc a) \<le> sent_upto pc a"
    and "unat (SND_NXT (SND a) + ahead pc a) \<le> snd_edge a" and "sent_upto pc a \<le> unat (SND_LBW (SND a))"
proof -
  have b: "sent_upto pc a \<le> unat (SND_LBW (SND a))" "unat (SND_NXT (SND a)) + unat (ahead pc a) \<le> sent_upto pc a"
    "unat (SND_NXT (SND a)) + unat (ahead pc a) \<le> snd_edge a"
    using assms by (cases pc; force simp: sent_upto_def ahead_def burst_ok_def snd_edge_def u32_le_nat u32_less_nat)+
  then show n: "unat (SND_NXT (SND a) + ahead pc a) = unat (SND_NXT (SND a)) + unat (ahead pc a)"
    using unat_u32_less [of "SND_LBW (SND a)"] by (intro unat_add_u32) simp
  show "unat (SND_NXT (SND a) + ahead pc a) \<le> sent_upto pc a" "unat (SND_NXT (SND a) + ahead pc a) \<le> snd_edge a"
    "sent_upto pc a \<le> unat (SND_LBW (SND a))" using b n by simp_all
qed

lemma snd_inv_settled:
  assumes "snd_inv ns str pc a"
  shows "unat (SND_NXT (SND a) + ahead pc a) = unat (SND_NXT (SND a)) + unat (ahead pc a)"
    and "unat (SND_NXT (SND a) + ahead pc a) \<le> sent_upto pc a"
    and "unat (SND_NXT (SND a) + ahead pc a) \<le> snd_edge a" and "sent_upto pc a \<le> unat (SND_LBW (SND a))"
proof -
  have "SND_NXT (SND a) \<le> SND_LBW (SND a)"
  proof (cases "ahead pc a = 0")
    case True
    then show ?thesis using assms by (simp add: snd_inv_def snd_agrees_def snd_ok_def)
  next
    case False
    have "pc_ok pc a" using assms by (simp add: snd_inv_def)
    then show ?thesis using False by (cases pc) (auto simp: ahead_def burst_ok_def u32_le_nat u32_less_nat)
  qed
  then show "unat (SND_NXT (SND a) + ahead pc a) = unat (SND_NXT (SND a)) + unat (ahead pc a)"
    "unat (SND_NXT (SND a) + ahead pc a) \<le> sent_upto pc a"
    "unat (SND_NXT (SND a) + ahead pc a) \<le> snd_edge a" "sent_upto pc a \<le> unat (SND_LBW (SND a))"
    using settled_nxt [of pc a] assms by (simp_all add: snd_inv_def)
qed

lemma snd_inv_facts:
  assumes "snd_inv ns str pc a"
  shows "length (SND_Buffer (SND a)) = 65535" and "sent_upto pc a \<le> unat (SND_LBW (SND a))"
    and "unat (SND_UNA (SND a)) \<le> sent_upto pc a" and "snd_ready a" and "snd_edge a < 2 ^ 32"
    and "pc = SendZero \<Longrightarrow> RetransmissionQueue a = []"
proof -
  let ?u = "settled pc a"
  have ok: "snd_ok (SND ?u)" "\<forall>seg \<in> set (RetransmissionQueue a). seg_placed (SND ?u) seg"
    using assms by (auto simp: snd_inv_def snd_agrees_def)
  show l: "length (SND_Buffer (SND a)) = 65535" using ok(1) by (simp add: snd_ok_def)
  note nxt = snd_inv_settled [OF assms]
  show "sent_upto pc a \<le> unat (SND_LBW (SND a))" by (rule nxt(4))
  show "unat (SND_UNA (SND a)) \<le> sent_upto pc a" using ok(1) nxt(2) by (simp add: snd_ok_def u32_le_nat)
  show "snd_edge a < 2 ^ 32"
    using ok(1) assms unat_u32_less [of "SND_LBW (SND a)"] by (auto simp: snd_inv_def snd_edge_def snd_ok_def u32_le_nat)
  have "unat (PayloadLen seg) \<le> 65535" if "seg \<in> set (RetransmissionQueue a)" for seg
    using ok that by (auto simp: seg_placed_def snd_ok_def u32_le_nat)
  then show "snd_ready a" using l assms by (simp add: snd_ready_def snd_inv_def)
  show "RetransmissionQueue a = []" if z: "pc = SendZero"
  proof (rule ccontr)
    assume "RetransmissionQueue a \<noteq> []"
    then obtain seg where s: "seg \<in> set (RetransmissionQueue a)" by (meson last_in_set)
    then have "0 < unat (PayloadLen seg)" using assms by (auto simp: snd_inv_def u32_less_nat)
    moreover have "pc_ok SendZero a" using assms z by (simp add: snd_inv_def)
    ultimately show False
      using s ok(2) nxt(1) z by (auto simp: seg_placed_def u32_le_nat ahead_def split: if_splits)
  qed
qed

lemma fetch_from_stream:
  assumes "snd_agrees str a" and "SND_UNA (SND a) \<le> sq" and "unat sq + n \<le> unat (SND_LBW (SND a))"
  shows "from_stream str sq (ring_fetch (SND_Buffer (SND a)) (unat sq) n)"
  using fetch_stream [OF assms(1), of "unat sq" n] assms(2,3) by (simp add: from_stream_def u32_le_nat)

lemma queued_sent_ok:
  assumes "snd_inv ns str pc a" and "seg \<in> set (RetransmissionQueue a)"
  shows "sent_ok ns key str pc a (queued_message ns key a seg)"
proof -
  let ?u = "settled pc a"
  have a: "snd_agrees str ?u" "seg_placed (SND ?u) seg" "0 < PayloadLen seg" "hdr_ok ns (TCPHeader seg)" "snd_ok (SND ?u)"
    using assms by (auto simp: snd_inv_def snd_agrees_def)
  note nxt = snd_inv_settled [OF assms(1)]
  let ?p = "ring_fetch (SND_Buffer (SND a)) (unat (SeqNum (TCPHeader seg))) (unat (PayloadLen seg))"
  have "from_stream str (SeqNum (TCPHeader seg)) ?p"
    using fetch_from_stream [OF a(1), of "SeqNum (TCPHeader seg)" "unat (PayloadLen seg)"] a
    by (auto simp: seg_placed_def snd_ok_def u32_le_nat)
  moreover have "length ?p = unat (PayloadLen seg)" "?p \<noteq> []"
    using a(3) length_0_conv [of ?p] by (auto simp: u32_less_nat)
  ultimately show ?thesis
    unfolding sent_ok_def queued_message_def
    using a(2,4) nxt(2,3) by (intro exI [of _ "TCPHeader seg"] exI [of _ ?p]) (auto simp: seg_placed_def)
qed

definition same_sending :: "TCB \<Rightarrow> TCB \<Rightarrow> bool" where
  "same_sending a a' \<longleftrightarrow> SND a' = SND a \<and> RetransmissionQueue a' = RetransmissionQueue a \<and> CWND a' = CWND a
     \<and> CControlEnabled a' = CControlEnabled a \<and> Cancelled a' = Cancelled a"

lemma same_sending_inv:
  assumes "same_sending a a'"
  shows "snd_inv ns str pc a' = snd_inv ns str pc a" and "sent_ok ns key str pc a' = sent_ok ns key str pc a"
    and "sent_upto pc a' = sent_upto pc a" and "snd_edge a' = snd_edge a"
proof -
  have e: "SND a' = SND a" "RetransmissionQueue a' = RetransmissionQueue a" "CWND a' = CWND a" "CControlEnabled a' = CControlEnabled a"
    "Cancelled a' = Cancelled a"
    using assms by (simp_all add: same_sending_def)
  then show s: "sent_upto pc a' = sent_upto pc a" "snd_edge a' = snd_edge a" by (simp_all add: sent_upto_def snd_edge_def)
  have "SND (settled pc a') = SND (settled pc a)" using e by (simp add: settled_def ahead_def)
  then have "snd_agrees str (settled pc a') = snd_agrees str (settled pc a)" using e(2) by (simp add: snd_agrees_def)
  moreover have "pc_ok pc a' = pc_ok pc a" using e s by (cases pc) (simp_all add: burst_ok_def)
  ultimately show "snd_inv ns str pc a' = snd_inv ns str pc a" using e s by (simp add: snd_inv_def)
  show "sent_ok ns key str pc a' = sent_ok ns key str pc a" using e s by (simp add: sent_ok_def fun_eq_iff)
qed

lemma waitTimeout_frame:
  assumes "snd_ready a" and "\<not> CControlEnabled a" and "waitTimeout_fire ns now key a = Inr (a', fx, go_on)"
  shows "same_sending a a' \<and> (ip_sends fx = [] \<or> (\<exists>seg \<in> set (RetransmissionQueue a). ip_sends fx = [queued_message ns key a seg]))"
proof (cases "RetransmissionQueue a")
  case Nil
  then show ?thesis using assms(3) by (auto simp: waitTimeout_fire_def same_sending_def split: if_splits)
next
  case (Cons seg rest)
  let ?t = "a\<lparr>RetransmitCounter := RetransmitCounter a + 1\<rparr>"
  have "retransmit_first ns now key ?t = Inr (?t\<lparr>SegmentToTimestamp := (SegmentToTimestamp ?t)
      (SequenceToBufferInd (SeqNum (TCPHeader seg)) + PayloadLen seg \<mapsto> now), RTO := i64 (RTO ?t * 2)\<rparr>,
    queued_message ns key ?t seg)"
    using assms(1) Cons by (intro retransmit_first_Cons) (auto simp: snd_ready_def)
  then show ?thesis
    using assms(2,3) Cons
    by (auto simp: waitTimeout_fire_def same_sending_def queued_message_def Let_def split: if_splits)
qed

lemma timer_step:
  assumes "snd_inv ns str pc a" and "waitTimeout_fire ns now key a = Inr (a', fx, go_on)"
  shows "same_sending a a'" and "\<forall>m \<in> set (ip_sends fx). sent_ok ns key str pc a m"
  using waitTimeout_frame [OF snd_inv_facts(4) [OF assms(1)] _ assms(2)] queued_sent_ok [OF assms(1)] assms(1)
  by (auto simp: snd_inv_def)

lemma probe_step:
  assumes "snd_inv ns str SendZero a" and "zero_probe_tick ns key a = Inr (fx, go_on)"
  shows "\<forall>m \<in> set (ip_sends fx). sent_ok ns key str SendZero a m"
proof (cases "SND_WND (SND a) = 0")
  case True
  then have a: "snd_agrees str a" "SND_UNA (SND a) = SND_NXT (SND a)" "SND_NXT (SND a) < SND_LBW (SND a)"
    using assms(1) settled_plain [of SendZero a] by (auto simp: snd_inv_def ahead_def u32_eq_nat)
  let ?p = "[SND_Buffer (SND a) ! unat (SequenceToBufferInd (SND_NXT (SND a)))]"
  have "?p = ring_fetch (SND_Buffer (SND a)) (unat (SND_NXT (SND a))) 1"
    using snd_inv_facts(1) [OF assms(1)] by (simp add: ring_fetch_def ring_at_def u32_nat)
  then have "from_stream str (SND_NXT (SND a)) ?p"
    using fetch_from_stream [OF a(1), of "SND_NXT (SND a)" 1] a by (simp add: u32_less_nat)
  then have "sent_ok ns key str SendZero a (ip_message ns (LocalAddr key) (DestAddr key) (data_header ns key a ?p) ?p)"
    unfolding sent_ok_def
    by (intro exI [of _ "data_header ns key a ?p"] exI [of _ ?p]) (simp add: sent_upto_def, simp add: data_header_def)
  then show ?thesis using assms(2) by (auto simp: zero_probe_tick_def Let_def split: if_splits)
next
  case False
  then have "SND_NXT (SND a) < SND_UNA (SND a)" using assms(1) by (simp add: snd_inv_def u32_less_nat)
  then have "sent_ok ns key str SendZero a (ip_message ns (LocalAddr key) (DestAddr key) (data_header ns key a p) p)" if "p \<noteq> []" for p
    unfolding sent_ok_def using that
    by (intro exI [of _ "data_header ns key a p"] exI [of _ p]) (simp, simp add: data_header_def)
  then show ?thesis using assms(2) by (auto simp: zero_probe_tick_def Let_def split: if_splits)
qed

lemma write_copy_NXT:
  "write_copy (a\<lparr>SND := (SND a)\<lparr>SND_NXT := x\<rparr>\<rparr>) c =
    gbind (write_copy a c) (\<lambda>(t, c', fx). Inr (t\<lparr>SND := (SND t)\<lparr>SND_NXT := x\<rparr>\<rparr>, c', fx))"
  by (cases a, cases "SND a") (auto simp: write_copy_def Let_def gbind_def split: sum.splits)

lemma Write_step_cases:
  assumes "Write_step vc a c = Inr (a', c', fx)"
  obtains "a' = a" and "write_progress c c' = []" | "write_copy a c = Inr (a', c', fx)"
proof -
  have "a' = a \<and> wr_written c' = wr_written c \<or> write_copy a c = Inr (a', c', fx)"
    using assms by (auto simp: write_room_def split: write_pc.splits if_splits)
  then show ?thesis using that by (auto simp: write_progress_def)
qed

lemma write_step:
  assumes "snd_inv ns str pc a" and "write_wf c" and "Write_step vc a c = Inr (a', c', fx)"
  defines "xs \<equiv> write_progress c c'" and "lbw \<equiv> unat (SND_LBW (SND a))"
  assumes "xs = map str [lbw..<lbw + length xs]" and "lbw + length xs + 65536 \<le> 2 ^ 32"
  shows "snd_inv ns str pc a'" and "unat (SND_LBW (SND a')) = lbw + length xs"
    and "SND_UNA (SND a') = SND_UNA (SND a)" "SND_NXT (SND a') = SND_NXT (SND a)" "SND_WND (SND a') = SND_WND (SND a)"
proof -
  let ?goal = "snd_inv ns str pc a' \<and> unat (SND_LBW (SND a')) = lbw + length xs
    \<and> SND_UNA (SND a') = SND_UNA (SND a) \<and> SND_NXT (SND a') = SND_NXT (SND a) \<and> SND_WND (SND a') = SND_WND (SND a)"
  have ?goal using assms(3)
  proof (cases rule: Write_step_cases)
    case 1
    then show ?thesis using assms(1) by (simp add: xs_def lbw_def)
  next
    case 2
    let ?u = "settled pc a" and ?n = "write_amount (settled pc a) c"
    have u: "snd_agrees str ?u" "snd_ok (SND ?u)" using assms(1) by (auto simp: snd_inv_def snd_agrees_def)
    have n: "length (unacked (SND ?u)) + ?n \<le> 65535" "unat (wr_written c) + ?n \<le> length (wr_data c)"
      using u(2) assms(2) by (auto simp: write_amount_def snd_ok_def unacked_def write_wf_def)
    have lt: "unat (SND_LBW (SND ?u)) + ?n < 2 ^ 32" using assms(1) n(1) by (simp add: snd_inv_def)
    obtain w l where w: "unat w = unat (wr_written c) + ?n" "unat l = unat (SND_LBW (SND ?u)) + ?n"
      "write_copy ?u c = Inr (?u\<lparr>SND := (SND ?u)\<lparr>SND_Buffer := ring_store (SND_Buffer (SND ?u)) (unat (SND_LBW (SND ?u)))
          (take ?n (drop (unat (wr_written c)) (wr_data c))), SND_LBW := l\<rparr>\<rparr>, c\<lparr>wr_written := w, wr_pc := WriteLoop\<rparr>, [SignalSend])"
      by (rule write_copy_store [OF u(2) assms(2) lt])
    have uc: "write_copy ?u c = Inr (settled pc a', c', fx) \<and> SND_UNA (SND a') = SND_UNA (SND a)
        \<and> SND_NXT (SND a') = SND_NXT (SND a) \<and> SND_WND (SND a') = SND_WND (SND a) \<and> RetransmissionQueue a' = RetransmissionQueue a
        \<and> CWND a' = CWND a \<and> CControlEnabled a' = CControlEnabled a \<and> Cancelled a' = Cancelled a"
      using 2 by (auto simp: settled_def write_copy_NXT) (auto simp: write_copy_def Let_def gbind_Inr_iff ahead_def)
    have xs: "xs = take ?n (drop (unat (wr_written c)) (wr_data c))" "length xs = ?n"
      using uc w n(2) by (auto simp: xs_def write_progress_def)
    have "snd_agrees str (settled pc a')"
      using agrees_write [OF u(1), of xs l] uc w n(1) xs assms(6) by (simp add: lbw_def)
    moreover have "SND_LBW (SND (settled pc a')) = l"
      using arg_cong [OF trans [OF sym [OF w(3)] conjunct1 [OF uc]], of "\<lambda>r. case r of Inr (t, _) \<Rightarrow> SND_LBW (SND t) | Inl _ \<Rightarrow> 0"] by simp
    then have l: "unat (SND_LBW (SND a')) = lbw + length xs" using w(2) xs(2) by (simp add: lbw_def)
    moreover have "pc_ok pc a'" using assms(1) uc l by (cases pc) (auto simp: snd_inv_def snd_edge_def burst_ok_def lbw_def u32_less_nat)
    ultimately show ?thesis using uc assms(1,7) by (simp add: snd_inv_def snd_edge_def)
  qed
  then show "snd_inv ns str pc a'" "unat (SND_LBW (SND a')) = lbw + length xs"
    "SND_UNA (SND a') = SND_UNA (SND a)" "SND_NXT (SND a') = SND_NXT (SND a)" "SND_WND (SND a') = SND_WND (SND a)" by simp_all
qed

lemma send_wait_inv:
  assumes "snd_inv ns str SendTop a" and "r = send_inner key a \<or> r = send_data_wait SendData1 send_plan a
      \<or> r = send_data_wait SendData2 (send_zero key) a \<or> r = send_ack_wait a \<or> r = (SendReturned, a, [])"
  shows "\<exists>pc fx. r = (pc, a, fx) \<and> snd_inv ns str pc a \<and> ip_sends fx = []"
proof -
  have a: "snd_agrees str a" "snd_ok (SND a)" "unat (SND_NXT (SND a)) \<le> snd_edge a" "send_window a = SND_WND (SND a)"
    using assms(1) by (auto simp: snd_inv_def settled_def ahead_def snd_agrees_def send_window_def u32_eq_nat unat_Min32 u32_le_nat)
  have other: "snd_inv ns str pc a" if "pc_ok pc a" "ahead pc a = 0" for pc
    using assms(1) that settled_plain [of pc a] settled_plain [of SendTop a] by (simp add: snd_inv_def ahead_def)
  have le: "SND_NXT (SND a) \<le> SND_LBW (SND a)" "SND_UNA (SND a) \<le> SND_NXT (SND a)" using a(2) by (simp_all add: snd_ok_def)
  have win: "unat (SND_UNA (SND a) + send_window a) = snd_edge a"
    using snd_inv_facts(5) [OF assms(1)] a(4) by (simp add: snd_edge_def unat_add_u32)
  have plan: "\<exists>amt. send_plan a = (SendSegment amt 0, a, []) \<and> pc_ok (SendSegment amt 0) a"
    using a(3) le win
    by (auto simp: send_plan_def Let_def burst_ok_def unat_Min32 unat_sub_u32 u32_le_nat)
  have zero: "\<exists>pc fx. send_zero key a = (pc, a, fx) \<and> snd_inv ns str pc a \<and> ip_sends fx = []"
  proof (cases "SND_WND (SND a) = 0 \<and> SND_LBW (SND a) > SND_NXT (SND a)")
    case True
    then have "pc_ok SendZero a" using a(3) le by (simp add: snd_edge_def u32_le_nat)
    then show ?thesis using True other [of SendZero] by (simp add: send_zero_def ahead_def)
  next
    case False
    then show ?thesis using other by (auto simp: send_zero_def send_ack_wait_def ahead_def)
  qed
  show ?thesis
    using assms(2) plan zero other
    by (auto simp: send_inner_def send_data_wait_def send_ack_wait_def ahead_def)
qed

lemma segment_step:
  assumes "snd_inv ns str (SendSegment amt sent) a" and "sent < amt"
    and "send_segment ns key amt sent a = Inr (pc', a', fx)"
  shows "snd_inv ns str pc' a' \<and> SND_UNA (SND a') = SND_UNA (SND a) \<and> SND_WND (SND a') = SND_WND (SND a)
    \<and> SND_LBW (SND a') = SND_LBW (SND a) \<and> sent_upto (SendSegment amt sent) a \<le> sent_upto pc' a'
    \<and> (\<forall>m \<in> set (ip_sends fx). sent_ok ns key str pc' a' m)"
proof -
  let ?n = "Min32 (amt - sent) MSS_DATA"
  let ?seg = "sent_segment ns key a ?n"
  have a: "snd_agrees str a" "length (SND_Buffer (SND a)) = 65535" "\<not> Cancelled a" "burst_ok amt sent a"
    using assms(1) settled_plain [of "SendSegment amt sent" a] by (auto simp: snd_inv_def ahead_def snd_agrees_def snd_ok_def)
  have n: "unat ?n = min (unat (amt - sent)) 1360" by (simp add: unat_Min32)
  have r: "pc' = SendAdvance amt sent ?n" "a' = a\<lparr>RetransmissionQueue := RetransmissionQueue a @ [?seg]\<rparr>"
    "fx = [IPSend (queued_message ns key a ?seg)]"
    using assms(3) send_segment_step [OF a(2) assms(2) a(3), of ns key] by auto
  have fits: "unat (SND_NXT (SND a)) + unat ?n \<le> unat (SND_LBW (SND a))" using a(4) n by (auto simp: burst_ok_def)
  have "snd_agrees str (settled pc' a')"
    by (rule agrees_send(1) [OF a(1) fits]) (simp_all add: r settled_def ahead_def)
  moreover have "pc_ok pc' a'" using a(4) n by (simp add: r(1,2) burst_ok_def snd_edge_def u32_le_nat)
  moreover have "0 < ?n" using n assms(2) by (simp add: u32_less_nat unat_sub_u32 less_imp_le)
  moreover have "hdr_ok ns (TCPHeader ?seg)" by (simp add: sent_segment_def Let_def)
  ultimately have "snd_inv ns str pc' a'"
    using assms(1) r(2) by (auto simp: snd_inv_def snd_edge_def)
  moreover from queued_sent_ok [OF this, of ?seg key] have "\<forall>m \<in> set (ip_sends fx). sent_ok ns key str pc' a' m"
    using r by (simp add: queued_message_def)
  ultimately show ?thesis using r by (simp add: sent_upto_def)
qed

lemma advance_step:
  assumes "snd_inv ns str (SendAdvance amt sent n) a"
  defines "a' \<equiv> settled (SendAdvance amt sent n) a"
  shows "snd_inv ns str (SendStamp amt (sent + n)) a'" and "sent_upto (SendStamp amt (sent + n)) a' = sent_upto (SendAdvance amt sent n) a"
proof -
  have b: "burst_ok amt sent a" "n \<le> amt - sent" using assms(1) by (simp_all add: snd_inv_def)
  have nxt: "unat (SND_NXT (SND a) + n) = unat (SND_NXT (SND a)) + unat n" "unat (SND_NXT (SND a) + n) \<le> snd_edge a"
    using snd_inv_settled [OF assms(1)] by (simp_all add: ahead_def)
  have le: "unat sent \<le> unat amt" "unat (amt - sent) = unat amt - unat sent" "unat n \<le> unat amt - unat sent"
    using b by (simp_all add: burst_ok_def u32_le_nat unat_sub_u32)
  have sum: "unat (sent + n) = unat sent + unat n" using le unat_u32_less [of amt] by (subst unat_add_u32) auto
  have "sent + n \<le> amt" "unat (amt - (sent + n)) = unat (amt - sent) - unat n"
    using le sum by (auto simp: u32_le_nat unat_sub_u32)
  then have "burst_ok amt (sent + n) a'"
    using b(1) le nxt(1) by (auto simp: a'_def burst_ok_def settled_def snd_edge_def ahead_def)
  moreover have "settled (SendStamp amt (sent + n)) a' = settled (SendAdvance amt sent n) a" by (simp add: a'_def settled_def ahead_def)
  ultimately show "snd_inv ns str (SendStamp amt (sent + n)) a'"
    using assms(1) nxt by (simp add: snd_inv_def) (simp add: a'_def settled_def snd_edge_def ahead_def)
  show "sent_upto (SendStamp amt (sent + n)) a' = sent_upto (SendAdvance amt sent n) a"
    using nxt(1) by (simp add: a'_def sent_upto_def ahead_def)
qed

lemma probed_step:
  assumes "snd_inv ns str SendZero a" and "SND_WND (SND a) \<noteq> 0"
  shows "snd_inv ns str SendTop (settled SendZero a)" and "sent_upto SendZero a = sent_upto SendTop (settled SendZero a)"
proof -
  have pc: "unat (SND_UNA (SND a)) = unat (SND_NXT (SND a)) + 1" using assms by (simp add: snd_inv_def)
  have n: "unat (SND_NXT (SND a) + 1) = unat (SND_NXT (SND a)) + 1"
    using snd_inv_settled(1) [OF assms(1)] assms(2) by (simp add: ahead_def)
  then show "sent_upto SendZero a = sent_upto SendTop (settled SendZero a)" using assms(2) by (simp add: sent_upto_def ahead_def)
  have "settled SendTop (settled SendZero a) = settled SendZero a" by (rule settled_plain) (simp add: ahead_def)
  then show "snd_inv ns str SendTop (settled SendZero a)"
    using assms n pc by (simp add: snd_inv_def) (simp add: settled_def ahead_def snd_edge_def)
qed

lemma send_step:
  assumes "snd_inv ns str pc a" and "Send_step ns now key pc a = Inr (pc', a', fx)"
  shows "snd_inv ns str pc' a'" and "SND_UNA (SND a') = SND_UNA (SND a)" "SND_WND (SND a') = SND_WND (SND a)"
    "SND_LBW (SND a') = SND_LBW (SND a)" and "sent_upto pc a \<le> sent_upto pc' a'"
    and "\<forall>m \<in> set (ip_sends fx). sent_ok ns key str pc' a' m"
proof -
  let ?goal = "snd_inv ns str pc' a' \<and> SND_UNA (SND a') = SND_UNA (SND a) \<and> SND_WND (SND a') = SND_WND (SND a)
    \<and> SND_LBW (SND a') = SND_LBW (SND a) \<and> sent_upto pc a \<le> sent_upto pc' a'
    \<and> (\<forall>m \<in> set (ip_sends fx). sent_ok ns key str pc' a' m)"
  have wait: ?goal if "snd_inv ns str SendTop a" "sent_upto pc a = unat (SND_NXT (SND a))" "(pc', a', fx) \<in> {send_inner key a,
      send_data_wait SendData1 send_plan a, send_data_wait SendData2 (send_zero key) a, send_ack_wait a, (SendReturned, a, [])}"
  proof -
    have "\<exists>pc1 fx1. (pc', a', fx) = (pc1, a, fx1) \<and> snd_inv ns str pc1 a \<and> ip_sends fx1 = []"
      by (rule send_wait_inv [OF that(1)]) (use that(3) in auto)
    then show ?thesis using that(2) by (auto simp: sent_upto_def [of pc' a])
  qed
  have top: "snd_inv ns str SendTop a" if "ahead pc a = 0"
    using assms(1) settled_plain [OF that] settled_plain [of SendTop a] by (simp add: snd_inv_def ahead_def)
  have ?goal
  proof (cases pc)
    case (SendSegment amt sent)
    show ?thesis
    proof (cases "sent < amt")
      case True
      then show ?thesis using segment_step [of ns str amt sent a] assms SendSegment by simp
    next
      case False
      then have "(pc', a', fx) \<in> {send_inner key a, (SendReturned, a, [])}"
        using assms(2) SendSegment by (auto simp: send_segment_def Let_def gbind_Inr_iff split: if_splits)
      moreover have "sent_upto pc a = unat (SND_NXT (SND a))" "ahead pc a = 0" using SendSegment by (simp_all add: sent_upto_def ahead_def)
      ultimately show ?thesis using wait top by blast
    qed
  next
    case (SendAdvance amt sent n)
    then show ?thesis
      using assms advance_step [of ns str amt sent n a] by (auto simp: send_advance_def settled_def ahead_def)
  next
    case (SendStamp amt sent)
    have "same_sending a a'" "pc' = SendSegment amt sent" "ip_sends fx = []"
      using assms(2) SendStamp by (auto simp: send_stamp_def same_sending_def)
    moreover have "snd_inv ns str (SendSegment amt sent) a"
      using assms(1) SendStamp settled_plain [of _ a] by (simp add: snd_inv_def ahead_def)
    ultimately show ?thesis using same_sending_inv [of a a'] SendStamp by (simp add: sent_upto_def same_sending_def)
  next
    case SendZero
    have "\<not> Cancelled a" using assms(1) by (simp add: snd_inv_def)
    show ?thesis
    proof (cases "SND_WND (SND a) = 0")
      case True
      then show ?thesis using assms SendZero \<open>\<not> Cancelled a\<close> by simp
    next
      case False
      note p = probed_step [OF assms(1) [unfolded SendZero] False]
      obtain fx1 where f: "(pc', a', fx1) = send_ack_wait (settled SendZero a)" "ip_sends fx = ip_sends fx1"
        using assms(2) SendZero False \<open>\<not> Cancelled a\<close>
        by (auto simp: settled_def ahead_def split: prod.splits)
      have "\<exists>pc1 fx2. (pc', a', fx1) = (pc1, settled SendZero a, fx2) \<and> snd_inv ns str pc1 (settled SendZero a) \<and> ip_sends fx2 = []"
        by (rule send_wait_inv [OF p(1)]) (use f in simp)
      then show ?thesis using p f(2) False SendZero by (auto simp: settled_def sent_upto_def)
    qed
  qed (use assms(2) wait top in \<open>auto simp: sent_upto_def ahead_def split: if_splits\<close>)
  then show "snd_inv ns str pc' a'" "SND_UNA (SND a') = SND_UNA (SND a)" "SND_WND (SND a') = SND_WND (SND a)"
    "SND_LBW (SND a') = SND_LBW (SND a)" "sent_upto pc a \<le> sent_upto pc' a'"
    "\<forall>m \<in> set (ip_sends fx). sent_ok ns key str pc' a' m" by blast+
qed

lemma receive_ack_frame:
  assumes "\<not> CControlEnabled a" and "receive_ack ns now key h a = Inr (a', fx)"
  shows "CWND a' = CWND a" and "Cancelled a' = Cancelled a" and "CControlEnabled a' = CControlEnabled a"
    and "ack_rejected h (SND a) \<Longrightarrow> a' = a \<and> fx = []"
  using assms
  by (auto simp: receive_ack_def Let_def removeFromRetransmissionQueue_def updateTimeout_def split: if_splits option.splits prod.splits)

lemma ack_step:
  assumes "snd_inv ns str pc a" and "receive_ack ns now key h a = Inr (a', fx)"
    and "unat (AckNum h) \<le> sent_upto pc a"
    and "SND_UNA (SND a) < AckNum h \<Longrightarrow> snd_edge a \<le> unat (AckNum h) + unat (WindowSize h)"
  shows "snd_inv ns str pc a'" and "ip_sends fx = []" and "sent_upto pc a' = sent_upto pc a"
    and "SND_LBW (SND a') = SND_LBW (SND a)"
    and "SND_UNA (SND a') = SND_UNA (SND a) \<and> snd_edge a' = snd_edge a
      \<or> SND_UNA (SND a) < AckNum h \<and> SND_UNA (SND a') = AckNum h \<and> snd_edge a' = unat (AckNum h) + unat (WindowSize h)"
proof -
  let ?goal = "snd_inv ns str pc a' \<and> ip_sends fx = [] \<and> sent_upto pc a' = sent_upto pc a \<and> SND_LBW (SND a') = SND_LBW (SND a)
    \<and> (SND_UNA (SND a') = SND_UNA (SND a) \<and> snd_edge a' = snd_edge a
      \<or> SND_UNA (SND a) < AckNum h \<and> SND_UNA (SND a') = AckNum h \<and> snd_edge a' = unat (AckNum h) + unat (WindowSize h))"
  have cc: "\<not> CControlEnabled a" using assms(1) by (simp add: snd_inv_def)
  note f = receive_ack_frame [OF cc assms(2)]
  have ?goal
  proof (cases "ack_rejected h (SND a)")
    case True
    then show ?thesis using f(4) assms(1) by simp
  next
    case False
    have "\<not> third_dup h a" using cc by (simp add: third_dup_def dup_ack_def)
    then obtain b fx' where b: "receive_ack ns now key h a = Inr (b, fx')" "same_receiver a b"
      "SND_UNA (SND b) = AckNum h" "SND_WND (SND b) = ucast (WindowSize h)"
      "RetransmissionQueue b = dropWhile (\<lambda>s. SeqNum (TCPHeader s) < AckNum h) (RetransmissionQueue a)" "ip_sends fx' = []"
      by (rule receive_ack_accepted [OF _ False snd_inv_facts(4) [OF assms(1)], of ns now key])
    then have e: "a' = b" "fx = fx'" using assms(2) by simp_all
    have s: "SND_Buffer (SND a') = SND_Buffer (SND a)" "SND_NXT (SND a') = SND_NXT (SND a)" "SND_LBW (SND a') = SND_LBW (SND a)"
      using b(2) e by (simp_all add: same_receiver_def)
    have una: "SND_UNA (SND a) < AckNum h" using False by (auto simp: ack_rejected_def split: if_splits)
    have edge: "snd_edge a' = unat (AckNum h) + unat (WindowSize h)" using b(3,4) e by (simp add: snd_edge_def)
    have w: "unat (SND_WND (SND a')) \<le> 65535" using b(4) e unat_u16_less [of "WindowSize h"] by simp
    have zero: "SND_WND (SND a) = 0 \<and> unat (AckNum h) = unat (SND_NXT (SND a)) + 1 \<and> SND_WND (SND a') \<noteq> 0" if "pc = SendZero"
    proof -
      have "pc_ok SendZero a" using assms(1) that by (simp add: snd_inv_def)
      then have z: "SND_WND (SND a) = 0 \<and> unat (AckNum h) = unat (SND_NXT (SND a)) + 1"
        using una assms(3) that by (auto simp: sent_upto_def u32_less_nat split: if_splits)
      then have "WindowSize h \<noteq> 0" using False by (auto simp: ack_rejected_def u32_less_nat split: if_splits)
      moreover have "unat (SND_WND (SND a')) = unat (WindowSize h)" using b(4) e by simp
      ultimately show ?thesis using z by (metis unsigned_0 unsigned_eq_0_iff)
    qed
    note ok = snd_inv_facts [OF assms(1)]
    have old: "snd_agrees str (settled pc a)" "snd_ok (SND (settled pc a))" "pc_ok pc a" "unat (SND_NXT (SND a)) \<le> snd_edge a"
      using assms(1) by (auto simp: snd_inv_def snd_agrees_def)
    have nxt: "unat (SND_NXT (SND (settled pc a'))) = sent_upto pc a"
      using zero s ok(2) unat_u32_less [of "SND_LBW (SND a)"] by (cases pc) (auto simp: ahead_def sent_upto_def unat_add_u32)
    have segs: "seg_placed (SND (settled pc a')) seg" if "seg \<in> set (RetransmissionQueue a')" for seg
    proof -
      have "seg \<in> set (RetransmissionQueue a)" using that b(5) e by (auto dest: set_dropWhileD)
      moreover from this have "pc \<noteq> SendZero" using ok(6) by fastforce
      moreover have "AckNum h \<le> SeqNum (TCPHeader seg)"
        using that b(5) e old(1) dropWhile_below [of "\<lambda>s. SeqNum (TCPHeader s)"] by (auto simp: snd_agrees_def)
      ultimately show ?thesis
        using old(1) b(3) e s by (cases pc) (auto simp: snd_agrees_def seg_placed_def ahead_def)
    qed
    have "snd_agrees str (settled pc a')"
      using old(1,2) segs nxt b(3,5) e s ok(2) una assms(3) sorted_map_dropWhile
      by (auto simp: snd_agrees_def snd_ok_def u32_le_nat u32_less_nat)
    moreover have "pc_ok pc a'"
      using old(3) zero s b(3) e edge assms(4) [OF una] by (cases pc) (auto simp: burst_ok_def)
    ultimately show ?thesis
      using assms(1) f cc w edge assms(4) [OF una] old(4) s b e una
      by (auto simp: snd_inv_def sent_upto_def u32_le_nat dest!: set_dropWhileD)
  qed
  then show "snd_inv ns str pc a'" "ip_sends fx = []" "sent_upto pc a' = sent_upto pc a" "SND_LBW (SND a') = SND_LBW (SND a)"
    "SND_UNA (SND a') = SND_UNA (SND a) \<and> snd_edge a' = snd_edge a
      \<or> SND_UNA (SND a) < AckNum h \<and> SND_UNA (SND a') = AckNum h \<and> snd_edge a' = unat (AckNum h) + unat (WindowSize h)" by blast+
qed

end
