(* ===== verification/Reliability.thy ===== *)
theory Reliability
  imports Endpoints
begin

text \<open>
  The two ends of a connection and the network between them. One side writes and sends
  (\<open>Write\<close>, the goroutine \<open>Send\<close>, the zero-window probes and the retransmission timer), the other
  side receives and reads; both handle arriving segments with \<open>HandleEstablished\<close>. The network may
  lose, delay, reorder and repeat what is sent: it is the set of all messages ever sent, and any
  of them may arrive at any time. What is shown is the service TCP promises: the bytes handed to the
  reading application are always a prefix of the bytes accepted from the writing application.

  The statements hold while sequence numbers stay below the end of the 32-bit space, without congestion
  control (\<open>CControlEnabled\<close> is false at the start, and no step turns it on), for data in one direction, and with one reader at
  a time. The steps are the parts between two points where the code takes or releases the lock or shares memory without it.
  Three interleavings of the code are left out, because the code goes wrong there: a data segment handled between \<open>Read\<close>'s load and store of
  \<open>RCV.WND\<close>, a change of the retransmission queue by \<open>Receive\<close> in the middle of \<open>Send\<close>'s append to it, and a tick of the
  zero-window probe between \<open>SND.NXT += 1\<close> and the cancellation that follows it.
\<close>

section \<open>The system\<close>

record tcp_sys =
  sender :: TCB
  sender_pc :: send_pc
  receiver :: TCB
  reader :: read_call
  to_receiver :: "byte list set"        \<comment> \<open>messages of the sending side to the IP layer\<close>
  to_sender :: "byte list set"
  accepted :: "byte list"               \<comment> \<open>the bytes \<open>Write\<close> has put into the send buffer\<close>
  delivered :: "byte list"              \<comment> \<open>the bytes \<open>Read\<close> has copied to the application\<close>
  locked :: bool                        \<comment> \<open>a \<open>Write\<close> has returned without releasing the lock of the sending side\<close>

fun lock_free :: "send_pc \<Rightarrow> bool" where
  \<comment> \<open>where \<open>Send\<close> goes on without taking the lock\<close>
  "lock_free (SendSegment amt sent) \<longleftrightarrow> sent < amt"
| "lock_free (SendAdvance amt sent n) \<longleftrightarrow> True"
| "lock_free pc \<longleftrightarrow> False"

inductive tcp_step :: "netstack \<Rightarrow> SocketData \<Rightarrow> SocketData \<Rightarrow> tcp_sys \<Rightarrow> tcp_sys \<Rightarrow> bool" for ns ka kb where
  step_write: "\<not> locked s \<Longrightarrow> write_wf c \<Longrightarrow> Write_step vc (sender s) c = Inr (a, c', fx) \<Longrightarrow>
    unat (SND_LBW (SND (sender s))) + length (write_progress c c') + 65536 \<le> 2 ^ 32 \<Longrightarrow>
    tcp_step ns ka kb s (s\<lparr>sender := a, accepted := accepted s @ write_progress c c', locked := (LeavesLocked \<in> set fx)\<rparr>)"
| step_send: "\<not> locked s \<or> lock_free (sender_pc s) \<Longrightarrow> Send_step ns now ka (sender_pc s) (sender s) = Inr (pc, a, fx) \<Longrightarrow>
    tcp_step ns ka kb s (s\<lparr>sender := a, sender_pc := pc, to_receiver := to_receiver s \<union> set (ip_sends fx)\<rparr>)"
| step_probe: "sender_pc s = SendZero \<Longrightarrow> zero_probe_tick ns ka (sender s) = Inr (fx, go_on) \<Longrightarrow>
    tcp_step ns ka kb s (s\<lparr>to_receiver := to_receiver s \<union> set (ip_sends fx)\<rparr>)"
| step_timer: "\<not> locked s \<Longrightarrow> waitTimeout_fire ns now ka (sender s) = Inr (a, fx, go_on) \<Longrightarrow>
    tcp_step ns ka kb s (s\<lparr>sender := a, to_receiver := to_receiver s \<union> set (ip_sends fx)\<rparr>)"
| step_data: "m \<in> to_receiver s \<Longrightarrow> State (receiver s) = ESTABLISHED \<Longrightarrow> \<not> storing (rd_pc (reader s)) \<Longrightarrow> ParseTCPHeader ns (drop 8 m) = Inr h \<Longrightarrow>
    HandleEstablished ns now h (receiver s) kb (drop 28 m) = Inr (b, fx) \<Longrightarrow>
    tcp_step ns ka kb s (s\<lparr>receiver := b, to_sender := to_sender s \<union> set (ip_sends fx)\<rparr>)"
| step_ack: "m \<in> to_sender s \<Longrightarrow> State (sender s) = ESTABLISHED \<Longrightarrow> \<not> locked s \<Longrightarrow> ParseTCPHeader ns (drop 8 m) = Inr h \<Longrightarrow>
    HandleEstablished ns now h (sender s) ka (drop 28 m) = Inr (a, fx) \<Longrightarrow>
    tcp_step ns ka kb s (s\<lparr>sender := a, to_receiver := to_receiver s \<union> set (ip_sends fx)\<rparr>)"
| step_read: "Read_step (receiver s) (reader s) = Inr (b, c) \<Longrightarrow>
    tcp_step ns ka kb s (s\<lparr>receiver := b, reader := c, delivered := delivered s @ read_progress (reader s) c\<rparr>)"
| step_new_read: "rd_pc (reader s) = ReadDone n e \<Longrightarrow> read_room c \<Longrightarrow> rd_sofar c = 0 \<Longrightarrow> rd_pc c = ReadLoop \<Longrightarrow>
    tcp_step ns ka kb s (s\<lparr>reader := c\<rparr>)"

section \<open>The invariant of the system\<close>

definition ack_points :: "netstack \<Rightarrow> SocketData \<Rightarrow> byte list set \<Rightarrow> (nat \<times> nat) set" where
  \<comment> \<open>the acknowledgement number and the end of the window of every acknowledgement in the network\<close>
  "ack_points ns key ms = {(unat (AckNum h), unat (AckNum h) + unat (WindowSize h)) | h.
     hdr_ok ns h \<and> ip_message ns (LocalAddr key) (DestAddr key) h [] \<in> ms}"

definition windows_ordered :: "(nat \<times> nat) set \<Rightarrow> bool" where
  "windows_ordered ps \<longleftrightarrow> (\<forall>x \<in> ps. \<forall>y \<in> ps. fst x < fst y \<longrightarrow> snd x \<le> snd y)"

definition acks_ok :: "netstack \<Rightarrow> SocketData \<Rightarrow> TCB \<Rightarrow> TCB \<Rightarrow> byte list set \<Rightarrow> bool" where
  "acks_ok ns key a b ms \<longleftrightarrow> (\<forall>m \<in> ms. \<exists>h. hdr_ok ns h \<and> m = ip_message ns (LocalAddr key) (DestAddr key) h [])
     \<and> (\<forall>(k, e) \<in> insert (unat (SND_UNA (SND a)), snd_edge a) (ack_points ns key ms). k \<le> unat (RCV_NXT (RCV b)) \<and> e \<le> edge b)
     \<and> windows_ordered (insert (unat (SND_UNA (SND a)), snd_edge a) (ack_points ns key ms))"

definition segments_ok :: "netstack \<Rightarrow> SocketData \<Rightarrow> (nat \<Rightarrow> byte) \<Rightarrow> nat \<Rightarrow> TCB \<Rightarrow> byte list set \<Rightarrow> bool" where
  "segments_ok ns key str hi b ms \<longleftrightarrow>
     (\<forall>m \<in> ms. \<exists>h p. m = ip_message ns (LocalAddr key) (DestAddr key) h p \<and> hdr_ok ns h \<and> segment_ok str hi b (SeqNum h) p)"

definition sys_inv :: "netstack \<Rightarrow> SocketData \<Rightarrow> SocketData \<Rightarrow> (nat \<Rightarrow> byte) \<Rightarrow> nat \<Rightarrow> tcp_sys \<Rightarrow> bool" where
  "sys_inv ns ka kb str base s \<longleftrightarrow>
     (let a = sender s; pc = sender_pc s; b = receiver s; hi = sent_upto pc a
      in snd_inv ns str pc a \<and> rcv_inv str hi b \<and> (\<exists>start. read_inv str start (b, reader s))
         \<and> segments_ok ns ka str hi b (to_receiver s) \<and> acks_ok ns kb a b (to_sender s)
         \<and> base \<le> unat (RCV_LBR (RCV b)) \<and> accepted s = map str [base..<unat (SND_LBW (SND a))]
         \<and> delivered s = map str [base..<unat (RCV_LBR (RCV b))])"

lemma segments_ok_mono:
  assumes "segments_ok ns key str hi b ms" and "RCV_NXT (RCV b) \<le> RCV_NXT (RCV b')" and "edge b \<le> edge b'" and "hi \<le> hi'"
  shows "segments_ok ns key str hi' b' ms"
  using assms segment_ok_mono unfolding segments_ok_def by meson

lemma sent_ok_segments:
  assumes "\<forall>m \<in> ms. sent_ok ns key str pc a m" and "SND_UNA (SND a) \<le> RCV_NXT (RCV b)" and "snd_edge a \<le> edge b"
  shows "segments_ok ns key str (sent_upto pc a) b ms"
  using assms unfolding segments_ok_def sent_ok_def segment_ok_def by (meson less_le_trans le_trans)

lemma segments_ok_Un: "segments_ok ns key str hi b (ms \<union> ms') \<longleftrightarrow> segments_ok ns key str hi b ms \<and> segments_ok ns key str hi b ms'"
  by (auto simp: segments_ok_def)

lemma acks_ok_edge: "acks_ok ns key a b ms \<Longrightarrow> SND_UNA (SND a) \<le> RCV_NXT (RCV b) \<and> snd_edge a \<le> edge b"
  by (simp add: acks_ok_def u32_le_nat)

lemma acks_ok_frame:
  assumes "acks_ok ns key a b ms" and "SND_UNA (SND a') = SND_UNA (SND a)" and "snd_edge a' = snd_edge a"
  shows "acks_ok ns key a' b ms"
  using assms by (simp add: acks_ok_def)

lemma acks_ok_mono:
  assumes "acks_ok ns key a b ms" and "RCV_NXT (RCV b) \<le> RCV_NXT (RCV b')" and "edge b \<le> edge b'"
  shows "acks_ok ns key a b' ms"
  using assms by (fastforce simp: acks_ok_def u32_le_nat)

lemma message_inj:
  assumes "netstack_ok ns" and "hdr_ok ns h" and "hdr_ok ns h'"
    and "ip_message ns s d h p = ip_message ns s d h' p'"
  shows "h = h' \<and> p = p'"
  using parse_message [OF assms(1,2), of s d p] parse_message [OF assms(1,3), of s d p'] assms(4) by simp

lemma windows_ordered_subset: "windows_ordered qs \<Longrightarrow> ps \<subseteq> qs \<Longrightarrow> windows_ordered ps"
  unfolding windows_ordered_def by blast

lemma windows_ordered_last:
  assumes "windows_ordered ps" and "\<forall>(k, e) \<in> ps. k \<le> n \<and> e \<le> m"
  shows "windows_ordered (insert (n, m) ps)"
  unfolding windows_ordered_def
proof (intro ballI impI)
  fix x y assume "x \<in> insert (n, m) ps" "y \<in> insert (n, m) ps" "fst x < fst y"
  then show "snd x \<le> snd y" using assms by (cases "x \<in> ps"; cases "y \<in> ps") (auto simp: windows_ordered_def)
qed

lemma acks_ok_new:
  assumes "netstack_ok ns" and "acks_ok ns key a b ms" and "rcv_fits (RCV b)"
  shows "acks_ok ns key a b (insert (ack_message ns key b (RCV_NXT (RCV b))) ms)"
proof -
  let ?h = "CreateTCPHeader ns (LocalAddr key) (DestAddr key) (LocalPort key) (DestPort key)
          (SND_NXT (SND b)) (RCV_NXT (RCV b)) (TCPFlagAck ns) (RCV_WND (RCV b)) []"
  let ?m = "ack_message ns key b (RCV_NXT (RCV b))"
  have m: "?m = ip_message ns (LocalAddr key) (DestAddr key) ?h []" by (simp add: ack_message_def)
  have "unat (RCV_WND (RCV b)) < 65536" using assms(3) by (auto simp: rcv_fits_def)
  then have w: "unat (WindowSize ?h) = unat (RCV_WND (RCV b))" by (simp add: unsigned_ucast_eq take_bit_nat_eq_self)
  have h: "unat (AckNum h) = unat (RCV_NXT (RCV b)) \<and> unat (WindowSize h) = unat (RCV_WND (RCV b))"
    if "hdr_ok ns h" "ip_message ns (LocalAddr key) (DestAddr key) h [] = ?m" for h
  proof -
    have "h = ?h" using message_inj [OF assms(1) that(1) hdr_ok_created] that(2) m by simp
    then show ?thesis using w by simp
  qed
  have sub: "ack_points ns key (insert ?m ms) \<subseteq> insert (unat (RCV_NXT (RCV b)), edge b) (ack_points ns key ms)"
  proof
    fix x assume "x \<in> ack_points ns key (insert ?m ms)"
    then obtain h' where x: "x = (unat (AckNum h'), unat (AckNum h') + unat (WindowSize h'))" "hdr_ok ns h'"
      "ip_message ns (LocalAddr key) (DestAddr key) h' [] \<in> insert ?m ms" unfolding ack_points_def by blast
    show "x \<in> insert (unat (RCV_NXT (RCV b)), edge b) (ack_points ns key ms)"
    proof (cases "ip_message ns (LocalAddr key) (DestAddr key) h' [] = ?m")
      case True
      then show ?thesis using h [OF x(2)] x(1) by (simp add: edge_def)
    next
      case False
      then show ?thesis using x unfolding ack_points_def by blast
    qed
  qed
  let ?P = "insert (unat (SND_UNA (SND a)), snd_edge a) (ack_points ns key ms)"
  let ?Q = "insert (unat (SND_UNA (SND a)), snd_edge a) (ack_points ns key (insert ?m ms))"
  have old: "windows_ordered ?P" "\<forall>(k, e) \<in> ?P. k \<le> unat (RCV_NXT (RCV b)) \<and> e \<le> edge b"
    "\<forall>m \<in> ms. \<exists>h. hdr_ok ns h \<and> m = ip_message ns (LocalAddr key) (DestAddr key) h []"
    using assms(2) unfolding acks_ok_def by blast+
  have Q: "?Q \<subseteq> insert (unat (RCV_NXT (RCV b)), edge b) ?P" using sub by blast
  have "windows_ordered ?Q" by (rule windows_ordered_subset [OF windows_ordered_last [OF old(1,2)] Q])
  moreover have "\<forall>(k, e) \<in> ?Q. k \<le> unat (RCV_NXT (RCV b)) \<and> e \<le> edge b" using old(2) Q by blast
  moreover have "\<forall>m \<in> insert ?m ms. \<exists>h. hdr_ok ns h \<and> m = ip_message ns (LocalAddr key) (DestAddr key) h []"
    using old(3) m hdr_ok_created by blast
  ultimately show ?thesis unfolding acks_ok_def by blast
qed

lemma acks_ok_arrived:
  assumes "acks_ok ns key a b ms" and "hdr_ok ns h" and "ip_message ns (LocalAddr key) (DestAddr key) h [] \<in> ms"
  shows "unat (AckNum h) \<le> unat (RCV_NXT (RCV b))"
    and "SND_UNA (SND a) < AckNum h \<Longrightarrow> snd_edge a \<le> unat (AckNum h) + unat (WindowSize h)"
    and "SND_UNA (SND a') = AckNum h \<Longrightarrow> snd_edge a' = unat (AckNum h) + unat (WindowSize h) \<Longrightarrow> acks_ok ns key a' b ms"
proof -
  let ?x = "(unat (AckNum h), unat (AckNum h) + unat (WindowSize h))"
  have x: "?x \<in> ack_points ns key ms" unfolding ack_points_def using assms(2,3) by blast
  then show "unat (AckNum h) \<le> unat (RCV_NXT (RCV b))" using assms(1) unfolding acks_ok_def by blast
  show "snd_edge a \<le> unat (AckNum h) + unat (WindowSize h)" if "SND_UNA (SND a) < AckNum h"
    using assms(1) x that unfolding acks_ok_def windows_ordered_def u32_less_nat by (metis fst_conv insertI1 insertI2 snd_conv)
  show "acks_ok ns key a' b ms"
    if "SND_UNA (SND a') = AckNum h" "snd_edge a' = unat (AckNum h) + unat (WindowSize h)"
  proof -
    have "insert (unat (SND_UNA (SND a')), snd_edge a') (ack_points ns key ms) = ack_points ns key ms" using that x by auto
    then show ?thesis using assms(1) windows_ordered_subset [OF _ subset_insertI] unfolding acks_ok_def by (metis insertI2)
  qed
qed

lemma sys_inv_sender:
  \<comment> \<open>a step of the sending end that leaves \<open>UNA\<close> and the window alone\<close>
  assumes "sys_inv ns ka kb str base s" and "snd_inv ns str pc a"
    and "SND_UNA (SND a) = SND_UNA (SND (sender s))" and "snd_edge a = snd_edge (sender s)"
    and "sent_upto (sender_pc s) (sender s) \<le> sent_upto pc a"
    and "\<forall>m \<in> ms. sent_ok ns ka str pc a m" and "xs = map str [base..<unat (SND_LBW (SND a))]"
  shows "sys_inv ns ka kb str base (s\<lparr>sender := a, sender_pc := pc, to_receiver := to_receiver s \<union> ms, accepted := xs, locked := lk\<rparr>)"
proof -
  let ?b = "receiver s" and ?hi = "sent_upto (sender_pc s) (sender s)"
  have inv: "rcv_inv str ?hi ?b" "segments_ok ns ka str ?hi ?b (to_receiver s)" "acks_ok ns kb (sender s) ?b (to_sender s)"
    using assms(1) by (simp_all add: sys_inv_def Let_def)
  have acks: "acks_ok ns kb a ?b (to_sender s)" by (rule acks_ok_frame [OF inv(3) assms(3,4)])
  have "sent_upto pc a + 65536 \<le> 2 ^ 32" using snd_inv_facts(2) [OF assms(2)] assms(2) by (simp add: snd_inv_def)
  then have "rcv_inv str (sent_upto pc a) ?b" by (rule rcv_inv_mono [OF inv(1) assms(5)])
  moreover have "segments_ok ns ka str (sent_upto pc a) ?b (to_receiver s \<union> ms)"
    using segments_ok_mono [OF inv(2) order_refl order_refl assms(5)] sent_ok_segments [OF assms(6)] acks_ok_edge [OF acks]
    by (simp add: segments_ok_Un)
  ultimately show ?thesis using assms(1,2,7) acks by (simp add: sys_inv_def Let_def)
qed

lemma sys_inv_sends:
  assumes "sys_inv ns ka kb str base s" and "snd_inv ns str pc a"
    and "SND_UNA (SND a) = SND_UNA (SND (sender s))" and "SND_WND (SND a) = SND_WND (SND (sender s))"
    and "SND_LBW (SND a) = SND_LBW (SND (sender s))" and "sent_upto (sender_pc s) (sender s) \<le> sent_upto pc a"
    and "\<forall>m \<in> ms. sent_ok ns ka str pc a m"
  shows "sys_inv ns ka kb str base (s\<lparr>sender := a, sender_pc := pc, to_receiver := to_receiver s \<union> ms\<rparr>)"
proof -
  have "accepted s = map str [base..<unat (SND_LBW (SND a))]" using assms(1,5) by (simp add: sys_inv_def Let_def)
  moreover have "snd_edge a = snd_edge (sender s)" using assms(3,4) by (simp add: snd_edge_def)
  ultimately have "sys_inv ns ka kb str base (s\<lparr>sender := a, sender_pc := pc, to_receiver := to_receiver s \<union> ms, accepted := accepted s, locked := locked s\<rparr>)"
    using sys_inv_sender [OF assms(1,2,3)] assms(6,7) by blast
  then show ?thesis by simp
qed

lemma stream_split:
  assumes "base \<le> l" and "map str [base..<l] @ xs = map str [base..<l + length xs]"
  shows "xs = map str [l..<l + length xs]"
  using assms(2) unfolding upt_add_eq_append [OF assms(1)] map_append by (rule append_eq_append_conv [THEN iffD1, THEN conjunct2, rotated]) simp

lemma sys_inv_receiver:
  \<comment> \<open>a step of the receiving end\<close>
  assumes "sys_inv ns ka kb str base s" and "rcv_inv str (sent_upto (sender_pc s) (sender s)) b"
    and "RCV_LBR (RCV (receiver s)) \<le> RCV_LBR (RCV b)" and "RCV_NXT (RCV (receiver s)) \<le> RCV_NXT (RCV b)"
    and e: "edge (receiver s) \<le> edge b" and "read_inv str start (b, c)" and "netstack_ok ns"
    and "ms = {} \<or> ms = {ack_message ns kb b (RCV_NXT (RCV b))}"
    and "xs = map str [unat (RCV_LBR (RCV (receiver s)))..<unat (RCV_LBR (RCV b))]"
  shows "sys_inv ns ka kb str base (s\<lparr>receiver := b, reader := c, to_sender := to_sender s \<union> ms, delivered := delivered s @ xs\<rparr>)"
proof -
  let ?hi = "sent_upto (sender_pc s) (sender s)" and ?l = "unat (RCV_LBR (RCV (receiver s)))"
  have inv: "segments_ok ns ka str ?hi (receiver s) (to_receiver s)" "acks_ok ns kb (sender s) (receiver s) (to_sender s)" "base \<le> ?l"
    using assms(1) by (simp_all add: sys_inv_def Let_def)
  have "acks_ok ns kb (sender s) b (to_sender s)" by (rule acks_ok_mono [OF inv(2) assms(4) e])
  moreover have "rcv_fits (RCV b)" using assms(2) by (simp add: rcv_inv_def rcv_agrees_def)
  ultimately have "acks_ok ns kb (sender s) b (to_sender s \<union> ms)" using acks_ok_new [OF assms(7)] assms(8) by auto
  moreover have "[base..<unat (RCV_LBR (RCV b))] = [base..<?l] @ [?l..<unat (RCV_LBR (RCV b))]"
    using inv(3) assms(3) by (metis le_add_diff_inverse u32_le_nat upt_add_eq_append)
  ultimately show ?thesis
    using assms(1,2,3,6,9) segments_ok_mono [OF inv(1) assms(4) e order_refl] inv(3)
    by (auto simp: sys_inv_def Let_def u32_le_nat)
qed

lemma receive_pure_ack:
  assumes "netstack_ok ns" and "hdr_ok ns h"
  shows "HandleEstablished ns now h a key [] = receive_ack ns now key h a"
  using hdr_ok_flags [OF assms]
  by (auto simp: HandleEstablished_def ReceivePath.Receive_def gbind_def split: sum.splits prod.splits)

lemma sys_inv_step:
  assumes "netstack_ok ns" and "tcp_step ns ka kb s s'" and "sys_inv ns ka kb str base s"
    and "accepted s' = map str [base..<base + length (accepted s')]"
  shows "sys_inv ns ka kb str base s'"
proof -
  let ?a = "sender s" and ?b = "receiver s" and ?hi = "sent_upto (sender_pc s) (sender s)"
  have inv: "snd_inv ns str (sender_pc s) ?a" "rcv_inv str ?hi ?b" "segments_ok ns ka str ?hi ?b (to_receiver s)"
    "acks_ok ns kb ?a ?b (to_sender s)" "base \<le> unat (RCV_LBR (RCV ?b))"
    "accepted s = map str [base..<unat (SND_LBW (SND ?a))]"
    using assms(3) by (simp_all add: sys_inv_def Let_def)
  obtain start where read: "read_inv str start (?b, reader s)" using assms(3) by (auto simp: sys_inv_def Let_def)
  from assms(2) show ?thesis
  proof cases
    case (step_write c vc a c' fx)
    let ?xs = "write_progress c c'" and ?l = "unat (SND_LBW (SND ?a))"
    have l: "base \<le> ?l" using inv(2,5) snd_inv_facts(2) [OF inv(1)] by (simp add: rcv_inv_def rcv_agrees_def rcv_fits_def u32_le_nat)
    then have e: "map str [base..<?l] @ ?xs = map str [base..<?l + length ?xs]"
      using assms(4) inv(6) step_write(1) by simp
    have xs: "?xs = map str [?l..<?l + length ?xs]" by (rule stream_split [OF l e])
    have acc: "accepted s' = map str [base..<?l + length ?xs]" using e inv(6) step_write(1) by simp
    note t = write_step [OF inv(1) step_write(3,4) xs step_write(5)]
    have "accepted s' = map str [base..<unat (SND_LBW (SND a))]" using acc t(2) by simp
    then show ?thesis
      using sys_inv_sender [OF assms(3) t(1,3), of "{}" "accepted s'" "LeavesLocked \<in> set fx"] t(3-5) step_write(1) by (simp add: snd_edge_def sent_upto_def)
  next
    case (step_send now pc a fx)
    note t = send_step [OF inv(1) step_send(3)]
    show ?thesis using sys_inv_sends [OF assms(3) t(1,2,3,4,5,6)] step_send(1) by simp
  next
    case (step_probe fx go_on)
    have "\<forall>m \<in> set (ip_sends fx). sent_ok ns ka str (sender_pc s) ?a m"
      using probe_step [of ns str ?a ka fx go_on] inv(1) step_probe by simp
    then show ?thesis using sys_inv_sends [OF assms(3) inv(1) refl refl refl order_refl] step_probe(1) by simp
  next
    case (step_timer now a fx go_on)
    note t = timer_step [OF inv(1) step_timer(3)]
    note e = same_sending_inv [OF t(1)]
    have "SND a = SND ?a" using t(1) by (simp add: same_sending_def)
    then show ?thesis
      using sys_inv_sends [OF assms(3), of "sender_pc s" a "set (ip_sends fx)"] e inv(1) t(2) step_timer(1) by simp
  next
    case (step_data m h now b fx)
    obtain h' p where m: "m = ip_message ns (LocalAddr ka) (DestAddr ka) h' p" "hdr_ok ns h'" "segment_ok str ?hi ?b (SeqNum h') p"
      using inv(3) step_data(2) unfolding segments_ok_def by blast
    have e: "h = h'" "drop 28 m = p" using parse_message [OF assms(1) m(2)] step_data(5) m(1) by auto
    note t = data_step [OF assms(1) m(2) inv(2) m(3) step_data(6) [unfolded e]]
    have "read_inv str start (b, reader s)" by (rule read_inv_received [OF read t(1) step_data(4) t(2,3,4)])
    then show ?thesis
      using sys_inv_receiver [OF assms(3) t(1) _ t(3) _ _ assms(1), of start "reader s" "set (ip_sends fx)" "[]"] t(2,4,5) step_data(1) by simp
  next
    case (step_ack m h now a fx)
    obtain h' where m: "hdr_ok ns h'" "m = ip_message ns (LocalAddr kb) (DestAddr kb) h' []"
      using inv(4) step_ack(2) unfolding acks_ok_def by blast
    have e: "h = h'" "drop 28 m = []" using parse_message [OF assms(1) m(1)] step_ack(5) m(2) by auto
    have r: "receive_ack ns now ka h' ?a = Inr (a, fx)" using step_ack(6) e receive_pure_ack [OF assms(1) m(1)] by simp
    note p = acks_ok_arrived [OF inv(4) m(1) step_ack(2) [unfolded m(2)]]
    have "unat (AckNum h') \<le> ?hi" using p(1) inv(2) by (simp add: rcv_inv_def)
    note t = ack_step [OF inv(1) r this p(2)]
    have "acks_ok ns kb a ?b (to_sender s)" using t(5) p(3) acks_ok_frame [OF inv(4)] by blast
    then show ?thesis using assms(3) t(1-4) step_ack(1) by (simp add: sys_inv_def Let_def)
  next
    case (step_read b c)
    note t = read_step [OF inv(2) read step_read(2)]
    show ?thesis
      using sys_inv_receiver [OF assms(3) t(2,3) _ t(5,1) assms(1) _ t(6), of "{}"] t(4) step_read(1) by simp
  next
    case (step_new_read n e c)
    have "read_inv str (unat (RCV_LBR (RCV ?b))) (?b, c)" using read step_new_read by (auto simp: read_inv_def)
    then show ?thesis
      using sys_inv_receiver [OF assms(3) inv(2) order_refl order_refl order_refl _ assms(1), of _ c "{}" "[]"] step_new_read(1) by simp
  qed
qed

section \<open>Runs\<close>

definition sys_start :: "nat \<Rightarrow> tcp_sys \<Rightarrow> bool" where
  \<comment> \<open>an established connection before its first byte, at sequence number \<open>base\<close>\<close>
  "sys_start base s \<longleftrightarrow>
     (let a = sender s; b = receiver s
      in snd_ok (SND a) \<and> unat (SND_NXT (SND a)) = base \<and> SND_LBW (SND a) = SND_NXT (SND a) \<and> base \<le> snd_edge a
         \<and> snd_edge a \<le> base + 65535 \<and> SND_WND (SND a) \<le> 65535 \<and> RetransmissionQueue a = [] \<and> \<not> CControlEnabled a
         \<and> CWND a = 65535 \<and> \<not> Cancelled a \<and> sender_pc s = SendTop
         \<and> State a = ESTABLISHED \<and> State b = ESTABLISHED \<and> \<not> locked s
         \<and> rcv_ok (RCV b) \<and> unat (RCV_NXT (RCV b)) = base \<and> RCV_LBR (RCV b) = RCV_NXT (RCV b)
         \<and> EarlyArrivals (EarlyQ b) = [] \<and> PendingReceivedFin b = 0 \<and> snd_ready b \<and> \<not> CControlEnabled b
         \<and> read_room (reader s) \<and> rd_sofar (reader s) = 0 \<and> rd_pc (reader s) = ReadLoop
         \<and> to_receiver s = {} \<and> to_sender s = {} \<and> accepted s = [] \<and> delivered s = []
         \<and> 0 < base \<and> base + 65536 \<le> 2 ^ 32)"

abbreviation tcp_run :: "netstack \<Rightarrow> SocketData \<Rightarrow> SocketData \<Rightarrow> tcp_sys \<Rightarrow> tcp_sys \<Rightarrow> bool" where
  "tcp_run ns ka kb \<equiv> (tcp_step ns ka kb)\<^sup>*\<^sup>*"

lemma sys_inv_start:
  assumes "sys_start base s"
    and "\<forall>p. unat (SND_UNA (SND (sender s))) \<le> p \<and> p < base \<longrightarrow> ring_at (SND_Buffer (SND (sender s))) p = str p"
  shows "sys_inv ns ka kb str base s"
proof -
  let ?a = "sender s" and ?b = "receiver s"
  have s: "sender_pc s = SendTop" "unat (SND_NXT (SND ?a)) = base" "SND_LBW (SND ?a) = SND_NXT (SND ?a)"
    "unat (RCV_NXT (RCV ?b)) = base" "RCV_LBR (RCV ?b) = RCV_NXT (RCV ?b)" "SND_UNA (SND ?a) \<le> SND_NXT (SND ?a)"
    "snd_edge ?a \<le> base + 65535" "base + 65536 \<le> 2 ^ 32" "0 < base"
    using assms(1) by (simp_all add: sys_start_def Let_def snd_ok_def)
  have "snd_inv ns str SendTop ?a"
    using assms s by (auto simp: sys_start_def Let_def snd_inv_def settled_def ahead_def snd_agrees_def)
  moreover have "rcv_inv str (sent_upto SendTop ?a) ?b"
    using assms(1) s by (auto simp: sys_start_def Let_def rcv_inv_def rcv_agrees_def rcv_ok_fits early_below_def edge_def sent_upto_def rcv_ok_def u32_less_nat)
  moreover have "read_inv str base (?b, reader s)"
    using assms(1) s by (auto simp: sys_start_def Let_def read_inv_def rcv_agrees_def rcv_ok_fits snd_ready_def)
  moreover have "acks_ok ns kb ?a ?b {}"
    using s assms(1) by (simp add: acks_ok_def ack_points_def windows_ordered_def edge_def rcv_ok_def sys_start_def Let_def u32_le_nat)
  ultimately show ?thesis
    using assms(1) s by (auto simp: sys_inv_def Let_def sys_start_def segments_ok_def)
qed

lemma logs_grow:
  "tcp_step ns ka kb s s' \<Longrightarrow> \<exists>xs ys. accepted s' = accepted s @ xs \<and> delivered s' = delivered s @ ys \<and> (xs = [] \<or> ys = [])"
  by (induction rule: tcp_step.induct) auto

lemma stream_prefix: "xs @ ys = map str [base..<base + length (xs @ ys)] \<Longrightarrow> xs = map str [base..<base + length xs]"
  by (metis append_eq_conv_conj le_add1 length_append nat_add_left_cancel_le take_map take_upt)

lemma sys_inv_run:
  assumes "netstack_ok ns" and "tcp_run ns ka kb s0 s" and "sys_inv ns ka kb str base s0"
    and "accepted s = map str [base..<base + length (accepted s)]"
  shows "sys_inv ns ka kb str base s"
  using assms(2,4)
proof (induction rule: rtranclp_induct)
  case base
  then show ?case using assms(3) by simp
next
  case (step s1 s2)
  obtain xs where "accepted s2 = accepted s1 @ xs" using logs_grow [OF step(2)] by blast
  then have "sys_inv ns ka kb str base s1" using step.IH stream_prefix [of "accepted s1" xs str base] step.prems by simp
  then show ?case using sys_inv_step [OF assms(1) step(2) _ step.prems] by blast
qed

definition written_stream :: "nat \<Rightarrow> tcp_sys \<Rightarrow> byte list \<Rightarrow> nat \<Rightarrow> byte" where
  \<comment> \<open>the stream of a run: what was accepted by its end, behind what the buffer held before\<close>
  "written_stream base s0 xs p = (if p < base then ring_at (SND_Buffer (SND (sender s0))) p else xs ! (p - base))"

lemma written_stream_map: "map (written_stream base s0 xs) [base..<base + length xs] = xs"
  by (intro nth_equalityI) (auto simp: written_stream_def)

lemma reachable_inv:
  assumes "netstack_ok ns" and "sys_start base s0" and "tcp_run ns ka kb s0 s"
  shows "sys_inv ns ka kb (written_stream base s0 (accepted s)) base s"
  by (rule sys_inv_run [OF assms(1,3) sys_inv_start [OF assms(2)]]) (simp_all add: written_stream_map [symmetric] written_stream_def)

definition in_transit :: "tcp_sys \<Rightarrow> byte list" where
  \<comment> \<open>the bytes accepted from the writer and not yet handed to the reader\<close>
  "in_transit s = drop (length (delivered s)) (accepted s)"

definition conn_queue :: "tcp_sys \<Rightarrow> byte list" where
  \<comment> \<open>what the two buffers hold for the reader: the bytes received and not read, and behind them the bytes of the send
      buffer from the next byte the receiver expects\<close>
  "conn_queue s = (let s_a = SND (sender s); r_b = RCV (receiver s)
     in unread r_b @ ring_fetch (SND_Buffer s_a) (unat (RCV_NXT r_b)) (unat (SND_LBW s_a) - unat (RCV_NXT r_b)))"

definition fifo :: "byte list \<Rightarrow> byte list \<Rightarrow> byte list \<Rightarrow> byte list \<Rightarrow> bool" where
  \<comment> \<open>the service promised: a queue that takes in \<open>xs\<close> at its end and gives out \<open>ys\<close> at its front\<close>
  "fifo q xs ys q' \<longleftrightarrow> q @ xs = ys @ q'"

lemma sys_inv_lengths:
  "sys_inv ns ka kb str base s \<Longrightarrow> length (accepted s) = unat (SND_LBW (SND (sender s))) - base
     \<and> length (delivered s) = unat (RCV_LBR (RCV (receiver s))) - base"
  by (simp add: sys_inv_def Let_def)

lemma delivered_prefix:
  assumes "sys_inv ns ka kb str base s"
  shows "delivered s @ in_transit s = accepted s"
proof -
  have "unat (RCV_LBR (RCV (receiver s))) \<le> unat (SND_LBW (SND (sender s)))"
    using assms snd_inv_facts(2) [of ns str "sender_pc s" "sender s"]
    by (simp add: sys_inv_def Let_def rcv_inv_def rcv_agrees_def rcv_fits_def u32_le_nat)
  then have "delivered s = take (length (delivered s)) (accepted s)"
    using assms by (simp add: sys_inv_def Let_def take_map take_upt)
  then show ?thesis unfolding in_transit_def by (metis append_take_drop_id)
qed

lemma conn_queue_transit:
  assumes "sys_inv ns ka kb str base s"
  shows "conn_queue s = in_transit s" and "length (conn_queue s) \<le> 131070"
proof -
  let ?a = "sender s" and ?b = "receiver s" and ?u = "settled (sender_pc s) (sender s)"
  let ?lbr = "unat (RCV_LBR (RCV ?b))" and ?nxt = "unat (RCV_NXT (RCV ?b))" and ?lbw = "unat (SND_LBW (SND ?a))"
  have i: "snd_inv ns str (sender_pc s) ?a" "rcv_inv str (sent_upto (sender_pc s) ?a) ?b" "acks_ok ns kb ?a ?b (to_sender s)"
    "base \<le> ?lbr" "accepted s = map str [base..<?lbw]" "delivered s = map str [base..<?lbr]"
    using assms by (simp_all add: sys_inv_def Let_def)
  have u: "snd_agrees str ?u" "snd_ok (SND ?u)" using i(1) by (auto simp: snd_inv_def snd_agrees_def)
  have b: "rcv_agrees str ?b" "?lbr \<le> ?nxt" "?nxt - ?lbr \<le> 65535"
    using i(2) by (auto simp: rcv_inv_def rcv_agrees_def rcv_fits_def u32_le_nat)
  have le: "unat (SND_UNA (SND ?a)) \<le> ?nxt" "?nxt \<le> ?lbw"
    using acks_ok_edge [OF i(3)] i(2) snd_inv_facts(2) [OF i(1)] by (auto simp: u32_le_nat rcv_inv_def)
  have "ring_fetch (SND_Buffer (SND ?a)) ?nxt (?lbw - ?nxt) = map str [?nxt..<?lbw]"
    using fetch_stream [OF u(1), of ?nxt "?lbw - ?nxt"] le by simp
  then have "conn_queue s = map str ([?lbr..<?nxt] @ [?nxt..<?lbw])"
    by (simp add: conn_queue_def Let_def unread_stream [OF b(1)])
  also have "[?lbr..<?nxt] @ [?nxt..<?lbw] = [?lbr..<?lbw]"
    using b(2) le(2) by (metis le_Suc_ex upt_add_eq_append)
  finally have q: "conn_queue s = map str [?lbr..<?lbw]" .
  show "conn_queue s = in_transit s" using q i(4-6) by (simp add: in_transit_def drop_map)
  show "length (conn_queue s) \<le> 131070" using q b(3) le u(2) by (auto simp: snd_ok_def u32_le_nat)
qed

section \<open>The lock of the sending side\<close>

lemma Write_step_lock:
  assumes "Write_step vc a c = Inr (a', c', fx)"
  shows "State a' = State a" and "LeavesLocked \<in> set fx \<Longrightarrow> State a \<notin> {ESTABLISHED, CLOSE_WAIT}"
proof -
  have "State a' = State a \<and> (LeavesLocked \<in> set fx \<longrightarrow> State a \<notin> {ESTABLISHED, CLOSE_WAIT})"
    using assms by (auto simp: write_room_def write_copy_def Let_def gbind_Inr_iff split: write_pc.splits if_splits)
  then show "State a' = State a" "LeavesLocked \<in> set fx \<Longrightarrow> State a \<notin> {ESTABLISHED, CLOSE_WAIT}" by auto
qed

lemma Send_step_state:
  assumes "Send_step ns now key pc a = Inr (pc', a', fx)"
  shows "State a' = State a"
  using assms
  by (cases pc) (auto simp: send_inner_def send_data_wait_def send_plan_def send_zero_def send_ack_wait_def send_segment_def
      send_advance_def send_stamp_def Let_def gbind_Inr_iff split: if_splits)

lemma lock_held:
  assumes "tcp_run ns ka kb s0 s" and "\<not> locked s0" and "locked s"
  shows "State (sender s) \<notin> {ESTABLISHED, CLOSE_WAIT}"
  using assms
proof (induction rule: rtranclp_induct)
  case (step s1 s2)
  from step(2) show ?case
  proof cases
    case (step_write c vc a c' fx)
    then show ?thesis using Write_step_lock [OF step_write(4)] step.prems by simp
  next
    case (step_send now pc a fx)
    then show ?thesis using Send_step_state [OF step_send(3)] step.IH step.prems by simp
  qed (use step.IH step.prems in auto)
qed simp

section \<open>No step fails\<close>

lemma Send_step_total:
  assumes "snd_inv ns str pc a"
  shows "\<exists>r. Send_step ns now key pc a = Inr r"
proof (cases pc)
  case (SendSegment amt sent)
  have b: "length (SND_Buffer (SND a)) = 65535" "\<not> Cancelled a"
    using snd_inv_facts(1) [OF assms] assms by (simp_all add: snd_inv_def)
  show ?thesis
  proof (cases "sent < amt")
    case True
    then show ?thesis using send_segment_step [OF b(1) True b(2)] SendSegment by simp
  next
    case False
    then show ?thesis using SendSegment by (simp add: send_segment_def del: split_paired_Ex)
  qed
qed (auto simp del: split_paired_Ex)

lemma Write_step_total:
  assumes "snd_inv ns str pc a" and "write_wf c"
  shows "\<exists>r. Write_step vc a c = Inr r"
proof -
  let ?u = "settled pc a"
  have u: "snd_ok (SND ?u)" "unat (SND_LBW (SND ?u)) + write_amount ?u c < 2 ^ 32"
    using assms(1) by (auto simp: snd_inv_def snd_agrees_def write_amount_def)
  have "\<exists>r. write_copy ?u c = Inr r" by (rule write_copy_store [OF u(1) assms(2) u(2)]) blast
  then have "\<exists>r. write_copy a c = Inr r" by (auto simp: settled_def write_copy_NXT gbind_Inr_iff)
  then show ?thesis by (auto simp: write_room_def split: write_pc.splits)
qed

lemma waitTimeout_total:
  assumes "snd_inv ns str pc a"
  shows "\<exists>r. waitTimeout_fire ns now key a = Inr r"
proof (cases "RetransmissionQueue a")
  case (Cons seg rest)
  have "length (SND_Buffer (SND a)) = 65535" "unat (PayloadLen seg) \<le> 65535"
    using snd_inv_facts(4) [OF assms] Cons by (auto simp: snd_ready_def)
  note r = waitTimeout_fire_resends [OF _ _ Cons this]
  show ?thesis
  proof (cases "State a = TIME_WAIT \<or> State a = CLOSED \<or> RetransmitCounter a = 5")
    case True
    then show ?thesis using Cons by (auto simp: waitTimeout_fire_def MAX_RETRANSMISSIONS_def)
  next
    case False
    then show ?thesis using r by (metis (full_types))
  qed
qed (auto simp: waitTimeout_fire_def)

lemma zero_probe_total: "snd_inv ns str pc a \<Longrightarrow> \<exists>r. zero_probe_tick ns key a = Inr r"
  using snd_inv_facts(1) [of ns str pc a] by (auto simp: zero_probe_tick_def Let_def u32_nat)

lemma Read_step_total:
  assumes "read_inv str start (b, c)"
  shows "\<exists>r. Read_step b c = Inr r"
proof (cases "rd_pc c")
  case (ReadCopy n)
  have i: "rcv_fits (RCV b)" "read_room c" "unat n \<le> unat (rd_amount c) - unat (rd_sofar c)" "unat n \<le> length (unread (RCV b))"
    using assms ReadCopy by (auto simp: read_inv_def rcv_agrees_def)
  show ?thesis by (rule read_copy_spec [OF i]) (simp add: ReadCopy)
qed auto

lemma data_total:
  assumes "netstack_ok ns" and "hdr_ok ns h" and "rcv_inv str hi b" and "segment_ok str hi b (SeqNum h) p"
  shows "\<exists>r. HandleEstablished ns now h b key p = Inr r"
proof -
  obtain t fx1 where t: "receive_data ns key (SeqNum h) p b = Inr (t, fx1)" "rcv_inv str hi t"
    using receive_segment [OF assms(3,4), of ns key] by metis
  then have ready: "snd_ready t" "\<not> CControlEnabled t" by (simp_all add: rcv_inv_def)
  obtain u fx2 where "receive_ack ns now key h t = Inr (u, fx2)" by (rule receive_ack_quiet [OF ready])
  moreover have "p \<noteq> []" using assms(4) by (simp add: segment_ok_def)
  ultimately show ?thesis using hdr_ok_flags [OF assms(1,2)] t(1) by (auto simp: HandleEstablished_def ReceivePath.Receive_def)
qed

lemma ack_total:
  assumes "netstack_ok ns" and "hdr_ok ns h" and "snd_inv ns str pc a"
  shows "\<exists>r. HandleEstablished ns now h a key [] = Inr r"
proof -
  have "\<not> CControlEnabled a" using assms(3) by (simp add: snd_inv_def)
  then obtain u fx where "receive_ack ns now key h a = Inr (u, fx)" by (rule receive_ack_quiet [OF snd_inv_facts(4) [OF assms(3)]])
  then show ?thesis using receive_pure_ack [OF assms(1,2)] by simp
qed

section \<open>One segment from end to end\<close>

definition write_of :: "byte list \<Rightarrow> write_call" where
  "write_of data = \<lparr>wr_data = data, wr_written = 0, wr_pc = WriteLoop\<rparr>"

lemma write_of_sel [simp]: "wr_data (write_of data) = data" "wr_written (write_of data) = 0" "wr_pc (write_of data) = WriteLoop"
  by (simp_all add: write_of_def)

lemma idle_write:
  assumes "sys_start base s" and "SND_UNA (SND (sender s)) = SND_NXT (SND (sender s))" and "State (sender s) = ESTABLISHED"
    and "data \<noteq> []" and "length data \<le> 1360" and "base + length data + 65536 \<le> 2 ^ 32"
  obtains a where "tcp_step ns ka kb s (s\<lparr>sender := a, accepted := data\<rparr>)" and "unat (SND_LBW (SND a)) = base + length data"
    and "SND_UNA (SND a) = SND_UNA (SND (sender s))" and "SND_NXT (SND a) = SND_NXT (SND (sender s))"
    and "SND_WND (SND a) = SND_WND (SND (sender s))" and "CWND a = CWND (sender s)" and "Cancelled a = Cancelled (sender s)"
    and "length (SND_Buffer (SND a)) = 65535"
proof -
  let ?a = "sender s" and ?c = "write_of data"
  have s: "snd_ok (SND ?a)" "unat (SND_NXT (SND ?a)) = base" "SND_LBW (SND ?a) = SND_NXT (SND ?a)" "accepted s = []" "\<not> locked s"
    using assms(1) by (simp_all add: sys_start_def Let_def)
  have u: "unacked (SND ?a) = []" using s(3) assms(2) by (simp add: unacked_def ring_fetch_def)
  have wf: "write_wf ?c" using assms(5) by (simp add: write_wf_def)
  have amt: "write_amount ?a ?c = length data" using u assms(5) by (simp add: write_amount_def)
  have lt: "unat (SND_LBW (SND ?a)) + write_amount ?a ?c < 2 ^ 32" using amt s(2,3) assms(6) by simp
  obtain w lbw where w: "unat w = length data" "unat lbw = base + length data"
    "write_copy ?a ?c = Inr (?a\<lparr>SND := (SND ?a)\<lparr>SND_Buffer := ring_store (SND_Buffer (SND ?a)) base data, SND_LBW := lbw\<rparr>\<rparr>,
        ?c\<lparr>wr_written := w, wr_pc := WriteLoop\<rparr>, [SignalSend])"
    by (rule write_copy_store [OF s(1) wf lt]) (use amt s in auto)
  have "unat (of_nat (length data) :: u32) = length data" using assms(5) by (simp add: unat_of_nat_u32)
  then have "wr_written ?c < of_nat (length (wr_data ?c))" using assms(4) by (simp add: u32_less_nat)
  moreover have "SND_LBW (SND ?a) - SND_UNA (SND ?a) \<noteq> MAX_BUF_SIZE" using full_iff [OF s(1)] u by simp
  ultimately have "Write_step vc ?a ?c = write_copy ?a ?c" for vc
    using assms(3) by (simp add: write_room_def)
  note st = step_write [OF s(5) wf this [unfolded w(3)], where ns = ns and ka = ka and kb = kb]
  have p: "write_progress ?c (?c\<lparr>wr_written := w, wr_pc := WriteLoop\<rparr>) = data" using w(1) by (simp add: write_progress_def)
  let ?a' = "?a\<lparr>SND := (SND ?a)\<lparr>SND_Buffer := ring_store (SND_Buffer (SND ?a)) base data, SND_LBW := lbw\<rparr>\<rparr>"
  have "tcp_step ns ka kb s (s\<lparr>sender := ?a', accepted := data\<rparr>)"
    using st [unfolded p s(4) append_Nil] s(2,3,5) assms(6) by (cases s) simp
  then show ?thesis by (rule that) (use s w in \<open>auto simp: snd_ok_def\<close>)
qed

lemma idle_send:
  assumes "snd_inv ns str SendTop a" and "sender_pc s = SendTop" and "sender s = a" and "SND_UNA (SND a) = SND_NXT (SND a)"
    and "unat (SND_NXT (SND a)) + n = unat (SND_LBW (SND a))" and "0 < n" and "n \<le> 1360" and "n \<le> unat (SND_WND (SND a))"
    and "\<not> locked s"
  obtains a' seg pc where "tcp_run ns ka kb s (s\<lparr>sender := a', sender_pc := pc, to_receiver := to_receiver s \<union> {queued_message ns ka a seg}\<rparr>)"
    and "SeqNum (TCPHeader seg) = SND_NXT (SND a)" and "unat (PayloadLen seg) = n" and "hdr_ok ns (TCPHeader seg)"
proof -
  have a: "snd_ok (SND a)" "\<not> Cancelled a" "send_window a = SND_WND (SND a)" "length (SND_Buffer (SND a)) = 65535"
    using assms(1) snd_inv_facts(1) [OF assms(1)]
    by (auto simp: snd_inv_def settled_def ahead_def snd_agrees_def send_window_def u32_eq_nat unat_Min32 u32_le_nat)
  have w: "SND_NXT (SND a) - SND_UNA (SND a) < send_window a" using assms(4,6,8) a(3) by (simp add: u32_less_nat)
  have e: "unat (SND_UNA (SND a)) + unat (send_window a) < 2 ^ 32" using snd_inv_facts(5) [OF assms(1)] a(3) by (simp add: snd_edge_def)
  obtain amt where amt: "send_plan a = (SendSegment amt 0, a, [])"
    "unat amt = min (unat (SND_UNA (SND a)) + unat (send_window a)) (unat (SND_LBW (SND a))) - unat (SND_NXT (SND a))"
    by (rule send_plan_amount [OF a(1) w e])
  have n: "unat amt = n" using amt(2) assms(4,5,8) a(3) by simp
  have "SND_NXT (SND a) \<noteq> SND_LBW (SND a)" using assms(5,6) by auto
  then have "Send_step ns 0 ka SendTop a = Inr (SendSegment amt 0, a, [])"
    using w amt(1) by (simp add: send_inner_def send_data_wait_def)
  from step_send [of s ns 0 ka, unfolded assms(2,3), OF _ this] assms(9)
  have 1: "tcp_step ns ka kb s (s\<lparr>sender := a, sender_pc := SendSegment amt 0\<rparr>)" by simp
  have lt: "0 < amt" using n assms(6) by (simp add: u32_less_nat)
  define k where "k = Min32 (amt - 0) MSS_DATA"
  have m: "unat k = n" using n assms(7) by (simp add: unat_Min32 k_def)
  define a' where "a' = a\<lparr>RetransmissionQueue := RetransmissionQueue a @ [sent_segment ns ka a k]\<rparr>"
  let ?s1 = "s\<lparr>sender := a, sender_pc := SendSegment amt 0\<rparr>"
  have "Send_step ns 0 ka (sender_pc ?s1) (sender ?s1) = Inr (SendAdvance amt 0 k, a',
      [IPSend (queued_message ns ka a (sent_segment ns ka a k))])"
    using send_segment_step [OF a(4) lt a(2), of ns ka] by (simp add: k_def a'_def)
  from step_send [OF _ this, of kb] assms(9)
  have 2: "tcp_step ns ka kb ?s1 (s\<lparr>sender := a', sender_pc := SendAdvance amt 0 k,
      to_receiver := to_receiver s \<union> {queued_message ns ka a (sent_segment ns ka a k)}\<rparr>)" by simp
  have h: "hdr_ok ns (TCPHeader (sent_segment ns ka a k))" by (simp add: sent_segment_def Let_def)
  show ?thesis
    by (rule that [OF rtranclp.rtrancl_into_rtrancl [OF r_into_rtranclp [of "tcp_step ns ka kb", OF 1] 2]])
      (use m h in simp_all)
qed

lemma Read_steps_tcp_run:
  "Read_steps k (receiver s) (reader s) = Inr (b, c) \<Longrightarrow>
    \<exists>xs. tcp_run ns ka kb s (s\<lparr>receiver := b, reader := c, delivered := xs\<rparr>) \<and> RCV_NXT (RCV b) = RCV_NXT (RCV (receiver s))"
proof (induction k arbitrary: s)
  case 0
  then have "s = s\<lparr>receiver := b, reader := c, delivered := delivered s\<rparr>" by simp
  then show ?case using 0 by (metis Inr_inject Pair_inject Read_steps.simps(1) rtranclp.rtrancl_refl)
next
  case (Suc k)
  then obtain b1 c1 where r: "Read_step (receiver s) (reader s) = Inr (b1, c1)" "Read_steps k b1 c1 = Inr (b, c)"
    by (auto simp: gbind_Inr_iff simp del: Read_step.simps)
  let ?s = "s\<lparr>receiver := b1, reader := c1, delivered := delivered s @ read_progress (reader s) c1\<rparr>"
  have "tcp_step ns ka kb s ?s" by (rule step_read [OF r(1)])
  moreover obtain xs where "tcp_run ns ka kb ?s (s\<lparr>receiver := b, reader := c, delivered := xs\<rparr>)" "RCV_NXT (RCV b) = RCV_NXT (RCV b1)"
    using Suc.IH [of ?s] r(2) by auto
  ultimately show ?case using Read_step_frame [OF r(1)] by (metis converse_rtranclp_into_rtranclp)
qed

lemma deliver_and_read:
  assumes "netstack_ok ns" and "sys_inv ns ka kb str base s" and "ip_message ns (LocalAddr ka) (DestAddr ka) h p \<in> to_receiver s"
    and "hdr_ok ns h" and "p \<noteq> []" and "SeqNum h = RCV_NXT (RCV (receiver s))" and "RCV_LBR (RCV (receiver s)) = RCV_NXT (RCV (receiver s))"
    and "unat (SeqNum h) + length p = unat (SND_LBW (SND (sender s)))" and "unat (SeqNum h) + length p \<le> edge (receiver s)"
    and "rd_pc (reader s) = ReadLoop" and "rd_sofar (reader s) = 0" and "length p \<le> unat (rd_amount (reader s))"
    and "State (receiver s) = ESTABLISHED"
  obtains s' where "tcp_run ns ka kb s s'" and "sender s' = sender s" and "accepted s' = accepted s"
    and "unat (RCV_LBR (RCV (receiver s'))) = unat (SeqNum h) + length p"
proof -
  let ?b = "receiver s" and ?hi = "sent_upto (sender_pc s) (sender s)" and ?m = "ip_message ns (LocalAddr ka) (DestAddr ka) h p"
  have inv: "snd_inv ns str (sender_pc s) (sender s)" "rcv_inv str ?hi ?b" "segments_ok ns ka str ?hi ?b (to_receiver s)"
    using assms(2) by (simp_all add: sys_inv_def Let_def)
  have room: "read_room (reader s)" using assms(2) by (auto simp: sys_inv_def Let_def read_inv_def)
  obtain h' p' where hp: "?m = ip_message ns (LocalAddr ka) (DestAddr ka) h' p'" "hdr_ok ns h'" "segment_ok str ?hi ?b (SeqNum h') p'"
    using inv(3) assms(3) unfolding segments_ok_def by blast
  then have sg: "segment_ok str ?hi ?b (SeqNum h) p" using message_inj [OF assms(1,4) hp(2,1)] by simp
  obtain b fx where d: "HandleEstablished ns 0 h ?b kb p = Inr (b, fx)"
    using data_total [OF assms(1,4) inv(2) sg, of 0 kb] by auto
  note t = data_step [OF assms(1,4) inv(2) sg d]
  let ?s1 = "s\<lparr>receiver := b, to_sender := to_sender s \<union> set (ip_sends fx)\<rparr>"
  have 1: "tcp_step ns ka kb s ?s1"
    using step_data [OF assms(3,13), of ns h 0 kb b fx ka] parse_message [OF assms(1,4)] d assms(10) by simp
  have nxt: "unat (RCV_NXT (RCV b)) = unat (SeqNum h) + length p"
    using t(6) [OF assms(6,9)] t(1) snd_inv_facts(2) [OF inv(1)] assms(8) by (simp add: rcv_inv_def)
  have ok: "rcv_fits (RCV b)" using t(1) by (simp add: rcv_inv_def rcv_agrees_def)
  have len: "length (unread (RCV b)) = length p" using nxt t(2) assms(6,7) by (simp add: unread_def)
  have amt: "0 < rd_amount (reader s)" using assms(5,12) by (cases p) (auto simp: u32_less_nat)
  have ne: "unread (RCV b) \<noteq> []" using len assms(5) by (metis length_0_conv)
  obtain b2 c2 where r: "Read_steps 4 b (reader s) = Inr (b2, c2)" "rcv_fits (RCV b2)"
    "unat (rd_sofar c2) = min (unat (rd_amount (reader s))) (length (unread (RCV b)))"
    "unread (RCV b2) = drop (unat (rd_sofar c2)) (unread (RCV b))"
    by (rule read_four_steps [OF ok room assms(10,11) amt ne])
  then have "unread (RCV b2) = []" using len assms(12) by simp
  then have l: "RCV_LBR (RCV b2) = RCV_NXT (RCV b2)" using unread_empty_iff [OF r(2)] by simp
  obtain xs where 2: "tcp_run ns ka kb ?s1 (?s1\<lparr>receiver := b2, reader := c2, delivered := xs\<rparr>)" "RCV_NXT (RCV b2) = RCV_NXT (RCV b)"
    using Read_steps_tcp_run [of 4 ?s1 b2 c2 ns ka kb] r(1) by auto
  show ?thesis
    by (rule that [OF converse_rtranclp_into_rtranclp [of "tcp_step ns ka kb", OF 1 2(1)]]) (use nxt l 2(2) in simp_all)
qed

lemma idle_write_send:
  assumes "netstack_ok ns" and "sys_start base s" and "SND_UNA (SND (sender s)) = SND_NXT (SND (sender s))"
    and "State (sender s) = ESTABLISHED" and "data \<noteq> []" and "length data \<le> 1360" and "base + length data + 65536 \<le> 2 ^ 32"
    and "length data \<le> unat (SND_WND (SND (sender s)))"
  obtains s2 h p where "tcp_run ns ka kb s s2" and "accepted s2 = data" and "receiver s2 = receiver s" and "reader s2 = reader s"
    and "ip_message ns (LocalAddr ka) (DestAddr ka) h p \<in> to_receiver s2" and "hdr_ok ns h" and "unat (SeqNum h) = base"
    and "length p = length data"
proof -
  have st: "sender_pc s = SendTop" "unat (SND_NXT (SND (sender s))) = base" using assms(2) by (simp_all add: sys_start_def Let_def)
  obtain a where a: "tcp_step ns ka kb s (s\<lparr>sender := a, accepted := data\<rparr>)" "unat (SND_LBW (SND a)) = base + length data"
    "SND_UNA (SND a) = SND_UNA (SND (sender s))" "SND_NXT (SND a) = SND_NXT (SND (sender s))"
    "SND_WND (SND a) = SND_WND (SND (sender s))"
    by (rule idle_write [OF assms(2-7), of ns ka kb])
  let ?s1 = "s\<lparr>sender := a, accepted := data\<rparr>"
  have r1: "tcp_run ns ka kb s ?s1" using a(1) by (rule r_into_rtranclp)
  have i1: "snd_inv ns (written_stream base s data) SendTop a"
    using reachable_inv [OF assms(1,2) r1] st(1) by (simp add: sys_inv_def Let_def)
  have n: "0 < length data" "SND_UNA (SND a) = SND_NXT (SND a)" "unat (SND_NXT (SND a)) + length data = unat (SND_LBW (SND a))"
    "length data \<le> unat (SND_WND (SND a))" "sender_pc ?s1 = SendTop" "sender ?s1 = a" "\<not> locked ?s1"
    using assms(2,3,5,8) a st by (simp_all add: sys_start_def Let_def)
  obtain a2 seg pc where 2: "tcp_run ns ka kb ?s1 (?s1\<lparr>sender := a2, sender_pc := pc, to_receiver := to_receiver ?s1 \<union> {queued_message ns ka a seg}\<rparr>)"
    "SeqNum (TCPHeader seg) = SND_NXT (SND a)" "unat (PayloadLen seg) = length data" "hdr_ok ns (TCPHeader seg)"
    by (rule idle_send [OF i1 n(5,6,2,3,1) assms(6) n(4,7), of ka kb])
  show ?thesis
    by (rule that [OF rtranclp_trans [OF r1 2(1)],
          of "TCPHeader seg" "ring_fetch (SND_Buffer (SND a)) (unat (SeqNum (TCPHeader seg))) (unat (PayloadLen seg))"])
      (use 2(2-4) a(4) st(2) in \<open>simp_all add: queued_message_def\<close>)
qed

definition sample_sys :: tcp_sys where
  "sample_sys = \<lparr>sender = sample_conn\<lparr>CWND := 65535\<rparr>, sender_pc = SendTop,
     receiver = sample_conn\<lparr>RCV := (RCV sample_conn)\<lparr>RCV_NXT := 1001, RCV_LBR := 1001\<rparr>\<rparr>,
     reader = \<lparr>rd_data = replicate 10 0, rd_amount = 10, rd_all = False, rd_sofar = 0, rd_pc = ReadLoop\<rparr>,
     to_receiver = {}, to_sender = {}, accepted = [], delivered = [], locked = False\<rparr>"

lemma sample_sys_start: "sys_start 1001 sample_sys"
  by (simp add: sys_start_def Let_def sample_sys_def snd_ok_def snd_edge_def rcv_ok_def snd_ready_def read_room_def)

lemma sample_sys_idle:
  "SND_UNA (SND (sender sample_sys)) = SND_NXT (SND (sender sample_sys))" "State (sender sample_sys) = ESTABLISHED"
  "unat (SND_WND (SND (sender sample_sys))) = 65535" "rd_amount (reader sample_sys) = 10"
  by (simp_all add: sample_sys_def)

lemma sample_sent:
  obtains s where "tcp_run rfc793 zero_SocketData zero_SocketData sample_sys s" and "accepted s = [1, 2, 3]" and "to_receiver s \<noteq> {}"
  by (rule idle_write_send [OF netstack_ok_rfc793 sample_sys_start sample_sys_idle(1,2), of "[1, 2, 3]" zero_SocketData zero_SocketData])
    (auto simp: sample_sys_idle)

lemma sample_write_step:
  obtains s where "tcp_step rfc793 zero_SocketData zero_SocketData sample_sys s" and "accepted s = [1, 2, 3]"
  by (rule idle_write [OF sample_sys_start sample_sys_idle(1,2), of "[1, 2, 3]" rfc793 zero_SocketData zero_SocketData]) auto

section \<open>Properties\<close>

text \<open>
  C1. Whatever the network loses, delays, repeats or reorders, and however \<open>Write\<close> calls, \<open>Send\<close>, its zero-window probe and the
  retransmission timer at one end, \<open>Read\<close> at the other and arriving segments interleave, what the reading application has received
  is a prefix of what the writing application has handed over: nothing is lost, invented, repeated or swapped. This is for data in one
  direction of an established connection, with congestion control off, one \<open>Read\<close> at a time and sequence numbers below the end of the
  32-bit space, and for runs without the three data races listed at the head of this theory: no data segment is handled between \<open>Read\<close>'s
  load and store of \<open>RCV.WND\<close>, the append to the retransmission queue is atomic, and the probe does not tick between
  \<open>SND.NXT += 1\<close> and its cancellation.
\<close>

theorem delivered_is_prefix:
  assumes "netstack_ok ns" and "sys_start base s0" and "tcp_run ns ka kb s0 s"
  shows "\<exists>rest. accepted s = delivered s @ rest"
  using delivered_prefix [OF reachable_inv [OF assms]] by metis

theorem delivered_is_prefix_witness:
  "\<exists>s rest. tcp_run rfc793 zero_SocketData zero_SocketData sample_sys s \<and> accepted s = [1, 2, 3] \<and> accepted s = delivered s @ rest"
  by (rule sample_sent) (use delivered_is_prefix [OF netstack_ok_rfc793 sample_sys_start] in blast)

text \<open>
  C2. The two buffers of a connection implement a first-in first-out queue of bounded length. The queue is read off the state: the
  bytes between \<open>LBR\<close> and \<open>NXT\<close> in the receive buffer, and behind them the bytes of the peer's send buffer from the
  receiver's \<open>NXT\<close> up to \<open>LBW\<close>. Every step of such a run as the property above is about puts the bytes a \<open>Write\<close> takes from its
  caller at the end of the queue, or takes the bytes a \<open>Read\<close> copies to its caller off the front, or (sending, resending, probing,
  acknowledgements, data arriving in any order) leaves the queue as it is; it never holds more than the two buffers.
\<close>

theorem connection_refines_fifo:
  assumes "netstack_ok ns" and "sys_start base s0" and "tcp_run ns ka kb s0 s" and "tcp_step ns ka kb s s'"
  shows "\<exists>xs ys. accepted s' = accepted s @ xs \<and> delivered s' = delivered s @ ys \<and> (xs = [] \<or> ys = [])
    \<and> fifo (conn_queue s) xs ys (conn_queue s') \<and> length (conn_queue s') \<le> 131070"
proof -
  note i = reachable_inv [OF assms(1-3)]
  note i' = reachable_inv [OF assms(1,2) rtranclp.rtrancl_into_rtrancl [OF assms(3,4)]]
  have q: "delivered s @ conn_queue s = accepted s" "delivered s' @ conn_queue s' = accepted s'"
    using delivered_prefix [OF i] delivered_prefix [OF i'] conn_queue_transit(1) [OF i] conn_queue_transit(1) [OF i'] by simp_all
  obtain xs ys where g: "accepted s' = accepted s @ xs" "delivered s' = delivered s @ ys" "xs = [] \<or> ys = []"
    using logs_grow [OF assms(4)] by blast
  have "delivered s @ (ys @ conn_queue s') = delivered s @ (conn_queue s @ xs)" using q g by (metis append.assoc)
  then have "fifo (conn_queue s) xs ys (conn_queue s')" by (simp add: fifo_def)
  then show ?thesis using g conn_queue_transit(2) [OF i'] by blast
qed

theorem connection_refines_fifo_witness:
  "\<exists>s xs ys. accepted s = [1, 2, 3] \<and> accepted s = accepted sample_sys @ xs \<and> fifo (conn_queue sample_sys) xs ys (conn_queue s)"
  by (rule sample_write_step)
    (use connection_refines_fifo [OF netstack_ok_rfc793 sample_sys_start rtranclp.rtrancl_refl] in blast)

text \<open>
  C10. During a transfer under the assumptions stated for the delivered bytes above (congestion control off among them) no call and no handler of either end panics or spins: not the sender, its
  timer and its probes, not a write or read, and not the handling of any message that is in the network. In particular a peer that
  runs this code never sends the over-long segment on which the receive loop would spin. And while the sending connection is established,
  its lock is free between two steps, so none of them waits for ever. (Once the timer has closed the connection that is no longer so: a \<open>Write\<close> in
  progress then returns with the lock held.)
\<close>

theorem transfer_never_fails:
  assumes "netstack_ok ns" and "sys_start base s0" and "tcp_run ns ka kb s0 s"
  shows "(\<exists>r. Send_step ns now ka (sender_pc s) (sender s) = Inr r) \<and> (\<exists>r. waitTimeout_fire ns now ka (sender s) = Inr r)
    \<and> (\<exists>r. zero_probe_tick ns ka (sender s) = Inr r) \<and> (\<exists>r. Read_step (receiver s) (reader s) = Inr r)
    \<and> (write_wf c \<longrightarrow> (\<exists>r. Write_step vc (sender s) c = Inr r))
    \<and> (\<forall>m \<in> to_receiver s. \<exists>h r. ParseTCPHeader ns (drop 8 m) = Inr h
          \<and> HandleEstablished ns now h (receiver s) kb (drop 28 m) = Inr r)
    \<and> (\<forall>m \<in> to_sender s. \<exists>h r. ParseTCPHeader ns (drop 8 m) = Inr h
          \<and> HandleEstablished ns now h (sender s) ka (drop 28 m) = Inr r)
    \<and> (State (sender s) = ESTABLISHED \<longrightarrow> \<not> locked s)"
proof -
  obtain str where inv: "sys_inv ns ka kb str base s" using reachable_inv [OF assms] by blast
  let ?hi = "sent_upto (sender_pc s) (sender s)"
  have i: "snd_inv ns str (sender_pc s) (sender s)" "rcv_inv str ?hi (receiver s)"
    "segments_ok ns ka str ?hi (receiver s) (to_receiver s)" "acks_ok ns kb (sender s) (receiver s) (to_sender s)"
    using inv by (simp_all add: sys_inv_def Let_def)
  obtain start where "read_inv str start (receiver s, reader s)" using inv by (auto simp: sys_inv_def Let_def)
  from Read_step_total [OF this] have "\<exists>r. Read_step (receiver s) (reader s) = Inr r" .
  moreover have "\<exists>h r. ParseTCPHeader ns (drop 8 m) = Inr h \<and> HandleEstablished ns now h (receiver s) kb (drop 28 m) = Inr r"
    if "m \<in> to_receiver s" for m
    using i(3) that data_total [OF assms(1) _ i(2), of _ _ now kb] parse_message [OF assms(1)] unfolding segments_ok_def by metis
  moreover have "\<exists>h r. ParseTCPHeader ns (drop 8 m) = Inr h \<and> HandleEstablished ns now h (sender s) ka (drop 28 m) = Inr r"
    if "m \<in> to_sender s" for m
    using i(4) that ack_total [OF assms(1) _ i(1), of _ now ka] parse_message [OF assms(1)] unfolding acks_ok_def by metis
  moreover have "\<not> locked s0" using assms(2) by (simp add: sys_start_def Let_def)
  then have "State (sender s) = ESTABLISHED \<longrightarrow> \<not> locked s" using lock_held [OF assms(3)] by auto
  ultimately show ?thesis
    using Send_step_total [OF i(1)] waitTimeout_total [OF i(1)] zero_probe_total [OF i(1)] Write_step_total [OF i(1)]
    by (simp del: split_paired_Ex)
qed

theorem transfer_never_fails_witness:
  "\<exists>s m h r. tcp_run rfc793 zero_SocketData zero_SocketData sample_sys s \<and> m \<in> to_receiver s
    \<and> ParseTCPHeader rfc793 (drop 8 m) = Inr h \<and> HandleEstablished rfc793 0 h (receiver s) zero_SocketData (drop 28 m) = Inr r"
  by (rule sample_sent)
    (use transfer_never_fails [OF netstack_ok_rfc793 sample_sys_start, of zero_SocketData zero_SocketData _ 0] in blast)

text \<open>
  C13. A block of at most one segment that is written to an idle connection can reach the reader: there
  is a run, without any loss or timer, after which all of it has been accepted and delivered.
\<close>

theorem block_gets_through:
  assumes "netstack_ok ns" and "sys_start base s" and "SND_UNA (SND (sender s)) = SND_NXT (SND (sender s))"
    and "State (sender s) = ESTABLISHED" and "data \<noteq> []" and "length data \<le> 1360" and "base + length data + 65536 \<le> 2 ^ 32"
    and "length data \<le> unat (SND_WND (SND (sender s)))" and "length data \<le> unat (rd_amount (reader s))"
  shows "\<exists>s'. tcp_run ns ka kb s s' \<and> accepted s' = data \<and> delivered s' = data"
proof -
  obtain s2 h p where r2: "tcp_run ns ka kb s s2" "accepted s2 = data" "receiver s2 = receiver s" "reader s2 = reader s"
    "ip_message ns (LocalAddr ka) (DestAddr ka) h p \<in> to_receiver s2" "hdr_ok ns h" "unat (SeqNum h) = base" "length p = length data"
    by (rule idle_write_send [OF assms(1-8), of ka kb])
  note inv = reachable_inv [OF assms(1,2) r2(1)]
  have st: "unat (RCV_NXT (RCV (receiver s))) = base" "RCV_LBR (RCV (receiver s)) = RCV_NXT (RCV (receiver s))"
    "rd_pc (reader s) = ReadLoop" "rd_sofar (reader s) = 0" "State (receiver s) = ESTABLISHED" "rcv_ok (RCV (receiver s))"
    using assms(2) by (simp_all add: sys_start_def Let_def)
  have "length (accepted s2) = unat (SND_LBW (SND (sender s2))) - base" using sys_inv_lengths [OF inv] by simp
  then have lbw: "unat (SeqNum h) + length p = unat (SND_LBW (SND (sender s2)))" using r2(2,7,8) assms(5) by (cases data) auto
  have d: "p \<noteq> []" "SeqNum h = RCV_NXT (RCV (receiver s2))" "RCV_LBR (RCV (receiver s2)) = RCV_NXT (RCV (receiver s2))"
    "unat (SeqNum h) + length p \<le> edge (receiver s2)" "rd_pc (reader s2) = ReadLoop" "rd_sofar (reader s2) = 0"
    "length p \<le> unat (rd_amount (reader s2))" "State (receiver s2) = ESTABLISHED"
    using r2 st assms(5,6,9) by (auto simp: edge_def rcv_ok_def u32_eq_nat)
  obtain s3 where r3: "tcp_run ns ka kb s2 s3" "sender s3 = sender s2" "accepted s3 = data"
    "unat (RCV_LBR (RCV (receiver s3))) = base + length data"
    by (rule deliver_and_read [OF assms(1) inv r2(5,6) d(1-3) lbw d(4-8)]) (use r2 in simp)
  have r: "tcp_run ns ka kb s s3" using r2(1) r3(1) by (rule rtranclp_trans)
  note inv3 = reachable_inv [OF assms(1,2) r]
  have "length (delivered s3) = length (accepted s3)" using sys_inv_lengths [OF inv3] r3(3,4) by simp
  then have "delivered s3 = accepted s3" using delivered_prefix [OF inv3] by (metis append_eq_conv_conj take_all_iff order_refl)
  then show ?thesis using r r3(3) by auto
qed

theorem block_gets_through_witness:
  "\<exists>s. tcp_run rfc793 zero_SocketData zero_SocketData sample_sys s \<and> accepted s = [1, 2, 3] \<and> delivered s = [1, 2, 3]"
  by (rule block_gets_through [OF netstack_ok_rfc793 sample_sys_start sample_sys_idle(1,2)]) (simp_all add: sample_sys_idle)

end
