(* ===== verification/Lifecycle.thy ===== *)
theory Lifecycle
  imports SocketApi Reliability
begin

text \<open>
  The life of a connection between two TCP handlers: the three-way handshake between \<open>Connect\<close> on one
  side and \<open>Listen\<close> and \<open>Accept\<close> on the other, and the orderly release after both sides have called
  \<open>Close\<close>. The messages a handler gives to its IP layer reach the \<open>ReceivePacket\<close> of the other side
  without their two address words.
\<close>

section \<open>Delivery between two handlers\<close>

lemma drop_ip_message: "drop 8 (ip_message ns src dst h payload) = MarshallTCPHeader ns h dst @ payload"
  by (simp add: ip_message_def)

text \<open>A segment of an existing connection reaches the handler of its state.\<close>

lemma deliver_to_connection:
  assumes "netstack_ok ns" and "SocketTable t \<lparr>LocalAddr = dst, LocalPort = dp, DestAddr = src, DestPort = sp\<rparr> = Some tcb"
  shows "ReceivePacket ns now iss (drop 8 (ip_message ns src dst (CreateTCPHeader ns src dst sp dp sq ak fl wnd payload) payload)) dst src t
    = dispatch ns now iss (CreateTCPHeader ns src dst sp dp sq ak fl wnd payload) payload dst dp src sp
        \<lparr>LocalAddr = dst, LocalPort = dp, DestAddr = src, DestPort = sp\<rparr> tcb t"
  using assms(2) ReceivePacket_built [OF assms(1), of now iss src dst sp dp sq ak fl wnd payload t]
  by (simp add: drop_ip_message socket_key_def Let_def)

lemma deliver_to_listener:
  assumes "netstack_ok ns" and "SocketTable t \<lparr>LocalAddr = dst, LocalPort = dp, DestAddr = src, DestPort = sp\<rparr> = None"
    and "SocketTable t \<lparr>LocalAddr = dst, LocalPort = dp, DestAddr = 0, DestPort = 0\<rparr> = Some tcb"
  shows "ReceivePacket ns now iss (drop 8 (ip_message ns src dst (CreateTCPHeader ns src dst sp dp sq ak fl wnd payload) payload)) dst src t
    = dispatch ns now iss (CreateTCPHeader ns src dst sp dp sq ak fl wnd payload) payload dst dp src sp
        \<lparr>LocalAddr = dst, LocalPort = dp, DestAddr = 0, DestPort = 0\<rparr> tcb t"
  using assms(2,3) ReceivePacket_built [OF assms(1), of now iss src dst sp dp sq ak fl wnd payload t]
  by (simp add: drop_ip_message socket_key_def Let_def)

lemma flag_tests:
  assumes "netstack_ok ns"
  shows "TCPFlagSyn ns AND TCPFlagAck ns = 0" and "TCPFlagSyn ns \<noteq> 0" and "TCPFlagAck ns \<noteq> 0" and "TCPFlagFin ns \<noteq> 0"
    and "TCPFlagAck ns AND TCPFlagSyn ns = 0" and "TCPFlagAck ns AND TCPFlagFin ns = 0"
  using assms by (simp_all add: netstack_ok_def flags_ok_def)

section \<open>The three-way handshake\<close>

definition conn_key :: "u32 \<Rightarrow> u16 \<Rightarrow> u32 \<Rightarrow> u16 \<Rightarrow> SocketData" where
  "conn_key la lp da dp = \<lparr>LocalAddr = la, LocalPort = lp, DestAddr = da, DestPort = dp\<rparr>"

definition syn_received_conn :: "SocketData \<Rightarrow> u32 \<Rightarrow> u32 \<Rightarrow> TCB" where
  \<comment> \<open>the control block a listener creates for a SYN with sequence number \<open>irs\<close>\<close>
  "syn_received_conn lk iss irs = new_conn\<lparr>State := SYN_RECEIVED, RTOTimeoutChan_cap := 49, ListenKey := lk,
     RCV := (RCV new_conn)\<lparr>RCV_NXT := irs + 1, RCV_LBR := irs + 1, RCV_IRS := irs, RCV_WND := MAX_BUF_SIZE\<rparr>,
     SND := (SND new_conn)\<lparr>SND_ISS := iss, SND_NXT := iss + 1, SND_UNA := iss, SND_LBW := iss + 1\<rparr>\<rparr>"

definition client_conn :: "u32 \<Rightarrow> u32 \<Rightarrow> u32 \<Rightarrow> TCB" where
  \<comment> \<open>the control block of the connecting side after the SYN+ACK\<close>
  "client_conn iss irs iss' = (syn_sent_conn iss)\<lparr>
     RCV := (RCV (syn_sent_conn iss))\<lparr>RCV_NXT := irs + 1, RCV_LBR := irs + 1, RCV_IRS := irs\<rparr>, State := ESTABLISHED,
     SND := (SND (syn_sent_conn iss))\<lparr>SND_WND := 65535, SND_UNA := iss + 1, SND_ISS := iss'\<rparr>\<rparr>"

definition server_conn :: "SocketData \<Rightarrow> u32 \<Rightarrow> u32 \<Rightarrow> TCB" where
  "server_conn lk iss irs = (syn_received_conn lk iss irs)\<lparr>State := ESTABLISHED,
     SND := (SND (syn_received_conn lk iss irs))\<lparr>SND_WND := 65535\<rparr>\<rparr>"

lemma new_conn_State [simp]: "CControlEnabled new_conn = False"
  by (simp add: new_conn_def zero_TCB_def)

lemma syn_arrives:
  assumes "netstack_ok ns" and "SocketTable t (conn_key sa p ca cp) = None" and "SocketTable t (conn_key sa p 0 0) = Some l" and "State l = LISTEN"
  shows "ReceivePacket ns now iss (drop 8 (ip_message ns ca sa (CreateTCPHeader ns ca sa cp p irs 0 (TCPFlagSyn ns) MAX_BUF_SIZE []) [])) sa ca t
    = Inr (t\<lparr>SocketTable := (SocketTable t)(conn_key sa p ca cp \<mapsto> syn_received_conn (conn_key sa p 0 0) iss irs)\<rparr>,
        [IPSend (ip_message ns sa ca (CreateTCPHeader ns sa ca p cp iss (irs + 1) (TCPFlagSyn ns OR TCPFlagAck ns) MAX_BUF_SIZE []) []),
         GoWaitForAckReceiver (conn_key sa p ca cp)])"
  using deliver_to_listener [OF assms(1), of t sa p ca cp l now iss irs 0 "TCPFlagSyn ns" MAX_BUF_SIZE "[]"] assms(2-4) flag_tests [OF assms(1)]
  by (simp add: conn_key_def dispatch_def HandleStateListen_def syn_received_conn_def has_flag_def Let_def)

lemma syn_ack_arrives:
  assumes "netstack_ok ns" and "SocketTable t (conn_key ca cp sa p) = Some (syn_sent_conn iss)" and "iss < iss + 1"
  shows "ReceivePacket ns now iss' (drop 8 (ip_message ns sa ca (CreateTCPHeader ns sa ca p cp irs (iss + 1) (TCPFlagSyn ns OR TCPFlagAck ns) MAX_BUF_SIZE []) [])) ca sa t
    = Inr (t\<lparr>SocketTable := (SocketTable t)(conn_key ca cp sa p \<mapsto> client_conn iss irs iss')\<rparr>,
        [NotifyReceiveChan (conn_key ca cp sa p),
         IPSend (ip_message ns ca sa (CreateTCPHeader ns ca sa cp p (iss + 1) (irs + 1) (TCPFlagAck ns) MAX_BUF_SIZE []) []),
         GoSend (conn_key ca cp sa p), GoWaitTimeout (conn_key ca cp sa p)])"
  using deliver_to_connection [OF assms(1), of t ca cp sa p "syn_sent_conn iss" now iss' irs "iss + 1" "TCPFlagSyn ns OR TCPFlagAck ns" MAX_BUF_SIZE "[]"]
    assms(2,3) flag_tests [OF assms(1)]
  by (simp add: conn_key_def dispatch_def HandleStateSynSent_def client_conn_def syn_sent_conn_def has_flag_def with_tcb_def Let_def
      bit.conj_disj_distrib2 MAX_BUF_SIZE_def linorder_not_le [THEN iffD2, OF assms(3)])

lemma ack_arrives:
  assumes "netstack_ok ns" and "SocketTable t (conn_key sa p ca cp) = Some (syn_received_conn (conn_key sa p 0 0) iss irs)"
    and "SocketTable t (conn_key sa p 0 0) = Some l" and "iss < iss + 1" and "conn_key sa p 0 0 \<noteq> conn_key sa p ca cp"
  shows "ReceivePacket ns now iss' (drop 8 (ip_message ns ca sa (CreateTCPHeader ns ca sa cp p sq (iss + 1) (TCPFlagAck ns) MAX_BUF_SIZE []) [])) sa ca t
    = Inr (t\<lparr>SocketTable := (SocketTable t)(conn_key sa p ca cp \<mapsto> server_conn (conn_key sa p 0 0) iss irs,
          conn_key sa p 0 0 \<mapsto> l\<lparr>PendingConnections := PendingConnections l @ [conn_key sa p ca cp]\<rparr>)\<rparr>,
        [NotifyRTO, GoSend (conn_key sa p ca cp), GoWaitTimeout (conn_key sa p ca cp), SignalPendingConn (conn_key sa p 0 0)])"
  using deliver_to_connection [OF assms(1), of t sa p ca cp "syn_received_conn (conn_key sa p 0 0) iss irs" now iss' sq "iss + 1" "TCPFlagAck ns" MAX_BUF_SIZE "[]"]
    assms(2-5) flag_tests [OF assms(1)]
  by (auto simp: conn_key_def dispatch_def HandleStateSynReceived_def server_conn_def syn_received_conn_def has_flag_def Let_def MAX_BUF_SIZE_def)

definition link_up :: "TCB \<Rightarrow> TCB \<Rightarrow> read_call \<Rightarrow> tcp_sys" where
  \<comment> \<open>data from \<open>a\<close> to \<open>b\<close> over an empty network, with a first read\<close>
  "link_up a b c = \<lparr>sender = a, sender_pc = SendTop, receiver = b, reader = c,
     to_receiver = {}, to_sender = {}, accepted = [], delivered = [], locked = False\<rparr>"

lemma new_conn_sel [simp]:
  "SND new_conn = zero_Send\<lparr>SND_Buffer := make_buf\<rparr>" "RCV new_conn = zero_Receive\<lparr>RCV_Buffer := make_buf\<rparr>"
  "CWND new_conn = 65535" "Cancelled new_conn = False" "RetransmissionQueue new_conn = []" "EarlyQ new_conn = \<lparr>EarlyArrivals = []\<rparr>"
  "PendingReceivedFin new_conn = 0" "RetransmitCounter new_conn = 0"
  by (simp_all add: new_conn_def zero_TCB_def MAX_BUF_SIZE_def)

lemma unat_succ: "unat (w :: u32) + 65537 \<le> 2 ^ 32 \<Longrightarrow> unat (w + 1) = unat w + 1 \<and> w < w + 1"
  by (simp add: unat_add_u32 u32_less_nat)

lemma handshake_starts_transfer:
  assumes "unat iss + 65537 \<le> 2 ^ 32" and "unat irs + 65537 \<le> 2 ^ 32" and "read_room c" and "rd_sofar c = 0" and "rd_pc c = ReadLoop"
  shows "sys_start (unat iss + 1) (link_up (client_conn iss irs iss') (server_conn lk irs iss) c)"
    and "sys_start (unat irs + 1) (link_up (server_conn lk irs iss) (client_conn iss irs iss') c)"
proof -
  note u = unat_succ [OF assms(1)] unat_succ [OF assms(2)]
  note d = sys_start_def Let_def link_up_def client_conn_def server_conn_def syn_sent_conn_def syn_received_conn_def
    snd_ok_def snd_edge_def rcv_ok_def snd_ready_def MAX_BUF_SIZE_def
  show "sys_start (unat iss + 1) (link_up (client_conn iss irs iss') (server_conn lk irs iss) c)"
    using u assms by (simp add: d)
  show "sys_start (unat irs + 1) (link_up (server_conn lk irs iss) (client_conn iss irs iss') c)"
    using u assms by (simp add: d u32_le_nat)
qed

section \<open>The orderly release\<close>

definition fin_message :: "netstack \<Rightarrow> SocketData \<Rightarrow> TCB \<Rightarrow> u32 \<Rightarrow> byte list" where
  "fin_message ns key a ackNum = ip_message ns (LocalAddr key) (DestAddr key)
     (CreateTCPHeader ns (LocalAddr key) (DestAddr key) (LocalPort key) (DestPort key)
        (SND_NXT (SND a)) ackNum (TCPFlagFin ns OR TCPFlagAck ns) (RCV_WND (RCV a)) []) []"

lemma Close_sends_fin:
  assumes "SocketTable t key = Some a" and "SND_NXT (SND a) = SND_LBW (SND a)" and "SocketTableKey vc = key" and "HandlerLocalAddr t = LocalAddr key"
  obtains a' fx where "Close_start ns key vc t = Inr (CloseWaitClosed, t\<lparr>SocketTable := (SocketTable t)(key \<mapsto> a')\<rparr>, fx)"
    and "ip_sends fx = [fin_message ns key a (if State a = CLOSE_WAIT then RCV_NXT (RCV a) + 1 else RCV_NXT (RCV a))]"
    and "State a' = (if State a = CLOSE_WAIT then LAST_ACK else FIN_WAIT_1)" and "RCV a' = RCV a"
    and "SND a' = (SND a)\<lparr>SND_NXT := SND_NXT (SND a) + 1\<rparr>" and "snd_ready a \<Longrightarrow> snd_ready a'"
  using assms
  by (auto simp: Close_start_def close_loop_def close_fin_def fin_message_def snd_ready_def cc_ok_def Let_def intro!: that)

lemma deliver_segment:
  assumes "netstack_ok ns" and "SocketTable t (conn_key dst dp src sp) = Some tcb"
  shows "ReceivePacket ns now iss (drop 8 (ip_message ns src dst (CreateTCPHeader ns src dst sp dp sq ak fl wnd []) [])) dst src t
    = dispatch ns now iss (CreateTCPHeader ns src dst sp dp sq ak fl wnd []) [] dst dp src sp (conn_key dst dp src sp) tcb t"
  using deliver_to_connection [OF assms(1), of t dst dp src sp tcb] assms(2) by (simp add: conn_key_def)

lemma fin_arrives:
  assumes "netstack_ok ns" and "SocketTable t (conn_key sa p ca cp) = Some b" and "State b = ESTABLISHED"
    and "SND_NXT (SND a) = RCV_NXT (RCV b)"
  shows "ReceivePacket ns now iss (drop 8 (fin_message ns (conn_key ca cp sa p) a ak)) sa ca t
    = Inr (t\<lparr>SocketTable := (SocketTable t)(conn_key sa p ca cp \<mapsto> b\<lparr>State := CLOSE_WAIT\<rparr>)\<rparr>,
        [SignalRead, IPSend (ack_message ns (conn_key sa p ca cp) b (RCV_NXT (RCV b) + 1))])"
proof -
  have "has_flag (CreateTCPHeader ns ca sa cp p sq ak (TCPFlagFin ns OR TCPFlagAck ns) w []) (TCPFlagFin ns)" for sq w
    using assms(1) by (simp add: has_flag_def netstack_ok_def flags_ok_def)
  then show ?thesis
    using assms deliver_segment [OF assms(1,2)]
    by (simp add: fin_message_def conn_key_def dispatch_def HandleEstablished_def ReceiveFin_def with_tcb_def Let_def)
qed

lemma fin_acked:
  assumes "netstack_ok ns" and "SocketTable t (conn_key ca cp sa p) = Some a" and "State a = FIN_WAIT_1" and "snd_ready a"
    and "ack = SND_NXT (SND a)"
  obtains a' fx where "ReceivePacket ns now iss (drop 8 (ack_message ns (conn_key sa p ca cp) b ack)) ca sa t
      = Inr (t\<lparr>SocketTable := (SocketTable t)(conn_key ca cp sa p \<mapsto> a')\<rparr>, fx)"
    and "State a' = FIN_WAIT_2" and "RCV a' = RCV a" and "SND_NXT (SND a') = SND_NXT (SND a)"
proof -
  let ?h = "CreateTCPHeader ns sa ca p cp (SND_NXT (SND b)) ack (TCPFlagAck ns) (RCV_WND (RCV b)) []"
  have f: "has_flag ?h (TCPFlagAck ns)" using assms(1) by (simp add: has_flag_def netstack_ok_def flags_ok_def)
  have "snd_ready (a\<lparr>State := FIN_WAIT_2\<rparr>)" using assms(4) by (simp add: snd_ready_def cc_ok_def)
  then obtain a' fx where r: "receive_ack ns now (conn_key ca cp sa p) ?h (a\<lparr>State := FIN_WAIT_2\<rparr>) = Inr (a', fx)"
    "same_receiver (a\<lparr>State := FIN_WAIT_2\<rparr>) a'"
    by (rule receive_ack_total)
  have "ReceivePacket ns now iss (drop 8 (ack_message ns (conn_key sa p ca cp) b ack)) ca sa t
      = Inr (t\<lparr>SocketTable := (SocketTable t)(conn_key ca cp sa p \<mapsto> a')\<rparr>, fx)"
    using deliver_segment [OF assms(1,2), of now iss "SND_NXT (SND b)" ack "TCPFlagAck ns" "RCV_WND (RCV b)"] f r(1) assms(3,5)
    by (simp add: ack_message_def conn_key_def dispatch_def HandleFinWait1_def ReceivePath.Receive_def with_tcb_def)
  then show ?thesis by (rule that) (use r(2) in \<open>simp_all add: same_receiver_def\<close>)
qed

lemma second_fin_arrives:
  assumes "netstack_ok ns" and "SocketTable t (conn_key ca cp sa p) = Some a" and "State a = FIN_WAIT_2"
    and "SND_NXT (SND b) = RCV_NXT (RCV a)"
  obtains a' where "ReceivePacket ns now iss (drop 8 (fin_message ns (conn_key sa p ca cp) b ak)) ca sa t
      = Inr (t\<lparr>SocketTable := (SocketTable t)(conn_key ca cp sa p \<mapsto> a')\<rparr>,
          [IPSend (ack_message ns (conn_key ca cp sa p) a' (RCV_NXT (RCV a) + 1)), GoWaitForClosed (conn_key ca cp sa p)])"
    and "State a' = TIME_WAIT" and "ResetWaitChan_made a'"
proof -
  let ?a = "a\<lparr>State := TIME_WAIT, RCV := (RCV a)\<lparr>RCV_NXT := RCV_NXT (RCV a) + 1\<rparr>, ResetWaitChan_made := True\<rparr>"
  have "has_flag (CreateTCPHeader ns sa ca p cp sq ak (TCPFlagFin ns OR TCPFlagAck ns) w []) (TCPFlagFin ns)" for sq w
    using assms(1) by (simp add: has_flag_def netstack_ok_def flags_ok_def)
  then show ?thesis
    using assms deliver_segment [OF assms(1,2)]
    by (intro that [of ?a]) (simp_all add: fin_message_def conn_key_def dispatch_def HandleFinWait2_def with_tcb_def Let_def)
qed

lemma last_ack_arrives:
  assumes "netstack_ok ns" and "SocketTable t (conn_key sa p ca cp) = Some b" and "State b = LAST_ACK" and "ack = SND_NXT (SND b)"
  obtains b' where "ReceivePacket ns now iss (drop 8 (ack_message ns (conn_key ca cp sa p) a ack)) sa ca t
      = Inr (t\<lparr>SocketTable := (SocketTable t)(conn_key sa p ca cp \<mapsto> b')\<rparr>, [NotifyReceiveChan (conn_key sa p ca cp)])"
    and "State b' = CLOSED"
proof -
  let ?b = "removeFromRetransmissionQueue (b\<lparr>State := CLOSED\<rparr>) ack"
  have f: "has_flag (CreateTCPHeader ns ca sa cp p (SND_NXT (SND a)) ack (TCPFlagAck ns) (RCV_WND (RCV a)) []) (TCPFlagAck ns)"
    using assms(1) by (simp add: has_flag_def netstack_ok_def flags_ok_def)
  have "State ?b = CLOSED" by (simp add: removeFromRetransmissionQueue_def Let_def)
  then show ?thesis
    using deliver_segment [OF assms(1,2), of now iss "SND_NXT (SND a)" ack "TCPFlagAck ns" "RCV_WND (RCV a)"] f assms(3,4)
    by (intro that [of ?b]) (simp_all add: ack_message_def conn_key_def dispatch_def HandleLastAck_def with_tcb_def)
qed

section \<open>Properties\<close>

text \<open>
  C3. A client that connects to a listening server and exchanges the three packets of the handshake with
  it: \<open>Connect\<close> and \<open>Accept\<close> both return the new connection, both control blocks are in ESTABLISHED,
  and they agree on the sequence numbers of both directions, so that either direction is in a state from
  which the transfer of data starts.
\<close>

theorem handshake_establishes:
  assumes "netstack_ok ns" and "HandlerLocalAddr tc = ca" and "CurrentPort tc = cp" and "SocketTable tc (conn_key ca cp sa p) = None"
    and "SocketTable ts (conn_key sa p 0 0) = Some l" and "State l = LISTEN" and "PendingConnections l = []"
    and "SocketTable ts (conn_key sa p ca cp) = None" and "ListenerTableKey vl = conn_key sa p 0 0"
    and "unat iss + 65537 \<le> 2 ^ 32" and "unat irs + 65537 \<le> 2 ^ 32" and "read_room c" and "rd_sofar c = 0" and "rd_pc c = ReadLoop"
  shows "\<exists>syn tc1 synack ts1 ack tc2 fx2 ts2 fx3 a b.
      Connect_start ns iss (Some sa) p tc = Inr (ConnectWait (conn_key ca cp sa p), tc1, [IPSend syn])
    \<and> ReceivePacket ns now irs (drop 8 syn) sa ca ts = Inr (ts1, [IPSend synack, GoWaitForAckReceiver (conn_key sa p ca cp)])
    \<and> ReceivePacket ns now iss' (drop 8 synack) ca sa tc1 = Inr (tc2, [NotifyReceiveChan (conn_key ca cp sa p), IPSend ack] @ fx2)
    \<and> ReceivePacket ns now iss' (drop 8 ack) sa ca ts1 = Inr (ts2, fx3)
    \<and> SocketTable tc2 (conn_key ca cp sa p) = Some a \<and> State a = ESTABLISHED
    \<and> SocketTable ts2 (conn_key sa p ca cp) = Some b \<and> State b = ESTABLISHED
    \<and> fst (Connect_event ns Handshaken (conn_key ca cp sa p) a tc2)
        = ConnectReturned (Some \<lparr>SocketTableKey = conn_key ca cp sa p, ReadCancelled = False, WriteCancelled = False\<rparr>) None
    \<and> fst (Accept_start vl ts2)
        = AcceptReturned (Some \<lparr>SocketTableKey = conn_key sa p ca cp, ReadCancelled = False, WriteCancelled = False\<rparr>) None
    \<and> sys_start (unat iss + 1) (link_up a b c) \<and> sys_start (unat irs + 1) (link_up b a c)"
proof -
  let ?ck = "conn_key ca cp sa p" and ?sk = "conn_key sa p ca cp" and ?lk = "conn_key sa p 0 0"
  let ?a = "client_conn iss irs iss'" and ?b = "server_conn ?lk irs iss"
  have lt: "iss < iss + 1" "irs < irs + 1" using unat_succ assms(10,11) by blast+
  have ne: "?lk \<noteq> ?sk" using assms(5,8) by auto
  define tc1 where "tc1 = tc\<lparr>CurrentPort := cp + 1, SocketTable := (SocketTable tc)(?ck \<mapsto> syn_sent_conn iss)\<rparr>"
  define syn where "syn = ip_message ns ca sa (CreateTCPHeader ns ca sa cp p iss 0 (TCPFlagSyn ns) MAX_BUF_SIZE []) []"
  have 1: "Connect_start ns iss (Some sa) p tc = Inr (ConnectWait ?ck, tc1, [IPSend syn])"
    using assms(2-4) by (simp add: Connect_start_def Let_def tc1_def syn_def syn_message_def conn_key_def syn_sent_conn_def)
  note 2 = syn_arrives [OF assms(1,8,5,6), of now irs iss, folded syn_def]
  have "SocketTable tc1 ?ck = Some (syn_sent_conn iss)" by (simp add: tc1_def)
  note 3 = syn_ack_arrives [OF assms(1) this lt(1), of now iss' irs]
  let ?ts1 = "ts\<lparr>SocketTable := (SocketTable ts)(?sk \<mapsto> syn_received_conn ?lk irs iss)\<rparr>"
  have "SocketTable ?ts1 ?sk = Some (syn_received_conn ?lk irs iss)" "SocketTable ?ts1 ?lk = Some l"
    using assms(5) ne by simp_all
  note 4 = ack_arrives [OF assms(1) this lt(2) ne, of now iss' "iss + 1"]
  have "State ?a = ESTABLISHED" "State ?b = ESTABLISHED" by (simp_all add: client_conn_def server_conn_def)
  note s = handshake_starts_transfer [OF assms(10-14), where iss' = iss' and lk = ?lk]
  show ?thesis
    by (intro exI conjI, rule 1, rule 2, (subst 3, simp), rule 4)
      (use \<open>State ?a = _\<close> \<open>State ?b = _\<close> s assms(7,9) ne in \<open>auto simp: Accept_start_def accept_pop_def\<close>)
qed

definition sample_client :: TCPHandler where
  "sample_client = \<lparr>SocketTable = Map.empty, HandlerLocalAddr = 1, CurrentPort = 1025, Listeners = []\<rparr>"

definition sample_server :: TCPHandler where
  "sample_server = \<lparr>SocketTable = [conn_key 2 9000 0 0 \<mapsto> zero_TCB\<lparr>State := LISTEN\<rparr>], HandlerLocalAddr = 2, CurrentPort = 1025,
     Listeners = [conn_key 2 9000 0 0]\<rparr>"

theorem handshake_establishes_witness:
  "\<exists>syn tc1 a b c. Connect_start rfc793 7 (Some 2) 9000 sample_client = Inr (ConnectWait (conn_key 1 1025 2 9000), tc1, [IPSend syn])
    \<and> State a = ESTABLISHED \<and> State b = ESTABLISHED \<and> sys_start 8 (link_up a b c) \<and> sys_start 1001 (link_up b a c)"
proof -
  let ?c = "\<lparr>rd_data = replicate 10 0, rd_amount = 10, rd_all = False, rd_sofar = 0, rd_pc = ReadLoop\<rparr> :: read_call"
  have h: "HandlerLocalAddr sample_client = 1" "CurrentPort sample_client = 1025" "SocketTable sample_client (conn_key 1 1025 2 9000) = None"
    "SocketTable sample_server (conn_key 2 9000 0 0) = Some (zero_TCB\<lparr>State := LISTEN\<rparr>)" "State (zero_TCB\<lparr>State := LISTEN\<rparr>) = LISTEN"
    "PendingConnections (zero_TCB\<lparr>State := LISTEN\<rparr>) = []" "SocketTable sample_server (conn_key 2 9000 1 1025) = None"
    "ListenerTableKey \<lparr>ListenerTableKey = conn_key 2 9000 0 0, ListenerCancelled = False\<rparr> = conn_key 2 9000 0 0"
    "unat (7 :: u32) + 65537 \<le> 2 ^ 32" "unat (1000 :: u32) + 65537 \<le> 2 ^ 32"
    "read_room ?c" "rd_sofar ?c = 0" "rd_pc ?c = ReadLoop"
    by (simp_all add: sample_client_def sample_server_def conn_key_def zero_TCB_def read_room_def)
  have n: "unat (7 :: u32) + 1 = 8" "unat (1000 :: u32) + 1 = 1001" by simp_all
  from handshake_establishes [OF netstack_ok_rfc793 h, of 0 0, unfolded n] show ?thesis by blast
qed

text \<open>
  C4. The orderly release of a connection on which everything sent has arrived. The first side to call
  \<open>Close\<close> goes through FIN_WAIT_1, FIN_WAIT_2 and TIME_WAIT, the second through CLOSE_WAIT and LAST_ACK;
  after four packets both calls of \<open>Close\<close> are woken, the first by the timer of TIME_WAIT, and both
  sockets are gone from the tables.
\<close>

theorem orderly_release:
  fixes ca sa :: u32 and cp p :: u16
  defines "ck \<equiv> conn_key ca cp sa p" and "sk \<equiv> conn_key sa p ca cp"
  assumes "netstack_ok ns" and "SocketTable ta ck = Some a" and "State a = ESTABLISHED" and "SND_NXT (SND a) = SND_LBW (SND a)"
    and "SocketTable tb sk = Some b" and "State b = ESTABLISHED" and "SND_NXT (SND b) = SND_LBW (SND b)"
    and "SND_NXT (SND a) = RCV_NXT (RCV b)" and "SND_NXT (SND b) = RCV_NXT (RCV a)" and "snd_ready a"
    and "HandlerLocalAddr ta = ca" and "HandlerLocalAddr tb = sa" and "SocketTableKey va = ck" and "SocketTableKey vb = sk"
  shows "\<exists>fin1 ta1 fx1 a1 ack1 tb1 ta2 fx2 a2 fin2 tb2 fx3 b2 ack2 ta3 a3 tb3 b3.
      Close_start ns ck va ta = Inr (CloseWaitClosed, ta1, fx1) \<and> ip_sends fx1 = [fin1]
    \<and> SocketTable ta1 ck = Some a1 \<and> State a1 = FIN_WAIT_1
    \<and> ReceivePacket ns now iss (drop 8 fin1) sa ca tb = Inr (tb1, [SignalRead, IPSend ack1])
    \<and> SocketTable tb1 sk = Some (b\<lparr>State := CLOSE_WAIT\<rparr>)
    \<and> ReceivePacket ns now iss (drop 8 ack1) ca sa ta1 = Inr (ta2, fx2) \<and> SocketTable ta2 ck = Some a2 \<and> State a2 = FIN_WAIT_2
    \<and> Close_start ns sk vb tb1 = Inr (CloseWaitClosed, tb2, fx3) \<and> ip_sends fx3 = [fin2]
    \<and> SocketTable tb2 sk = Some b2 \<and> State b2 = LAST_ACK
    \<and> ReceivePacket ns now iss (drop 8 fin2) ca sa ta2 = Inr (ta3, [IPSend ack2, GoWaitForClosed ck])
    \<and> SocketTable ta3 ck = Some a3 \<and> State a3 = TIME_WAIT
    \<and> ReceivePacket ns now iss (drop 8 ack2) sa ca tb2 = Inr (tb3, [NotifyReceiveChan sk])
    \<and> SocketTable tb3 sk = Some b3 \<and> State b3 = CLOSED \<and> SocketTable (snd (Close_done sk tb3)) sk = None
    \<and> snd (WaitForClosed_fire ck a3) = [NotifyReceiveChan ck] \<and> State (fst (WaitForClosed_fire ck a3)) = CLOSED
    \<and> SocketTable (snd (Close_done ck ta3)) ck = None"
proof -
  have la: "HandlerLocalAddr ta = LocalAddr ck" "HandlerLocalAddr tb = LocalAddr sk"
    using assms(13,14) by (simp_all add: ck_def sk_def conn_key_def)
  obtain a1 fx1 where 1: "Close_start ns ck va ta = Inr (CloseWaitClosed, ta\<lparr>SocketTable := (SocketTable ta)(ck \<mapsto> a1)\<rparr>, fx1)"
    "ip_sends fx1 = [fin_message ns ck a (RCV_NXT (RCV a))]" "State a1 = FIN_WAIT_1" "RCV a1 = RCV a"
    "SND a1 = (SND a)\<lparr>SND_NXT := SND_NXT (SND a) + 1\<rparr>" "snd_ready a1"
    by (rule Close_sends_fin [OF assms(4,6,15) la(1), of ns]) (use assms(5,12) in simp_all)
  let ?ta1 = "ta\<lparr>SocketTable := (SocketTable ta)(ck \<mapsto> a1)\<rparr>" and ?b1 = "b\<lparr>State := CLOSE_WAIT\<rparr>"
  let ?tb1 = "tb\<lparr>SocketTable := (SocketTable tb)(sk \<mapsto> ?b1)\<rparr>"
  note 2 = fin_arrives [OF assms(3,7) [unfolded sk_def] assms(8,10), of now iss "RCV_NXT (RCV a)", folded ck_def sk_def]
  have "SocketTable ?ta1 (conn_key ca cp sa p) = Some a1" "RCV_NXT (RCV b) + 1 = SND_NXT (SND a1)"
    using 1(5) assms(10) by (simp_all add: ck_def)
  then obtain a2 fx2 where 3: "ReceivePacket ns now iss (drop 8 (ack_message ns sk b (RCV_NXT (RCV b) + 1))) ca sa ?ta1
      = Inr (?ta1\<lparr>SocketTable := (SocketTable ?ta1)(ck \<mapsto> a2)\<rparr>, fx2)" "State a2 = FIN_WAIT_2" "RCV a2 = RCV a1"
    unfolding ck_def sk_def by (rule fin_acked [OF assms(3) _ 1(3,6)])
  let ?ta2 = "?ta1\<lparr>SocketTable := (SocketTable ?ta1)(ck \<mapsto> a2)\<rparr>"
  obtain b2 fx3 where 4: "Close_start ns sk vb ?tb1 = Inr (CloseWaitClosed, ?tb1\<lparr>SocketTable := (SocketTable ?tb1)(sk \<mapsto> b2)\<rparr>, fx3)"
    "ip_sends fx3 = [fin_message ns sk ?b1 (RCV_NXT (RCV b) + 1)]" "State b2 = LAST_ACK"
    "SND b2 = (SND b)\<lparr>SND_NXT := SND_NXT (SND b) + 1\<rparr>"
    by (rule Close_sends_fin [of ?tb1 sk ?b1 vb ns]) (use assms(9,16) la(2) in simp_all)
  let ?tb2 = "?tb1\<lparr>SocketTable := (SocketTable ?tb1)(sk \<mapsto> b2)\<rparr>"
  have "SocketTable ?ta2 (conn_key ca cp sa p) = Some a2" "SND_NXT (SND ?b1) = RCV_NXT (RCV a2)"
    using 1(4) 3(3) assms(11) by (simp_all add: ck_def)
  then obtain a3 where 5: "ReceivePacket ns now iss (drop 8 (fin_message ns sk ?b1 (RCV_NXT (RCV b) + 1))) ca sa ?ta2
      = Inr (?ta2\<lparr>SocketTable := (SocketTable ?ta2)(ck \<mapsto> a3)\<rparr>,
          [IPSend (ack_message ns ck a3 (RCV_NXT (RCV a2) + 1)), GoWaitForClosed ck])" "State a3 = TIME_WAIT"
    unfolding ck_def sk_def by (rule second_fin_arrives [OF assms(3) _ 3(2)])
  have "SocketTable ?tb2 (conn_key sa p ca cp) = Some b2" "RCV_NXT (RCV a2) + 1 = SND_NXT (SND b2)"
    using 1(4) 3(3) 4(4) assms(11) by (simp_all add: sk_def)
  then obtain b3 where 6: "ReceivePacket ns now iss (drop 8 (ack_message ns ck a3 (RCV_NXT (RCV a2) + 1))) sa ca ?tb2
      = Inr (?tb2\<lparr>SocketTable := (SocketTable ?tb2)(sk \<mapsto> b3)\<rparr>, [NotifyReceiveChan sk])" "State b3 = CLOSED"
    unfolding ck_def sk_def by (rule last_ack_arrives [OF assms(3) _ 4(3)])
  show ?thesis
    by (intro exI conjI, rule 1(1), rule 1(2), simp, rule 1(3), rule 2, simp, rule 3(1), simp, rule 3(2), rule 4(1), rule 4(2),
        simp, rule 4(3), rule 5(1), simp, rule 5(2), rule 6(1), simp, rule 6(2))
      (simp_all add: Close_done_def WaitForClosed_fire_def)
qed

definition sample_peer :: TCB where
  "sample_peer = sample_conn\<lparr>SND := (SND sample_conn)\<lparr>SND_UNA := 501, SND_NXT := 501, SND_LBW := 501\<rparr>,
     RCV := (RCV sample_conn)\<lparr>RCV_NXT := 1001, RCV_LBR := 1001\<rparr>\<rparr>"

definition sample_handle :: "SocketData \<Rightarrow> VTCPConn" where
  "sample_handle k = \<lparr>SocketTableKey = k, ReadCancelled = False, WriteCancelled = False\<rparr>"

definition sample_table :: "u32 \<Rightarrow> SocketData \<Rightarrow> TCB \<Rightarrow> TCPHandler" where
  "sample_table addr k tcb = \<lparr>SocketTable = [k \<mapsto> tcb], HandlerLocalAddr = addr, CurrentPort = 1025, Listeners = []\<rparr>"

theorem orderly_release_witness:
  "\<exists>fx1 ta1 a1 tb1 tb2 fx3 b2.
      Close_start rfc793 (conn_key 1 7 2 9) (sample_handle (conn_key 1 7 2 9)) (sample_table 1 (conn_key 1 7 2 9) sample_conn)
        = Inr (CloseWaitClosed, ta1, fx1) \<and> SocketTable ta1 (conn_key 1 7 2 9) = Some a1 \<and> State a1 = FIN_WAIT_1
    \<and> Close_start rfc793 (conn_key 2 9 1 7) (sample_handle (conn_key 2 9 1 7)) tb1 = Inr (CloseWaitClosed, tb2, fx3)
    \<and> SocketTable tb2 (conn_key 2 9 1 7) = Some b2 \<and> State b2 = LAST_ACK"
proof -
  let ?ta = "sample_table 1 (conn_key 1 7 2 9) sample_conn" and ?tb = "sample_table 2 (conn_key 2 9 1 7) sample_peer"
  let ?va = "sample_handle (conn_key 1 7 2 9)" and ?vb = "sample_handle (conn_key 2 9 1 7)"
  have h: "SocketTable ?ta (conn_key 1 7 2 9) = Some sample_conn" "State sample_conn = ESTABLISHED"
    "SND_NXT (SND sample_conn) = SND_LBW (SND sample_conn)" "SocketTable ?tb (conn_key 2 9 1 7) = Some sample_peer"
    "State sample_peer = ESTABLISHED" "SND_NXT (SND sample_peer) = SND_LBW (SND sample_peer)"
    "SND_NXT (SND sample_conn) = RCV_NXT (RCV sample_peer)" "SND_NXT (SND sample_peer) = RCV_NXT (RCV sample_conn)"
    "snd_ready sample_conn" "HandlerLocalAddr ?ta = 1" "HandlerLocalAddr ?tb = 2" "SocketTableKey ?va = conn_key 1 7 2 9"
    "SocketTableKey ?vb = conn_key 2 9 1 7"
    by (simp_all add: sample_table_def sample_handle_def sample_peer_def snd_ready_def)
  from orderly_release [OF netstack_ok_rfc793 h, of 0 0] show ?thesis
    by (elim exE conjE) ((rule exI)+, (rule conjI, assumption)+, assumption)
qed

end
