(* ===== verification/Rip.thy ===== *)
theory Rip
  imports Prelude
begin

text \<open>
  Distance-vector routing: the routing table of \<open>src/pkg/ip/routing_table.go\<close> and the RIP handler of
  \<open>src/pkg/ip/rip_handler.go\<close> with the messages of \<open>src/pkg/ip/rip_protocol.go\<close>. Go iterates over a map in
  an unspecified order; the operations that do so take that order as the list \<open>order\<close> of the keys. The
  timer goroutine of an entry is the record \<open>rip_timer\<close>; \<open>now\<close> is the time in seconds.
\<close>

section \<open>The routing table\<close>

record RoutingTableEntry =
  NextHop :: u32
  Cost :: u32
  Watched :: bool                       \<comment> \<open>a \<open>waitForUpdates\<close> goroutine receives from \<open>UpdateChan\<close>\<close>

type_synonym RoutingTable = "u32 \<rightharpoonup> RoutingTableEntry"

definition INFINITY :: u32 where "INFINITY = 16"
definition MASK :: u32 where "MASK = - 1"
definition TIMEOUT :: int where "TIMEOUT = 12"

definition CreateEntry :: "u32 \<Rightarrow> u32 \<Rightarrow> RoutingTableEntry" where
  "CreateEntry nextHop cost = \<lparr>NextHop = nextHop, Cost = cost, Watched = False\<rparr>"

definition CheckRoute :: "RoutingTable \<Rightarrow> u32 \<Rightarrow> RoutingTableEntry option" where
  "CheckRoute table dest = table dest"

definition UpdateRoute :: "u32 \<Rightarrow> u32 \<Rightarrow> u32 \<Rightarrow> RoutingTable \<Rightarrow> RoutingTable" where
  "UpdateRoute dest newCost nextHop table =
     (case table dest of
        Some entry \<Rightarrow> table(dest \<mapsto> entry\<lparr>Cost := newCost, NextHop := nextHop\<rparr>)
      | None \<Rightarrow> table)"

definition AddRoute :: "u32 \<Rightarrow> u32 \<Rightarrow> u32 \<Rightarrow> bool \<Rightarrow> RoutingTable \<Rightarrow> RoutingTable" where
  "AddRoute dest cost nextHop watched table = table(dest \<mapsto> \<lparr>NextHop = nextHop, Cost = cost, Watched = watched\<rparr>)"

definition RemoveNextHops :: "u32 list \<Rightarrow> RoutingTable \<Rightarrow> RoutingTable" where
  "RemoveNextHops nextHops table =
     (\<lambda>dest. map_option (\<lambda>entry. if NextHop entry \<in> set nextHops then entry\<lparr>Cost := INFINITY\<rparr> else entry) (table dest))"

definition RemoveRoute :: "u32 \<Rightarrow> RoutingTable \<Rightarrow> RoutingTable" where
  "RemoveRoute dest table = table(dest := None)"

section \<open>Messages\<close>

record RIPEntry =
  rip_Cost :: u32
  rip_Address :: u32
  rip_Mask :: u32

record RIPMessage =
  Command :: u16
  NumEntries :: u16
  Entries :: "RIPEntry list"

definition entry_bytes :: "RIPEntry \<Rightarrow> byte list" where
  "entry_bytes e = be32 (rip_Cost e) @ be32 (rip_Address e) @ be32 (rip_Mask e)"

definition rip_message :: "u32 \<Rightarrow> RIPMessage \<Rightarrow> byte list" where
  \<comment> \<open>the address of the neighbour for the host, then the fields one by one\<close>
  "rip_message neighbor msg =
     be32 neighbor @ be16 (Command msg) @ be16 (NumEntries msg) @ concat (map entry_bytes (Entries msg))"

definition binary_Write_RIPMessage :: "RIPMessage \<Rightarrow> byte list" where
  \<comment> \<open>\<open>binary.Write\<close> of the whole struct: a struct with a slice has no fixed size, so nothing is written\<close>
  "binary_Write_RIPMessage msg = []"

fun read_be16 :: "byte list \<Rightarrow> u16 \<times> byte list" where
  \<comment> \<open>\<open>binary.Read\<close> into a zero value: what is left is consumed and the value stays zero when it is too short\<close>
  "read_be16 (a # b # rest) = (push_bit 8 (ucast a) OR ucast b, rest)"
| "read_be16 _ = (0, [])"

fun read_be32 :: "byte list \<Rightarrow> u32 \<times> byte list" where
  "read_be32 (a # b # c # d # rest) =
     (push_bit 24 (ucast a) OR push_bit 16 (ucast b) OR push_bit 8 (ucast c) OR ucast d, rest)"
| "read_be32 _ = (0, [])"

fun read_entries :: "nat \<Rightarrow> byte list \<Rightarrow> RIPEntry list" where
  "read_entries 0 bs = []"
| "read_entries (Suc n) bs =
     (let (cost, bs1) = read_be32 bs; (addr, bs2) = read_be32 bs1; (mask, bs3) = read_be32 bs2
      in \<lparr>rip_Cost = cost, rip_Address = addr, rip_Mask = mask\<rparr> # read_entries n bs3)"

definition read_message :: "byte list \<Rightarrow> RIPMessage" where
  "read_message data =
     (let (command, bs1) = read_be16 data; (num, bs2) = read_be16 bs1
      in \<lparr>Command = command, NumEntries = num, Entries = read_entries (unat num) bs2\<rparr>)"

section \<open>The handler\<close>

datatype rip_effect =
    ToHost "byte list"                  \<comment> \<open>\<open>r.MessageChan <- bytes\<close>\<close>
  | GoWaitForUpdates u32 u32            \<comment> \<open>the timer goroutine of a new entry\<close>
  | NotifyUpdate u32                    \<comment> \<open>\<open>oldEntry.UpdateChan <- true\<close>\<close>
  | GoTriggered "RIPEntry list"         \<comment> \<open>\<open>go r.SendTriggeredUpdates\<close>\<close>

record RipHandler =
  Neighbors :: "u32 list"
  OwnInterfaces :: "u32 set"            \<comment> \<open>the keys of the map\<close>

type_synonym rip_state = "RoutingTable \<times> RIPEntry list \<times> rip_effect list"

definition notify_update :: "RipHandler \<Rightarrow> u32 \<Rightarrow> RoutingTableEntry \<Rightarrow> rip_effect list go" where
  \<comment> \<open>the send on \<open>UpdateChan\<close> blocks for ever if nobody receives\<close>
  "notify_update r addr oldEntry =
     (if addr \<in> OwnInterfaces r then Inr []
      else if Watched oldEntry then Inr [NotifyUpdate addr] else Inl Hang)"

definition receive_entry :: "RipHandler \<Rightarrow> u32 \<Rightarrow> RIPEntry \<Rightarrow> rip_state \<Rightarrow> rip_state go" where
  \<comment> \<open>the body of the loop over the entries of a message\<close>
  "receive_entry r nextHop newEntry s =
     (case s of (table, updatedEntries, fx) \<Rightarrow>
       if rip_Cost newEntry = INFINITY then Inr s
       else case CheckRoute table (rip_Address newEntry) of
         None \<Rightarrow> Inr (AddRoute (rip_Address newEntry) (rip_Cost newEntry + 1) nextHop True table,
                     updatedEntries @ [newEntry], fx @ [GoWaitForUpdates (rip_Address newEntry) nextHop])
       | Some oldEntry \<Rightarrow>
           if rip_Cost newEntry + 1 < Cost oldEntry \<or> (rip_Cost newEntry + 1 > Cost oldEntry \<and> NextHop oldEntry = nextHop)
           then gbind (notify_update r (rip_Address newEntry) oldEntry) (\<lambda>fx1.
                Inr (UpdateRoute (rip_Address newEntry) (rip_Cost newEntry + 1) nextHop table,
                     updatedEntries @ [newEntry], fx @ fx1))
           else if rip_Cost newEntry + 1 > Cost oldEntry \<and> NextHop oldEntry \<noteq> nextHop then Inr s
           else gbind (notify_update r (rip_Address newEntry) oldEntry) (\<lambda>fx1. Inr (table, updatedEntries, fx @ fx1)))"

fun receive_entries :: "RipHandler \<Rightarrow> u32 \<Rightarrow> RIPEntry list \<Rightarrow> rip_state \<Rightarrow> rip_state go" where
  "receive_entries r nextHop [] s = Inr s"
| "receive_entries r nextHop (e # es) s = gbind (receive_entry r nextHop e s) (receive_entries r nextHop es)"

definition RipReceivePacket :: "RipHandler \<Rightarrow> u32 \<Rightarrow> byte list \<Rightarrow> RoutingTable \<Rightarrow> (RoutingTable \<times> rip_effect list) go" where
  \<comment> \<open>\<open>ReceivePacket\<close>; \<open>nextHop\<close> is the source address of the packet\<close>
  "RipReceivePacket r nextHop data table =
     gbind (receive_entries r nextHop (Entries (read_message data)) (table, [], [])) (\<lambda>(table1, updatedEntries, fx).
       Inr (table1, fx @ (if length updatedEntries > 0 then [GoTriggered updatedEntries] else [])))"

definition GetAllEntries :: "u32 list \<Rightarrow> RoutingTable \<Rightarrow> RIPEntry list" where
  "GetAllEntries order table =
     concat (map (\<lambda>destination. case table destination of
         None \<Rightarrow> []
       | Some entry \<Rightarrow> if Cost entry = INFINITY then []
           else [\<lparr>rip_Cost = Cost entry, rip_Address = destination, rip_Mask = MASK\<rparr>]) order)"

definition GetSpecificEntries :: "u32 list \<Rightarrow> RoutingTable \<Rightarrow> u32 \<Rightarrow> RIPEntry list" where
  "GetSpecificEntries order table neighborToPoison =
     concat (map (\<lambda>destination. case table destination of
         None \<Rightarrow> []
       | Some entry \<Rightarrow> if Cost entry = INFINITY then []
           else [\<lparr>rip_Cost = (if NextHop entry = neighborToPoison then INFINITY else Cost entry),
                  rip_Address = destination, rip_Mask = MASK\<rparr>]) order)"

definition entries_message :: "u32 \<Rightarrow> u16 \<Rightarrow> RIPEntry list \<Rightarrow> byte list" where
  "entries_message neighbor command entries =
     rip_message neighbor \<lparr>Command = command, NumEntries = of_nat (length entries), Entries = entries\<rparr>"

definition RipInitHandler :: "u32 list \<Rightarrow> u32 set \<Rightarrow> u32 list \<Rightarrow> RoutingTable \<Rightarrow> RipHandler \<times> rip_effect list" where
  \<comment> \<open>\<open>InitHandler\<close> with the keys of the neighbour map in iteration order; then the periodic updates start\<close>
  "RipInitHandler neighborKeys ownInterfaces order table =
     (\<lparr>Neighbors = neighborKeys, OwnInterfaces = ownInterfaces\<rparr>,
      map (\<lambda>neighbor. ToHost (entries_message neighbor 1 (GetAllEntries order table))) neighborKeys)"

definition periodic_update :: "RipHandler \<Rightarrow> u32 list \<Rightarrow> RoutingTable \<Rightarrow> rip_effect list" where
  \<comment> \<open>\<open>SendUpdatesToNeighbors\<close> at a tick of its clock\<close>
  "periodic_update r order table =
     map (\<lambda>neighbor. ToHost (entries_message neighbor 2 (GetSpecificEntries order table neighbor))) (Neighbors r)"

definition poison_entries :: "RoutingTable \<Rightarrow> u32 \<Rightarrow> RIPEntry list \<Rightarrow> RIPEntry list" where
  "poison_entries table neighbor entries =
     map (\<lambda>entry. case CheckRoute table (rip_Address entry) of
         None \<Rightarrow> entry
       | Some newEntry \<Rightarrow> if NextHop newEntry = neighbor then entry\<lparr>rip_Cost := INFINITY\<rparr> else entry) entries"

fun SendTriggeredUpdates :: "u32 list \<Rightarrow> RIPEntry list \<Rightarrow> RoutingTable \<Rightarrow> rip_effect list" where
  \<comment> \<open>the slice \<open>entriesToSend\<close> is changed in place, so a poisoned entry stays poisoned for the next neighbour\<close>
  "SendTriggeredUpdates [] entriesToSend table = []"
| "SendTriggeredUpdates (neighbor # rest) entriesToSend table =
     (let entries = poison_entries table neighbor entriesToSend;
          newRIPMessage = \<lparr>Command = 2, NumEntries = of_nat (length entries), Entries = entries\<rparr>
      in ToHost (be32 neighbor @ binary_Write_RIPMessage newRIPMessage) # SendTriggeredUpdates rest entries table)"

definition InitRoutingTable :: "u32 set \<Rightarrow> RoutingTable" where
  \<comment> \<open>of \<open>src/cmd/node/node_init.go\<close>: a route of cost zero to every own address\<close>
  "InitRoutingTable localIFs = (\<lambda>d. if d \<in> localIFs then Some (CreateEntry d 0) else None)"

section \<open>Timers\<close>

record rip_timer =
  tm_addr :: u32
  tm_hop :: u32
  tm_deadline :: int

definition waitForUpdates_start :: "int \<Rightarrow> u32 \<Rightarrow> u32 \<Rightarrow> rip_timer" where
  "waitForUpdates_start now newEntryAddress nextHop = \<lparr>tm_addr = newEntryAddress, tm_hop = nextHop, tm_deadline = now + 20\<rparr>"

definition waitForUpdates_update :: "int \<Rightarrow> bool \<Rightarrow> rip_timer \<Rightarrow> rip_timer" where
  "waitForUpdates_update now update tm = (if update then tm\<lparr>tm_deadline := now + TIMEOUT\<rparr> else tm)"

definition waitForUpdates_fire :: "int \<Rightarrow> rip_timer \<Rightarrow> RoutingTable \<Rightarrow> rip_timer \<times> RoutingTable" where
  "waitForUpdates_fire now tm table = (tm\<lparr>tm_deadline := now + TIMEOUT\<rparr>, UpdateRoute (tm_addr tm) 16 (tm_hop tm) table)"

section \<open>Encoding and decoding\<close>

lemma read_be16_be16 [simp]: "read_be16 (be16 w @ rest) = (w, rest)"
  by (simp add: be16_def be16_join)

lemma read_be32_be32 [simp]: "read_be32 (be32 w @ rest) = (w, rest)"
  by (simp add: be32_def be32_join)

lemma read_entries_bytes: "read_entries (length es) (concat (map entry_bytes es) @ rest) = es"
  by (induction es) (auto simp: entry_bytes_def)

lemma unat_of_nat_u16: "n < 65536 \<Longrightarrow> unat (of_nat n :: u16) = n"
  by (simp add: unat_of_nat take_bit_eq_mod)

lemma read_entries_message:
  assumes "length es < 65536"
  shows "read_message (drop 4 (entries_message nb cmd es)) = \<lparr>Command = cmd, NumEntries = of_nat (length es), Entries = es\<rparr>"
  using read_entries_bytes [of es "[]"] assms
  by (simp add: entries_message_def rip_message_def read_message_def unat_of_nat_u16)

section \<open>The distance-vector rule\<close>

definition dv_update :: "u32 \<Rightarrow> u32 \<Rightarrow> RoutingTableEntry option \<Rightarrow> RoutingTableEntry option" where
  \<comment> \<open>RFC 2453: take a better route, and anything the current next hop says\<close>
  "dv_update c hop old = (case old of
       None \<Rightarrow> Some \<lparr>NextHop = hop, Cost = c, Watched = True\<rparr>
     | Some e \<Rightarrow> Some (if c < Cost e \<or> NextHop e = hop then e\<lparr>Cost := c, NextHop := hop\<rparr> else e))"

definition dv_entry :: "u32 \<Rightarrow> RIPEntry \<Rightarrow> RoutingTable \<Rightarrow> RoutingTable" where
  "dv_entry hop e table =
     (if rip_Cost e = INFINITY then table
      else table(rip_Address e := dv_update (rip_Cost e + 1) hop (table (rip_Address e))))"

definition rt_ok :: "u32 set \<Rightarrow> RoutingTable \<Rightarrow> bool" where
  \<comment> \<open>costs are at most infinity, and every learned entry has its timer\<close>
  "rt_ok own table \<longleftrightarrow> (\<forall>d e. table d = Some e \<longrightarrow> Cost e \<le> INFINITY \<and> (d \<notin> own \<longrightarrow> Watched e))"

lemma u32_Suc_le: "(c :: u32) < d \<Longrightarrow> unat (c + 1) = unat c + 1"
  using unat_u32_less [of d] by (simp add: unat_add_u32 u32_less_nat)

lemma dv_update_old:
  "dv_update c hop (Some e) = Some (if c < Cost e \<or> c > Cost e \<and> NextHop e = hop then e\<lparr>Cost := c, NextHop := hop\<rparr> else e)"
  by (cases e) (auto simp: dv_update_def)

lemma receive_entry_dv:
  assumes "rt_ok (OwnInterfaces r) table"
  shows "\<exists>upd' fx'. receive_entry r hop e (table, upd, fx) = Inr (dv_entry hop e table, upd', fx')"
proof (cases "table (rip_Address e)")
  case None
  then show ?thesis
    by (simp add: receive_entry_def CheckRoute_def dv_entry_def dv_update_def AddRoute_def)
next
  case (Some old)
  then obtain fx1 where n: "notify_update r (rip_Address e) old = Inr fx1"
    using assms by (cases "rip_Address e \<in> OwnInterfaces r") (auto simp: rt_ok_def notify_update_def)
  have "table(rip_Address e \<mapsto> old) = table" using Some by (rule map_upd_triv)
  then show ?thesis
    using Some n by (auto simp: receive_entry_def CheckRoute_def UpdateRoute_def dv_entry_def dv_update_old)
qed

lemma dv_entry_ok:
  assumes "rt_ok own table" and "rip_Cost e \<le> INFINITY"
  shows "rt_ok own (dv_entry hop e table)"
proof (cases "rip_Cost e = INFINITY")
  case False
  then have "rip_Cost e < INFINITY" using assms(2) by simp
  then have "rip_Cost e + 1 \<le> INFINITY"
    using u32_Suc_le [of "rip_Cost e" INFINITY] by (simp add: u32_le_nat u32_less_nat)
  then show ?thesis
    using assms(1) by (auto simp: rt_ok_def dv_entry_def dv_update_def split: option.splits if_splits)
qed (use assms(1) in \<open>simp add: dv_entry_def\<close>)

lemma receive_entries_dv:
  assumes "rt_ok (OwnInterfaces r) table" and "\<forall>e \<in> set es. rip_Cost e \<le> INFINITY"
  shows "\<exists>upd' fx'. receive_entries r hop es (table, upd, fx) = Inr (fold (dv_entry hop) es table, upd', fx')"
  using assms
proof (induction es arbitrary: table upd fx)
  case (Cons e es)
  obtain upd1 fx1 where "receive_entry r hop e (table, upd, fx) = Inr (dv_entry hop e table, upd1, fx1)"
    using receive_entry_dv [OF Cons.prems(1)] by metis
  moreover have "rt_ok (OwnInterfaces r) (dv_entry hop e table)"
    using dv_entry_ok [OF Cons.prems(1)] Cons.prems(2) by simp
  ultimately show ?case using Cons.IH [of "dv_entry hop e table"] Cons.prems(2) by simp
qed simp

lemma fold_dv_ok:
  assumes "rt_ok own table" and "\<forall>e \<in> set es. rip_Cost e \<le> INFINITY"
  shows "rt_ok own (fold (dv_entry hop) es table)"
  using assms by (induction es arbitrary: table) (simp_all add: dv_entry_ok)

lemma dv_entry_apply:
  "dv_entry hop e table d = (if d = rip_Address e \<and> rip_Cost e \<noteq> INFINITY
     then dv_update (rip_Cost e + 1) hop (table d) else table d)"
  by (simp add: dv_entry_def)

lemma fold_dv_other:
  assumes "d \<notin> rip_Address ` set es"
  shows "fold (dv_entry hop) es table d = table d"
  using assms by (induction es arbitrary: table) (auto simp: dv_entry_apply)

lemma fold_dv_at:
  assumes "distinct (map rip_Address es)" and "e \<in> set es"
  shows "fold (dv_entry hop) es table (rip_Address e) =
    (if rip_Cost e = INFINITY then table (rip_Address e) else dv_update (rip_Cost e + 1) hop (table (rip_Address e)))"
  using assms
proof (induction es arbitrary: table)
  case (Cons x es)
  show ?case
  proof (cases "x = e")
    case True
    then have "fold (dv_entry hop) es (dv_entry hop e table) (rip_Address e) = dv_entry hop e table (rip_Address e)"
      using Cons.prems(1) by (intro fold_dv_other) auto
    then show ?thesis using True dv_entry_apply [of hop e table "rip_Address e"] by simp
  next
    case False
    then have "e \<in> set es" "rip_Address x \<noteq> rip_Address e" using Cons.prems by auto
    then show ?thesis
      using Cons.IH [of "dv_entry hop x table"] Cons.prems(1) dv_entry_apply [of hop x table "rip_Address e"] by simp
  qed
qed simp

text \<open>What a packet does to the table, given that its costs are in range.\<close>

lemma RipReceivePacket_fold:
  assumes "rt_ok (OwnInterfaces r) table" and "\<forall>e \<in> set (Entries (read_message data)). rip_Cost e \<le> INFINITY"
  shows "\<exists>fx. RipReceivePacket r hop data table = Inr (fold (dv_entry hop) (Entries (read_message data)) table, fx)"
  using receive_entries_dv [OF assms, of hop "[]" "[]"] by (auto simp: RipReceivePacket_def)

section \<open>Every operation keeps the table well formed\<close>

lemma UpdateRoute_ok: "rt_ok own table \<Longrightarrow> c \<le> INFINITY \<Longrightarrow> rt_ok own (UpdateRoute d c hop table)"
  by (auto simp: rt_ok_def UpdateRoute_def split: option.splits)

lemma RemoveNextHops_ok: "rt_ok own table \<Longrightarrow> rt_ok own (RemoveNextHops hops table)"
  by (auto simp: rt_ok_def RemoveNextHops_def)

lemma own_entry_ok: "rt_ok own table \<Longrightarrow> d \<in> own \<Longrightarrow> rt_ok own (table(d \<mapsto> CreateEntry d 0))"
  by (auto simp: rt_ok_def CreateEntry_def INFINITY_def)

lemma waitForUpdates_fire_ok: "rt_ok own table \<Longrightarrow> rt_ok own (snd (waitForUpdates_fire now tm table))"
  by (simp add: waitForUpdates_fire_def UpdateRoute_ok INFINITY_def)

lemma InitRoutingTable_ok: "rt_ok own (InitRoutingTable own)"
  by (auto simp: rt_ok_def InitRoutingTable_def CreateEntry_def INFINITY_def split: if_splits)

section \<open>What is advertised\<close>

lemma GetSpecificEntries_map:
  "GetSpecificEntries order table nb =
     map (\<lambda>d. \<lparr>rip_Cost = (if NextHop (the (table d)) = nb then INFINITY else Cost (the (table d))), rip_Address = d, rip_Mask = MASK\<rparr>)
       (filter (\<lambda>d. \<exists>e. table d = Some e \<and> Cost e \<noteq> INFINITY) order)"
  by (induction order) (auto simp: GetSpecificEntries_def split: option.splits)

lemma GetAllEntries_map:
  "GetAllEntries order table =
     map (\<lambda>d. \<lparr>rip_Cost = Cost (the (table d)), rip_Address = d, rip_Mask = MASK\<rparr>)
       (filter (\<lambda>d. \<exists>e. table d = Some e \<and> Cost e \<noteq> INFINITY) order)"
  by (induction order) (auto simp: GetAllEntries_def split: option.splits)

lemma advertised_ok:
  assumes "rt_ok own table"
  shows "\<forall>e \<in> set (GetSpecificEntries order table nb). rip_Cost e \<le> INFINITY"
    and "\<forall>e \<in> set (GetAllEntries order table). rip_Cost e \<le> INFINITY"
  using assms by (auto simp: GetSpecificEntries_map GetAllEntries_map rt_ok_def)

lemma advertised_distinct:
  assumes "distinct order"
  shows "distinct (map rip_Address (GetSpecificEntries order table nb))" and "distinct (map rip_Address (GetAllEntries order table))"
  using assms by (simp_all add: GetSpecificEntries_map GetAllEntries_map comp_def)

lemma exchange_applies:
  assumes "rt_ok (OwnInterfaces r) table" and "rt_ok own' table'" and "distinct order" and "length order < 65536"
  shows "\<exists>table2 fx. RipReceivePacket r hop (drop 4 (entries_message nb cmd (GetSpecificEntries order table' nb))) table
      = Inr (table2, fx) \<and> rt_ok (OwnInterfaces r) table2
    \<and> (\<forall>d. table2 d = (case table' d of
          Some e \<Rightarrow> if d \<in> set order \<and> Cost e \<noteq> INFINITY \<and> NextHop e \<noteq> nb then dv_update (Cost e + 1) hop (table d) else table d
        | None \<Rightarrow> table d))"
proof -
  let ?es = "GetSpecificEntries order table' nb"
  have "length ?es \<le> length order" by (simp add: GetSpecificEntries_map)
  then have es: "Entries (read_message (drop 4 (entries_message nb cmd ?es))) = ?es"
    using read_entries_message [of ?es nb cmd] assms(4) by simp
  have costs: "\<forall>e \<in> set ?es. rip_Cost e \<le> INFINITY" by (rule advertised_ok(1) [OF assms(2)])
  obtain fx where fx: "RipReceivePacket r hop (drop 4 (entries_message nb cmd ?es)) table = Inr (fold (dv_entry hop) ?es table, fx)"
    using RipReceivePacket_fold [OF assms(1), of "drop 4 (entries_message nb cmd ?es)" hop] costs by (auto simp: es)
  have "fold (dv_entry hop) ?es table d = (case table' d of
          Some e \<Rightarrow> if d \<in> set order \<and> Cost e \<noteq> INFINITY \<and> NextHop e \<noteq> nb then dv_update (Cost e + 1) hop (table d) else table d
        | None \<Rightarrow> table d)" for d
  proof (cases "\<exists>e. table' d = Some e \<and> d \<in> set order \<and> Cost e \<noteq> INFINITY")
    case True
    then obtain e where e: "table' d = Some e" "d \<in> set order" "Cost e \<noteq> INFINITY" by blast
    let ?e = "\<lparr>rip_Cost = (if NextHop e = nb then INFINITY else Cost e), rip_Address = d, rip_Mask = MASK\<rparr>"
    have "?e \<in> set ?es" using e by (force simp: GetSpecificEntries_map)
    from fold_dv_at [OF advertised_distinct(1) [OF assms(3)] this, of hop table] show ?thesis using e by auto
  next
    case False
    then have "d \<notin> rip_Address ` set ?es" by (auto simp: GetSpecificEntries_map)
    from fold_dv_other [OF this] show ?thesis using False by (auto split: option.splits)
  qed
  then show ?thesis using fx fold_dv_ok [OF assms(1) costs] by blast
qed

section \<open>Sequences of events\<close>

datatype rip_event =
    RipPacket u32 "byte list"           \<comment> \<open>a packet from this address\<close>
  | RipTimer int rip_timer              \<comment> \<open>the timer of an entry fires\<close>
  | RipDown "u32 list"                  \<comment> \<open>an interface goes down\<close>
  | RipUp u32                           \<comment> \<open>an interface comes up\<close>

fun rip_event_step :: "RipHandler \<Rightarrow> rip_event \<Rightarrow> RoutingTable \<Rightarrow> RoutingTable go" where
  "rip_event_step r (RipPacket hop data) table = gbind (RipReceivePacket r hop data table) (\<lambda>(t, fx). Inr t)"
| "rip_event_step r (RipTimer now tm) table = Inr (snd (waitForUpdates_fire now tm table))"
| "rip_event_step r (RipDown hops) table = Inr (RemoveNextHops hops table)"
| "rip_event_step r (RipUp d) table = Inr (table(d \<mapsto> CreateEntry d 0))"

fun rip_events :: "RipHandler \<Rightarrow> rip_event list \<Rightarrow> RoutingTable \<Rightarrow> RoutingTable go" where
  "rip_events r [] table = Inr table"
| "rip_events r (ev # evs) table = gbind (rip_event_step r ev table) (rip_events r evs)"

fun event_ok :: "RipHandler \<Rightarrow> rip_event \<Rightarrow> bool" where
  \<comment> \<open>what a neighbour running the same code sends, and interfaces of this host\<close>
  "event_ok r (RipPacket hop data) = (\<forall>e \<in> set (Entries (read_message data)). rip_Cost e \<le> INFINITY)"
| "event_ok r (RipUp d) = (d \<in> OwnInterfaces r)"
| "event_ok r _ = True"

lemma fold_dv_dom: "dom table \<subseteq> dom (fold (dv_entry hop) es table)"
proof (induction es arbitrary: table)
  case (Cons e es)
  have "dom table \<subseteq> dom (dv_entry hop e table)" by (auto simp: dv_entry_def dv_update_def)
  then show ?case using Cons.IH [of "dv_entry hop e table"] by auto
qed simp

lemma rip_event_step_ok:
  assumes "rt_ok (OwnInterfaces r) table" and "event_ok r ev"
  shows "\<exists>table'. rip_event_step r ev table = Inr table' \<and> rt_ok (OwnInterfaces r) table' \<and> dom table \<subseteq> dom table'"
proof (cases ev)
  case (RipPacket hop data)
  then show ?thesis
    using RipReceivePacket_fold [OF assms(1), of data hop] fold_dv_ok [OF assms(1), of "Entries (read_message data)" hop] assms(2)
      fold_dv_dom [of table hop "Entries (read_message data)"]
    by auto
next
  case (RipTimer now tm)
  then show ?thesis
    using waitForUpdates_fire_ok [OF assms(1)] by (auto simp: waitForUpdates_fire_def UpdateRoute_def split: option.splits if_splits)
next
  case (RipDown hops)
  then show ?thesis using RemoveNextHops_ok [OF assms(1)] by (auto simp: RemoveNextHops_def)
next
  case (RipUp d)
  then show ?thesis using own_entry_ok [OF assms(1), of d] assms(2) by auto
qed

section \<open>Properties\<close>

text \<open>
  C21. What a neighbour's periodic update does to a routing table, from the neighbour's table through
  the encoded message to the table of the receiver: for every destination the neighbour has a finite
  route to that does not lead back through the receiver, the distance-vector rule with one more hop;
  every other destination is left alone. The receiver does not block and its table stays well formed.
\<close>

theorem rip_update_is_distance_vector:
  assumes "rt_ok (OwnInterfaces r) table" and "rt_ok own' table'" and "distinct order" and "set order = dom table'"
    and "length order < 65536"
  shows "\<exists>table2 fx. RipReceivePacket r hop (drop 4 (entries_message nb 2 (GetSpecificEntries order table' nb))) table
      = Inr (table2, fx) \<and> rt_ok (OwnInterfaces r) table2
    \<and> (\<forall>d. table2 d = (case table' d of
          Some e \<Rightarrow> if Cost e < 16 \<and> NextHop e \<noteq> nb then dv_update (Cost e + 1) hop (table d) else table d
        | None \<Rightarrow> table d))"
proof -
  have "Cost e \<noteq> INFINITY \<longleftrightarrow> Cost e < 16" if "table' d = Some e" for d e
    using assms(2) that by (auto simp: rt_ok_def INFINITY_def order_less_le)
  then show ?thesis
    using exchange_applies [OF assms(1,2,3,5), of hop nb 2] assms(4)
    by (fastforce split: option.splits intro: exI)
qed

definition sample_rip :: RipHandler where
  "sample_rip = \<lparr>Neighbors = [2], OwnInterfaces = {1}\<rparr>"

definition sample_routes :: "u32 \<Rightarrow> u32 \<Rightarrow> RoutingTable" where
  \<comment> \<open>own address \<open>a\<close>, and a route to address 9 with cost 3 over \<open>hop\<close>\<close>
  "sample_routes a hop = [a \<mapsto> CreateEntry a 0, 9 \<mapsto> \<lparr>NextHop = hop, Cost = 3, Watched = True\<rparr>]"

lemma sample_routes_ok: "a \<noteq> 9 \<Longrightarrow> rt_ok {a} (sample_routes a hop)"
  by (simp add: rt_ok_def sample_routes_def CreateEntry_def INFINITY_def)

theorem rip_update_is_distance_vector_witness:
  "\<exists>table2 fx. RipReceivePacket sample_rip 2 (drop 4 (entries_message 1 2 (GetSpecificEntries [2, 9] (sample_routes 2 8) 1)))
      (sample_routes 1 7) = Inr (table2, fx)
    \<and> table2 2 = Some \<lparr>NextHop = 2, Cost = 1, Watched = True\<rparr> \<and> table2 9 = Some \<lparr>NextHop = 7, Cost = 3, Watched = True\<rparr>"
proof -
  have "rt_ok (OwnInterfaces sample_rip) (sample_routes 1 7)" by (simp add: sample_rip_def sample_routes_ok)
  moreover have "rt_ok {2} (sample_routes 2 8)" by (simp add: sample_routes_ok)
  moreover have "set [2, 9] = dom (sample_routes 2 8)" by (auto simp: sample_routes_def)
  ultimately obtain table2 fx where
    "RipReceivePacket sample_rip 2 (drop 4 (entries_message 1 2 (GetSpecificEntries [2, 9] (sample_routes 2 8) 1)))
      (sample_routes 1 7) = Inr (table2, fx)"
    "\<And>d. table2 d = (case sample_routes 2 8 d of
          Some e \<Rightarrow> if Cost e < 16 \<and> NextHop e \<noteq> 1 then dv_update (Cost e + 1) 2 (sample_routes 1 7 d) else sample_routes 1 7 d
        | None \<Rightarrow> sample_routes 1 7 d)"
    using rip_update_is_distance_vector [of sample_rip "sample_routes 1 7" "{2}" "sample_routes 2 8" "[2, 9]" 2 1] by auto
  then show ?thesis
    by (intro exI [of _ table2] exI [of _ fx]) (simp add: sample_routes_def CreateEntry_def dv_update_def)
qed



text \<open>
  A triggered update tells the neighbours nothing: whatever has changed in the table, the message
  for every neighbour holds only the neighbour's address, and a neighbour that gets it changes nothing.
\<close>

lemma triggered_updates_are_empty:
  "SendTriggeredUpdates neighbors entries table = map (\<lambda>n. ToHost (be32 n)) neighbors
   \<and> RipReceivePacket r hop (drop 4 (be32 n)) table' = Inr (table', [])"
proof -
  have "SendTriggeredUpdates neighbors entries table = map (\<lambda>n. ToHost (be32 n)) neighbors"
    by (induction neighbors arbitrary: entries) (simp_all add: binary_Write_RIPMessage_def)
  then show ?thesis by (simp add: RipReceivePacket_def read_message_def)
qed

text \<open>
  C28. A RIP message decodes to what was encoded: command, number of entries and the entries in
  order, for every list of fewer than 65536 entries.
\<close>

theorem rip_message_roundtrip:
  assumes "length entries < 65536"
  shows "read_message (drop 4 (entries_message neighbor command entries))
    = \<lparr>Command = command, NumEntries = of_nat (length entries), Entries = entries\<rparr>
    \<and> get_be32 (entries_message neighbor command entries) = Inr neighbor"
  using read_entries_message [OF assms] by (simp add: entries_message_def rip_message_def)

theorem rip_message_roundtrip_witness:
  "read_message (drop 4 (entries_message 2 1 [\<lparr>rip_Cost = 0, rip_Address = 1, rip_Mask = MASK\<rparr>]))
    = \<lparr>Command = 1, NumEntries = 1, Entries = [\<lparr>rip_Cost = 0, rip_Address = 1, rip_Mask = MASK\<rparr>]\<rparr>"
  using rip_message_roundtrip [of "[\<lparr>rip_Cost = 0, rip_Address = 1, rip_Mask = MASK\<rparr>]" 2 1] by simp

end
