(* ===== verification/RipNetwork.thy ===== *)
theory RipNetwork
  imports Rip
begin

text \<open>
  Hosts that run the RIP handler of \<open>src/pkg/ip/rip_handler.go\<close>, connected by links. A link joins two
  interface addresses; a periodic update goes from the sender's end of a link to the other end, where the
  receiver takes the source address of the packet as the next hop, as the host of \<open>src/pkg/ip/host.go\<close>
  arranges. A datagram is cut to the 1400 bytes of the receiver's buffer, so that a longer update loses its end and is
  read as if zeros followed; the networks considered have at most 114 addresses, and then every update fits. The links stay
  as they are: what is shown is that the tables only hold routes that exist, and that they converge to the shortest ones.
\<close>

section \<open>Networks\<close>

record rip_net =
  net_link :: "u32 \<rightharpoonup> u32"             \<comment> \<open>the other end of the link at this interface address\<close>
  net_owner :: "u32 \<Rightarrow> nat"             \<comment> \<open>the host of an address\<close>
  net_nbrs :: "nat \<Rightarrow> u32 list"         \<comment> \<open>the neighbours a host knows, in its order\<close>

definition linked :: "rip_net \<Rightarrow> u32 set" where
  "linked net = dom (net_link net)"

definition net_ifs :: "rip_net \<Rightarrow> nat \<Rightarrow> u32 set" where
  "net_ifs net n = {a \<in> linked net. net_owner net a = n}"

definition datagram_payload :: "byte list \<Rightarrow> byte list" where
  \<comment> \<open>what is left of a packet's data when it is read into the buffer of \<open>MTU\<close> bytes behind its header of 20\<close>
  "datagram_payload data = take (1400 - 20) data"

definition net_ok :: "rip_net \<Rightarrow> bool" where
  "net_ok net \<longleftrightarrow> (\<forall>a b. net_link net a = Some b \<longrightarrow> net_link net b = Some a \<and> net_owner net a \<noteq> net_owner net b)
     \<and> (\<forall>n. set (net_nbrs net n) = {b. \<exists>a \<in> net_ifs net n. net_link net a = Some b})
     \<and> card (linked net) \<le> 114"

definition net_handler :: "rip_net \<Rightarrow> nat \<Rightarrow> RipHandler" where
  "net_handler net n = \<lparr>Neighbors = net_nbrs net n, OwnInterfaces = net_ifs net n\<rparr>"

definition net_init :: "rip_net \<Rightarrow> nat \<Rightarrow> RoutingTable" where
  "net_init net n = InitRoutingTable (net_ifs net n)"

inductive walk :: "rip_net \<Rightarrow> nat \<Rightarrow> nat \<Rightarrow> u32 \<Rightarrow> bool" for net where
  \<comment> \<open>\<open>walk net n k d\<close>: \<open>k\<close> links lead from host \<open>n\<close> to the host of address \<open>d\<close>\<close>
  walk_own: "d \<in> net_ifs net n \<Longrightarrow> walk net n 0 d"
| walk_link: "a \<in> net_ifs net n \<Longrightarrow> net_link net a = Some b \<Longrightarrow> walk net (net_owner net b) k d \<Longrightarrow> walk net n (Suc k) d"

inductive_cases walk_0E: "walk net n 0 d"
inductive_cases walk_SucE: "walk net n (Suc k) d"

definition is_dist :: "rip_net \<Rightarrow> nat \<Rightarrow> u32 \<Rightarrow> nat \<Rightarrow> bool" where
  "is_dist net n d k \<longleftrightarrow> walk net n k d \<and> (\<forall>j < k. \<not> walk net n j d)"

section \<open>Runs\<close>

text \<open>
  A state is the table of every host with the packets ever sent, as source, destination and
  payload. A packet may be lost, delayed and delivered more than once.
\<close>

type_synonym rip_world = "(nat \<Rightarrow> RoutingTable) \<times> (u32 \<times> u32 \<times> byte list) set"

inductive rip_run :: "rip_net \<Rightarrow> rip_world \<Rightarrow> rip_world \<Rightarrow> bool" for net where
  run_init: "n = net_owner net a \<Longrightarrow> net_link net a = Some b \<Longrightarrow> distinct order \<Longrightarrow> set order = dom (T n) \<Longrightarrow>
    ToHost msg \<in> set (snd (RipInitHandler (net_nbrs net n) (net_ifs net n) order (T n))) \<Longrightarrow> get_be32 msg = Inr b \<Longrightarrow>
    rip_run net (T, M) (T, insert (a, b, datagram_payload (drop 4 msg)) M)"
| run_periodic: "n = net_owner net a \<Longrightarrow> net_link net a = Some b \<Longrightarrow> distinct order \<Longrightarrow> set order = dom (T n) \<Longrightarrow>
    ToHost msg \<in> set (periodic_update (net_handler net n) order (T n)) \<Longrightarrow> get_be32 msg = Inr b \<Longrightarrow>
    rip_run net (T, M) (T, insert (a, b, datagram_payload (drop 4 msg)) M)"
| run_triggered: "n = net_owner net a \<Longrightarrow> net_link net a = Some b \<Longrightarrow>
    ToHost msg \<in> set (SendTriggeredUpdates (net_nbrs net n) entries (T n)) \<Longrightarrow> get_be32 msg = Inr b \<Longrightarrow>
    rip_run net (T, M) (T, insert (a, b, datagram_payload (drop 4 msg)) M)"
| run_receive: "(a, b, data) \<in> M \<Longrightarrow> n = net_owner net b \<Longrightarrow>
    RipReceivePacket (net_handler net n) a data (T n) = Inr (table, fx) \<Longrightarrow> rip_run net (T, M) (T(n := table), M)"
| run_timer: "rip_run net (T, M) (T(n := snd (waitForUpdates_fire now tm (T n))), M)"

inductive exchange :: "rip_net \<Rightarrow> u32 \<Rightarrow> (nat \<Rightarrow> RoutingTable) \<Rightarrow> (nat \<Rightarrow> RoutingTable) \<Rightarrow> bool" for net where
  \<comment> \<open>a periodic update leaves the interface \<open>a\<close> and is handled before anything else happens\<close>
  "n = net_owner net a \<Longrightarrow> net_link net a = Some b \<Longrightarrow> distinct order \<Longrightarrow> set order = dom (T n) \<Longrightarrow>
    ToHost msg \<in> set (periodic_update (net_handler net n) order (T n)) \<Longrightarrow> get_be32 msg = Inr b \<Longrightarrow>
    RipReceivePacket (net_handler net (net_owner net b)) a (datagram_payload (drop 4 msg)) (T (net_owner net b)) = Inr (table, fx) \<Longrightarrow>
    exchange net a T (T(net_owner net b := table))"

inductive exchanges :: "rip_net \<Rightarrow> u32 list \<Rightarrow> (nat \<Rightarrow> RoutingTable) \<Rightarrow> (nat \<Rightarrow> RoutingTable) \<Rightarrow> bool" for net where
  "exchanges net [] T T"
| "exchange net a T T1 \<Longrightarrow> exchanges net as T1 T2 \<Longrightarrow> exchanges net (a # as) T T2"

inductive rounds :: "rip_net \<Rightarrow> nat \<Rightarrow> (nat \<Rightarrow> RoutingTable) \<Rightarrow> (nat \<Rightarrow> RoutingTable) \<Rightarrow> bool" for net where
  \<comment> \<open>\<open>k\<close> rounds, in each of which every interface sends at least one update, in any order\<close>
  "rounds net 0 T T"
| "rounds net k T T1 \<Longrightarrow> exchanges net as T1 T2 \<Longrightarrow> linked net \<subseteq> set as \<Longrightarrow> rounds net (Suc k) T T2"

section \<open>Tables that hold only real routes\<close>

definition route_real :: "rip_net \<Rightarrow> nat \<Rightarrow> u32 \<Rightarrow> nat \<Rightarrow> u32 \<Rightarrow> bool" where
  "route_real net n d c hop \<longleftrightarrow> (case c of 0 \<Rightarrow> d \<in> net_ifs net n \<and> hop = d
     | Suc k \<Rightarrow> (\<exists>a \<in> net_ifs net n. net_link net a = Some hop) \<and> walk net (net_owner net hop) k d)"

definition table_real :: "rip_net \<Rightarrow> nat \<Rightarrow> RoutingTable \<Rightarrow> bool" where
  "table_real net n table \<longleftrightarrow> rt_ok (net_ifs net n) table \<and> dom table \<subseteq> linked net
     \<and> (\<forall>d e. table d = Some e \<longrightarrow> Cost e < INFINITY \<longrightarrow> route_real net n d (unat (Cost e)) (NextHop e))"

definition advert_real :: "rip_net \<Rightarrow> nat \<Rightarrow> RIPEntry \<Rightarrow> bool" where
  "advert_real net n e \<longleftrightarrow> rip_Cost e \<le> INFINITY \<and> (rip_Cost e < INFINITY \<longrightarrow> walk net n (unat (rip_Cost e)) (rip_Address e))"

lemma walk_linked: "walk net n k d \<Longrightarrow> d \<in> linked net"
  by (induction rule: walk.induct) (auto simp: net_ifs_def)

lemma route_real_walk: "route_real net n d c hop \<Longrightarrow> walk net n c d"
  by (cases c) (auto simp: route_real_def intro: walk.intros)

lemma link_ifs: "net_link net a = Some b \<Longrightarrow> a \<in> net_ifs net (net_owner net a)"
  by (auto simp: net_ifs_def linked_def)

lemma net_ok_sym: "net_ok net \<Longrightarrow> net_link net a = Some b \<Longrightarrow> net_link net b = Some a"
  unfolding net_ok_def by blast

lemma net_ok_nbrs: "net_ok net \<Longrightarrow> set (net_nbrs net n) = {b. \<exists>a \<in> net_ifs net n. net_link net a = Some b}"
  unfolding net_ok_def by blast

lemma net_ok_irrefl: "net_ok net \<Longrightarrow> net_link net a = Some b \<Longrightarrow> net_owner net a \<noteq> net_owner net b"
  unfolding net_ok_def by blast

lemma unat_INFINITY [simp]: "unat INFINITY = 16"
  by (simp add: INFINITY_def)

lemma dv_entry_real:
  assumes "table_real net (net_owner net b) table" and "net_ok net" and "net_link net a = Some b"
    and "advert_real net (net_owner net a) e"
  shows "table_real net (net_owner net b) (dv_entry a e table)"
proof (cases "rip_Cost e < INFINITY")
  case True
  let ?m = "net_owner net b"
  have w: "walk net (net_owner net a) (unat (rip_Cost e)) (rip_Address e)" using True assms(4) by (simp add: advert_real_def)
  have b: "b \<in> net_ifs net ?m" "net_link net b = Some a"
    using net_ok_sym [OF assms(2,3)] link_ifs by auto
  have c: "unat (rip_Cost e + 1) = Suc (unat (rip_Cost e))" using u32_Suc_le [OF True] by simp
  have new: "route_real net ?m (rip_Address e) (unat (rip_Cost e + 1)) a"
    using b w by (auto simp: route_real_def c)
  have "rt_ok (net_ifs net ?m) (dv_entry a e table)"
    using assms(1) True by (intro dv_entry_ok) (auto simp: table_real_def)
  moreover have "dom (dv_entry a e table) \<subseteq> linked net"
    using assms(1) walk_linked [OF w] by (auto simp: table_real_def dv_entry_def)
  moreover have "route_real net ?m d (unat (Cost x)) (NextHop x)"
    if "dv_entry a e table d = Some x" "Cost x < INFINITY" for d x
    using that assms(1) new
    by (auto simp: dv_entry_apply dv_update_def table_real_def split: if_splits option.splits)
  ultimately show ?thesis by (auto simp: table_real_def)
next
  case False
  then have "rip_Cost e = INFINITY" using assms(4) by (simp add: advert_real_def)
  then show ?thesis using assms(1) by (simp add: dv_entry_def)
qed

lemma fold_dv_real:
  assumes "table_real net (net_owner net b) table" and "net_ok net" and "net_link net a = Some b"
    and "\<forall>e \<in> set es. advert_real net (net_owner net a) e"
  shows "table_real net (net_owner net b) (fold (dv_entry a) es table)"
  using assms by (induction es arbitrary: table) (auto intro: dv_entry_real)

lemma short_order:
  assumes "net_ok net" and "table_real net n table" and "distinct order" and "set order = dom table"
  shows "length order \<le> 114"
proof -
  have "length order = card (dom table)" using assms(3,4) distinct_card by metis
  also have "\<dots> \<le> card (linked net)"
    using assms(2) by (intro card_mono finite) (auto simp: table_real_def)
  finally show ?thesis using assms(1) by (simp add: net_ok_def)
qed

lemma advertised_real:
  assumes "table_real net n table"
  shows "\<forall>e \<in> set (GetSpecificEntries order table nb). advert_real net n e"
    and "\<forall>e \<in> set (GetAllEntries order table). advert_real net n e"
proof -
  have "Cost e \<le> INFINITY \<and> (Cost e < INFINITY \<longrightarrow> walk net n (unat (Cost e)) d)" if "table d = Some e" for d e
    using assms that unfolding table_real_def rt_ok_def by (blast intro: route_real_walk)
  then show "\<forall>e \<in> set (GetSpecificEntries order table nb). advert_real net n e"
    and "\<forall>e \<in> set (GetAllEntries order table). advert_real net n e"
    by (auto simp: GetSpecificEntries_map GetAllEntries_map advert_real_def)
qed

definition packet_real :: "rip_net \<Rightarrow> u32 \<times> u32 \<times> byte list \<Rightarrow> bool" where
  "packet_real net p \<longleftrightarrow> (case p of (a, b, data) \<Rightarrow> net_link net a = Some b
     \<and> (\<forall>e \<in> set (Entries (read_message data)). advert_real net (net_owner net a) e))"

definition world_real :: "rip_net \<Rightarrow> rip_world \<Rightarrow> bool" where
  "world_real net w \<longleftrightarrow> (\<forall>n. table_real net n (fst w n)) \<and> (\<forall>p \<in> snd w. packet_real net p)"

lemma datagram_whole:
  assumes "length es \<le> 114"
  shows "datagram_payload (drop 4 (entries_message nb cmd es)) = drop 4 (entries_message nb cmd es)"
  using assms
  by (simp add: datagram_payload_def entries_message_def rip_message_def length_concat comp_def entry_bytes_def sum_list_triv)

lemma entries_message_real:
  assumes "\<forall>e \<in> set es. advert_real net (net_owner net a) e" and "net_link net a = Some b" and "length es \<le> 114"
  shows "packet_real net (a, b, datagram_payload (drop 4 (entries_message nb cmd es)))"
  using assms read_entries_message [of es nb cmd] by (simp add: packet_real_def datagram_whole)

lemma sent_real:
  assumes "net_ok net" and "table_real net n table" and "n = net_owner net a" and "net_link net a = Some b"
    and "distinct order" and "set order = dom table"
  shows "ToHost msg \<in> set (snd (RipInitHandler nbs own order table)) \<Longrightarrow> packet_real net (a, b, datagram_payload (drop 4 msg))"
    and "ToHost msg \<in> set (periodic_update r order table) \<Longrightarrow> packet_real net (a, b, datagram_payload (drop 4 msg))"
proof -
  have l: "length (GetAllEntries order table) \<le> 114" "length (GetSpecificEntries order table nb) \<le> 114" for nb
    using short_order [OF assms(1,2,5,6)] order.trans [OF length_filter_le]
    by (auto simp: GetAllEntries_map GetSpecificEntries_map)
  note adv = advertised_real [OF assms(2) [unfolded assms(3)]]
  show "ToHost msg \<in> set (snd (RipInitHandler nbs own order table)) \<Longrightarrow> packet_real net (a, b, datagram_payload (drop 4 msg))"
    using entries_message_real [OF adv(2) assms(4) l(1)] by (auto simp: RipInitHandler_def)
  show "ToHost msg \<in> set (periodic_update r order table) \<Longrightarrow> packet_real net (a, b, datagram_payload (drop 4 msg))"
    using entries_message_real [OF adv(1) assms(4) l(2)] by (auto simp: periodic_update_def)
qed

lemma triggered_real:
  assumes "net_link net a = Some b" and "ToHost msg \<in> set (SendTriggeredUpdates nbs entries table)"
  shows "packet_real net (a, b, datagram_payload (drop 4 msg))"
proof -
  have "drop 4 msg = []" using assms(2)
    by (induction nbs arbitrary: entries) (auto simp: binary_Write_RIPMessage_def Let_def)
  then show ?thesis using assms(1) by (simp add: packet_real_def read_message_def datagram_payload_def)
qed

lemma received_real:
  assumes "net_ok net" and "table_real net (net_owner net b) table" and "packet_real net (a, b, data)"
    and "RipReceivePacket (net_handler net (net_owner net b)) a data table = Inr (table', fx)"
  shows "table_real net (net_owner net b) table'"
proof -
  have es: "net_link net a = Some b" "\<forall>e \<in> set (Entries (read_message data)). advert_real net (net_owner net a) e"
    using assms(3) by (auto simp: packet_real_def)
  have "rt_ok (OwnInterfaces (net_handler net (net_owner net b))) table"
    using assms(2) by (simp add: table_real_def net_handler_def)
  moreover have "\<forall>e \<in> set (Entries (read_message data)). rip_Cost e \<le> INFINITY" using es(2) by (auto simp: advert_real_def)
  ultimately have "table' = fold (dv_entry a) (Entries (read_message data)) table"
    using RipReceivePacket_fold [of "net_handler net (net_owner net b)" table data a] assms(4) by auto
  then show ?thesis using fold_dv_real [OF assms(2,1) es] by simp
qed

lemma timer_real: "table_real net n table \<Longrightarrow> table_real net n (snd (waitForUpdates_fire now tm table))"
  using waitForUpdates_fire_ok [of "net_ifs net n" table now tm]
  by (auto simp: table_real_def waitForUpdates_fire_def UpdateRoute_def INFINITY_def split: option.splits if_splits)

lemma init_real: "table_real net n (net_init net n)"
  using InitRoutingTable_ok [of "net_ifs net n"]
  by (auto simp: table_real_def net_init_def InitRoutingTable_def CreateEntry_def route_real_def net_ifs_def split: if_splits)

lemma world_real_step:
  assumes "rip_run net w w'" and "net_ok net" and "world_real net w"
  shows "world_real net w'"
  using assms(1,3)
proof (cases rule: rip_run.cases)
  case (run_receive a b data M n T table fx)
  then show ?thesis
    using assms(3) received_real [OF assms(2), of b "T n" a data table fx] by (auto simp: world_real_def)
next
  case (run_timer T M n now tm)
  then show ?thesis using assms(3) timer_real by (auto simp: world_real_def)
qed (use assms(2) in \<open>auto simp: world_real_def intro: sent_real triggered_real\<close>)

section \<open>One exchange\<close>

lemma exchange_effect:
  assumes "exchange net a T T'" and "net_ok net" and "\<forall>n. table_real net n (T n)"
  obtains b where "net_link net a = Some b" and "\<forall>n. table_real net n (T' n)"
    and "\<forall>n. n \<noteq> net_owner net b \<longrightarrow> T' n = T n"
    and "\<forall>d. T' (net_owner net b) d = (case T (net_owner net a) d of
          Some e \<Rightarrow> if Cost e \<noteq> INFINITY \<and> NextHop e \<noteq> b then dv_update (Cost e + 1) a (T (net_owner net b) d) else T (net_owner net b) d
        | None \<Rightarrow> T (net_owner net b) d)"
  using assms(1)
proof (cases rule: exchange.cases)
  case (1 n b order msg table fx)
  have real: "table_real net n (T n)" "table_real net (net_owner net b) (T (net_owner net b))" using assms(3) by simp_all
  obtain nb where nb: "msg = entries_message nb 2 (GetSpecificEntries order (T n) nb)"
    using 1(6) by (auto simp: periodic_update_def)
  then have "nb = b" using 1(7) by (simp add: entries_message_def rip_message_def)
  then have msg: "msg = entries_message b 2 (GetSpecificEntries order (T n) b)" using nb by simp
  have short: "length order \<le> 114" by (rule short_order [OF assms(2) real(1) 1(4,5)])
  then have "length (GetSpecificEntries order (T n) b) \<le> 114"
    by (simp add: GetSpecificEntries_map order.trans [OF length_filter_le])
  then have whole: "datagram_payload (drop 4 msg) = drop 4 msg" unfolding msg by (rule datagram_whole)
  have ok: "rt_ok (OwnInterfaces (net_handler net (net_owner net b))) (T (net_owner net b))" "rt_ok (net_ifs net n) (T n)"
    using real by (simp_all add: table_real_def net_handler_def)
  obtain table2 fx2 where t2: "RipReceivePacket (net_handler net (net_owner net b)) a (drop 4 msg) (T (net_owner net b)) = Inr (table2, fx2)"
    "\<forall>d. table2 d = (case T n d of
          Some e \<Rightarrow> if d \<in> set order \<and> Cost e \<noteq> INFINITY \<and> NextHop e \<noteq> b then dv_update (Cost e + 1) a (T (net_owner net b) d)
            else T (net_owner net b) d
        | None \<Rightarrow> T (net_owner net b) d)"
    using exchange_applies [OF ok 1(4), of a b 2] short unfolding msg by auto
  have "table = table2" using t2(1) 1(8) by (simp add: whole)
  moreover have "table_real net (net_owner net b) table"
    using received_real [OF assms(2) real(2) sent_real(2) [OF assms(2) real(1) 1(2,3,4,5,6)] 1(8)] .
  moreover have "d \<in> set order" if "T n d = Some e" for d e using that 1(5) by auto
  ultimately show ?thesis
    using 1(1,2,3) t2(2) assms(3) by (intro that [of b]) (auto split: option.split)
qed

lemma exchange_exists:
  assumes "net_ok net" and "\<forall>n. table_real net n (T n)" and "net_link net a = Some b"
  shows "\<exists>T'. exchange net a T T'"
proof -
  let ?n = "net_owner net a" and ?m = "net_owner net b"
  obtain order where o: "distinct order" "set order = dom (T ?n)"
    using finite_distinct_list [of "dom (T ?n)"] by auto
  have short: "length order \<le> 114" using short_order [OF assms(1) _ o] assms(2) by blast
  then have "length (GetSpecificEntries order (T ?n) b) \<le> 114"
    by (simp add: GetSpecificEntries_map order.trans [OF length_filter_le])
  note whole = datagram_whole [OF this, of b 2]
  let ?msg = "entries_message b 2 (GetSpecificEntries order (T ?n) b)"
  have "b \<in> set (net_nbrs net ?n)" unfolding net_ok_nbrs [OF assms(1)] using assms(3) link_ifs [OF assms(3)] by blast
  then have m: "ToHost ?msg \<in> set (periodic_update (net_handler net ?n) order (T ?n))"
    by (auto simp: periodic_update_def net_handler_def)
  have "get_be32 ?msg = Inr b" by (simp add: entries_message_def rip_message_def)
  moreover have "rt_ok (OwnInterfaces (net_handler net ?m)) (T ?m)" "rt_ok (net_ifs net ?n) (T ?n)"
    using assms(2) by (simp_all add: table_real_def net_handler_def)
  then obtain table fx where "RipReceivePacket (net_handler net ?m) a (drop 4 ?msg) (T ?m) = Inr (table, fx)"
    using exchange_applies [of "net_handler net ?m" "T ?m" "net_ifs net ?n" "T ?n" order a b 2]
      short o(1) by auto
  ultimately show ?thesis using exchange.intros [of ?n net a b order T ?msg table fx, unfolded whole] assms(3) o m by blast
qed

section \<open>Convergence\<close>

definition has_cost :: "RoutingTable \<Rightarrow> u32 \<Rightarrow> nat \<Rightarrow> bool" where
  "has_cost table d k \<longleftrightarrow> (\<exists>e. table d = Some e \<and> unat (Cost e) = k)"

definition exact :: "rip_net \<Rightarrow> nat \<Rightarrow> (nat \<Rightarrow> RoutingTable) \<Rightarrow> bool" where
  \<comment> \<open>every destination at most \<open>k\<close> links away has its distance as cost\<close>
  "exact net k T \<longleftrightarrow> (\<forall>n d j. j \<le> k \<longrightarrow> j < 16 \<longrightarrow> is_dist net n d j \<longrightarrow> has_cost (T n) d j)"

lemma exactD: "exact net k T \<Longrightarrow> is_dist net n d j \<Longrightarrow> j \<le> k \<Longrightarrow> j < 16 \<Longrightarrow> has_cost (T n) d j"
  by (simp add: exact_def)

lemma dist_le_walk: "is_dist net n d k \<Longrightarrow> walk net n j d \<Longrightarrow> k \<le> j"
  by (meson is_dist_def not_le)

lemma real_cost:
  assumes "table_real net n table" and "table d = Some e" and "unat (Cost e) < 16"
  shows "walk net n (unat (Cost e)) d" and "route_real net n d (unat (Cost e)) (NextHop e)"
proof -
  have "Cost e < INFINITY" using assms(3) by (simp add: u32_less_nat)
  then show "route_real net n d (unat (Cost e)) (NextHop e)" using assms(1,2) by (auto simp: table_real_def)
  then show "walk net n (unat (Cost e)) d" by (rule route_real_walk)
qed

text \<open>A neighbour's walk, seen from the other end of the link.\<close>

lemma walk_over_link:
  assumes "net_ok net" and "net_link net a = Some b" and "walk net (net_owner net a) k d"
  shows "walk net (net_owner net b) (Suc k) d"
  using walk_link [OF link_ifs net_ok_sym [OF assms(1,2)] assms(3)] net_ok_sym [OF assms(1,2)] by blast

lemma exchange_keeps_exact:
  assumes "exchange net a T T'" and "net_ok net" and "\<forall>n. table_real net n (T n)" and "exact net k T"
    and "is_dist net m d j" and "j \<le> Suc k" and "j < 16" and "has_cost (T m) d j"
  shows "has_cost (T' m) d j"
proof -
  obtain b where b: "net_link net a = Some b" "\<forall>n. table_real net n (T' n)" "\<forall>n. n \<noteq> net_owner net b \<longrightarrow> T' n = T n"
    "\<forall>d. T' (net_owner net b) d = (case T (net_owner net a) d of
          Some e \<Rightarrow> if Cost e \<noteq> INFINITY \<and> NextHop e \<noteq> b then dv_update (Cost e + 1) a (T (net_owner net b) d) else T (net_owner net b) d
        | None \<Rightarrow> T (net_owner net b) d)"
    by (rule exchange_effect [OF assms(1-3)])
  obtain e where e: "T m d = Some e" "unat (Cost e) = j" using assms(8) by (auto simp: has_cost_def)
  show ?thesis
  proof (cases "m = net_owner net b \<and> (\<exists>x. T (net_owner net a) d = Some x \<and> Cost x \<noteq> INFINITY \<and> NextHop x \<noteq> b)")
    case False
    then have "T' m d = T m d" using b(3,4) by (cases "m = net_owner net b") (auto split: option.splits)
    then show ?thesis using assms(8) by (simp add: has_cost_def)
  next
    case True
    then obtain x where x: "m = net_owner net b" "T (net_owner net a) d = Some x" "Cost x \<noteq> INFINITY" "NextHop x \<noteq> b" by blast
    have t': "T' m d = dv_update (Cost x + 1) a (Some e)" using b(4) x e(1) by simp
    have lt: "Cost x < INFINITY" using assms(3) x(2,3) by (auto simp: table_real_def rt_ok_def order_less_le)
    then have c: "unat (Cost x + 1) = Suc (unat (Cost x))" using u32_Suc_le by simp
    have "walk net (net_owner net a) (unat (Cost x)) d"
      using real_cost(1) [of net "net_owner net a" "T (net_owner net a)" d x] assms(3) x(2) lt by (simp add: u32_less_nat)
    then have ge: "j \<le> Suc (unat (Cost x))"
      using dist_le_walk [OF assms(5)] walk_over_link [OF assms(2) b(1)] x(1) by blast
    have "Suc (unat (Cost x)) = j" if "NextHop e = a"
    proof -
      have r: "route_real net m d j a" using real_cost(2) [of net m "T m" d e] assms(3,7) e that by simp
      then obtain i where i: "j = Suc i" "walk net (net_owner net a) i d"
        using x(1) net_ok_irrefl [OF assms(2) b(1)] by (cases j) (auto simp: route_real_def net_ifs_def)
      then have "is_dist net (net_owner net a) d i"
        using assms(5) x(1) walk_over_link [OF assms(2) b(1)] by (force simp: is_dist_def)
      then have "has_cost (T (net_owner net a)) d i"
        using exactD [OF assms(4)] assms(6,7) i(1) by simp
      then show ?thesis using x(2) i(1) by (auto simp: has_cost_def)
    qed
    then show ?thesis
      using t' ge c e(2) by (auto simp: dv_update_def has_cost_def u32_less_nat)
  qed
qed

lemma exchange_learns:
  assumes "exchange net a T T'" and "net_ok net" and "\<forall>n. table_real net n (T n)" and "exact net k T"
    and "net_link net a = Some b" and "is_dist net (net_owner net a) d k" and "is_dist net (net_owner net b) d (Suc k)" and "Suc k < 16"
  shows "has_cost (T' (net_owner net b)) d (Suc k)"
proof -
  let ?n = "net_owner net a" and ?m = "net_owner net b"
  obtain b' where b': "net_link net a = Some b'" "\<forall>n. table_real net n (T' n)" "\<forall>n. n \<noteq> net_owner net b' \<longrightarrow> T' n = T n"
    "\<forall>d. T' (net_owner net b') d = (case T ?n d of
          Some e \<Rightarrow> if Cost e \<noteq> INFINITY \<and> NextHop e \<noteq> b' then dv_update (Cost e + 1) a (T (net_owner net b') d) else T (net_owner net b') d
        | None \<Rightarrow> T (net_owner net b') d)"
    by (rule exchange_effect [OF assms(1-3)])
  have "b' = b" using b'(1) assms(5) by simp
  note b = b'(4) [unfolded this]
  obtain x where x: "T ?n d = Some x" "unat (Cost x) = k"
    using exactD [OF assms(4,6)] assms(8) by (auto simp: has_cost_def)
  have r: "route_real net ?n d k (NextHop x)" using real_cost(2) [of net ?n "T ?n" d x] assms(3,8) x by simp
  have "NextHop x \<noteq> b"
  proof
    assume "NextHop x = b"
    with r show False
      using dist_le_walk [OF assms(7)] net_ok_irrefl [OF assms(2,5)]
      by (cases k) (fastforce simp: route_real_def net_ifs_def)+
  qed
  moreover have "Cost x \<noteq> INFINITY" using x(2) assms(8) by auto
  ultimately have t': "T' ?m d = dv_update (Cost x + 1) a (T ?m d)" using b x(1) by simp
  have c: "unat (Cost x + 1) = Suc k" using x(2) assms(8) by (simp add: unat_add_u32)
  have "Suc k \<le> unat (Cost e)" if "T ?m d = Some e" for e
  proof (cases "unat (Cost e) < 16")
    case True
    then show ?thesis using dist_le_walk [OF assms(7)] real_cost(1) [of net ?m "T ?m" d e] assms(3) that by blast
  qed (use assms(8) in simp)
  then show ?thesis
    using t' c by (cases "T ?m d") (force simp: dv_update_def has_cost_def u32_less_nat)+
qed

lemma dist_Suc:
  assumes "net_ok net" and "is_dist net m d (Suc k)"
  obtains a b where "net_link net a = Some b" and "net_owner net b = m" and "is_dist net (net_owner net a) d k"
proof -
  obtain b a where b: "b \<in> net_ifs net m" "net_link net b = Some a" "walk net (net_owner net a) k d"
    using assms(2) by (auto simp: is_dist_def elim: walk_SucE)
  have "\<not> walk net (net_owner net a) j d" if "j < k" for j
    using that assms(2) walk_link [OF b(1,2)] by (auto simp: is_dist_def)
  then show ?thesis
    using that [of a b] net_ok_sym [OF assms(1) b(2)] b by (simp add: is_dist_def net_ifs_def)
qed

lemma exchange_real: "exchange net a T T' \<Longrightarrow> net_ok net \<Longrightarrow> \<forall>n. table_real net n (T n) \<Longrightarrow> \<forall>n. table_real net n (T' n)"
  by (erule exchange_effect)

lemma exchanges_exact:
  assumes "exchanges net as T T'" and "net_ok net" and "\<forall>n. table_real net n (T n)" and "exact net k T"
  shows "(\<forall>n. table_real net n (T' n)) \<and> exact net k T'
    \<and> (\<forall>m d. is_dist net m d (Suc k) \<longrightarrow> Suc k < 16 \<longrightarrow>
        has_cost (T m) d (Suc k) \<or> (\<exists>a \<in> set as. \<exists>b. net_link net a = Some b \<and> net_owner net b = m \<and> is_dist net (net_owner net a) d k)
        \<longrightarrow> has_cost (T' m) d (Suc k))"
  using assms(1,3,4)
proof (induction rule: exchanges.induct)
  case (2 a T T1 as T2)
  have real: "\<forall>n. table_real net n (T1 n)" by (rule exchange_real [OF 2(1) assms(2) 2(4)])
  note keep = exchange_keeps_exact [OF 2(1) assms(2) 2(4,5)]
  have "exact net k T1" unfolding exact_def
  proof (intro allI impI)
    fix n d j assume j: "j \<le> k" "j < 16" "is_dist net n d j"
    then show "has_cost (T1 n) d j" using keep [OF j(3) _ j(2)] exactD [OF 2(5) j(3,1,2)] by simp
  qed
  note ih = 2(3) [OF real this]
  have "has_cost (T1 m) d (Suc k)"
    if "is_dist net m d (Suc k)" "Suc k < 16"
      "has_cost (T m) d (Suc k) \<or> (\<exists>b. net_link net a = Some b \<and> net_owner net b = m \<and> is_dist net (net_owner net a) d k)" for m d
    using that keep [OF that(1) le_refl that(2)] exchange_learns [OF 2(1) assms(2) 2(4,5)] by blast
  with ih show ?case by auto
qed simp

lemma init_exact: "exact net 0 (net_init net)"
  by (auto simp: exact_def has_cost_def is_dist_def net_init_def InitRoutingTable_def CreateEntry_def elim: walk_0E)

lemma rounds_exact:
  assumes "rounds net k T T'" and "T = net_init net" and "net_ok net"
  shows "(\<forall>n. table_real net n (T' n)) \<and> exact net k T'"
  using assms(1,2)
proof (induction rule: rounds.induct)
  case (1 T)
  then show ?case using init_exact [of net] by (auto simp: init_real)
next
  case (2 k T T1 as T2)
  have e: "(\<forall>n. table_real net n (T2 n)) \<and> exact net k T2" and
    step: "\<And>m d a b. is_dist net m d (Suc k) \<Longrightarrow> Suc k < 16 \<Longrightarrow> a \<in> set as \<Longrightarrow> net_link net a = Some b \<Longrightarrow> net_owner net b = m
        \<Longrightarrow> is_dist net (net_owner net a) d k \<Longrightarrow> has_cost (T2 m) d (Suc k)"
    using exchanges_exact [OF 2(2) assms(3)] 2(4) [OF 2(5)] by blast+
  have "has_cost (T2 m) d (Suc k)" if m: "is_dist net m d (Suc k)" "Suc k < 16" for m d
  proof -
    obtain a b where ab: "net_link net a = Some b" "net_owner net b = m" "is_dist net (net_owner net a) d k"
      by (rule dist_Suc [OF assms(3) m(1)])
    moreover have "a \<in> set as" using ab(1) 2(3) by (auto simp: linked_def)
    ultimately show ?thesis using step m by blast
  qed
  then show ?case using e by (auto simp: exact_def le_Suc_eq)
qed

lemma exchanges_exist:
  assumes "net_ok net" and "\<forall>n. table_real net n (T n)" and "set as \<subseteq> linked net"
  shows "\<exists>T'. exchanges net as T T'"
  using assms(2,3)
proof (induction as arbitrary: T)
  case Nil
  then show ?case by (blast intro: exchanges.intros)
next
  case (Cons a as)
  then obtain b where "net_link net a = Some b" by (auto simp: linked_def)
  then obtain T1 where T1: "exchange net a T T1" using exchange_exists [OF assms(1) Cons.prems(1)] by blast
  moreover obtain T2 where "exchanges net as T1 T2"
    using Cons.IH [OF exchange_real [OF T1 assms(1) Cons.prems(1)]] Cons.prems(2) by auto
  ultimately show ?case by (blast intro: exchanges.intros)
qed

lemma rounds_exist:
  assumes "net_ok net"
  shows "\<exists>T. rounds net k (net_init net) T"
proof (induction k)
  case 0
  then show ?case by (blast intro: rounds.intros)
next
  case (Suc k)
  then obtain T where T: "rounds net k (net_init net) T" by blast
  obtain as where as: "set as = linked net" using finite_list [of "linked net"] by auto
  have "\<forall>n. table_real net n (T n)" using rounds_exact [OF T refl assms] by blast
  then obtain T' where "exchanges net as T T'" using exchanges_exist [OF assms] as by blast
  then show ?case using rounds.intros(2) [OF T] as by blast
qed

section \<open>Properties\<close>

text \<open>
  C11. In a network of at most 114 addresses whose links stay up, however packets are lost, delayed, repeated and reordered and
  whenever timers fire, a routing table never invents a route: an entry of finite cost \<open>c\<close> belongs to a
  walk of exactly \<open>c\<close> links to the destination that starts over the link to the entry's next hop.
\<close>

theorem rip_routes_are_real:
  assumes "(rip_run net)\<^sup>*\<^sup>* (net_init net, {}) (T, M)" and "net_ok net" and "T n d = Some e" and "Cost e < 16"
  shows "walk net n (unat (Cost e)) d
    \<and> (Cost e = 0 \<and> d \<in> net_ifs net n \<or>
       (\<exists>a \<in> net_ifs net n. net_link net a = Some (NextHop e) \<and> walk net (net_owner net (NextHop e)) (unat (Cost e) - 1) d))"
proof -
  have "world_real net (net_init net, {})" by (simp add: world_real_def init_real)
  with assms(1) have "world_real net (T, M)"
    by (induction rule: rtranclp_induct) (auto intro: world_real_step [OF _ assms(2)])
  then have t: "table_real net n (T n)" by (simp add: world_real_def)
  have lt: "unat (Cost e) < 16" using assms(4) by (simp add: u32_less_nat)
  show ?thesis
  proof (cases "unat (Cost e)")
    case 0
    then show ?thesis
      using real_cost [OF t assms(3) lt] by (simp add: route_real_def unat_eq_0)
  next
    case (Suc k)
    then show ?thesis using real_cost [OF t assms(3) lt] by (auto simp: route_real_def)
  qed
qed

lemma exchange_is_run:
  assumes "exchange net a T T'"
  shows "\<exists>M. (rip_run net)\<^sup>*\<^sup>* (T, {}) (T', M)"
  using assms
proof (cases rule: exchange.cases)
  case (1 n b order msg table fx)
  have "rip_run net (T, {}) (T, {(a, b, datagram_payload (drop 4 msg))})" by (rule run_periodic [of n net a b order T msg]) (use 1 in auto)
  moreover have "rip_run net (T, {(a, b, datagram_payload (drop 4 msg))}) (T', {(a, b, datagram_payload (drop 4 msg))})"
    unfolding 1(1) by (rule run_receive [where a = a and b = b and data = "datagram_payload (drop 4 msg)" and fx = fx]) (use 1(8) in auto)
  ultimately show ?thesis by (meson converse_rtranclp_into_rtranclp rtranclp.rtrancl_refl)
qed

definition sample_net :: rip_net where
  \<comment> \<open>host 0 with address 1 and host 1 with address 2, joined by one link\<close>
  "sample_net = \<lparr>net_link = [1 \<mapsto> 2, 2 \<mapsto> 1], net_owner = (\<lambda>a. if a = 1 then 0 else 1), net_nbrs = (\<lambda>n. if n = 0 then [2] else if n = 1 then [1] else [])\<rparr>"

lemma sample_net_sel [simp]:
  "net_link sample_net 1 = Some 2" "net_link sample_net 2 = Some 1" "net_owner sample_net 1 = 0" "net_owner sample_net 2 = 1"
  by (simp_all add: sample_net_def)

lemma sample_net_ifs: "net_ifs sample_net n = (if n = 0 then {1} else if n = 1 then {2} else {})"
  by (auto simp: net_ifs_def linked_def sample_net_def split: if_splits)

lemma sample_net_ok: "net_ok sample_net"
  unfolding net_ok_def sample_net_ifs by (auto simp: linked_def sample_net_def split: if_splits)

theorem rip_routes_are_real_witness:
  "\<exists>T M. (rip_run sample_net)\<^sup>*\<^sup>* (net_init sample_net, {}) (T, M) \<and> T 0 2 = Some \<lparr>NextHop = 2, Cost = 1, Watched = True\<rparr>
    \<and> walk sample_net 0 1 2"
proof -
  have link: "net_link sample_net 2 = Some 1" by (simp add: sample_net_def)
  have init: "\<forall>n. table_real sample_net n (net_init sample_net n)" by (simp add: init_real)
  obtain T where T: "exchange sample_net 2 (net_init sample_net) T"
    using exchange_exists [OF sample_net_ok init link] by blast
  have "T 0 2 = Some \<lparr>NextHop = 2, Cost = 1, Watched = True\<rparr>"
    by (rule exchange_effect [OF T sample_net_ok init])
      (auto simp: net_init_def sample_net_ifs InitRoutingTable_def CreateEntry_def dv_update_def INFINITY_def)
  moreover obtain M where "(rip_run sample_net)\<^sup>*\<^sup>* (net_init sample_net, {}) (T, M)" using exchange_is_run [OF T] by blast
  ultimately show ?thesis using rip_routes_are_real [OF _ sample_net_ok, of T M 0 2] by auto
qed

text \<open>
  C5. Routing converges in a network of at most 114 addresses: rounds in which every interface sends its periodic update at least once, in any
  order, can always be carried out, and after \<open>k\<close> of them every host has, for every destination at
  most \<open>k\<close> (and fewer than 16) links away, a route whose cost is the exact distance.
\<close>

theorem rip_converges:
  assumes "net_ok net"
  shows "(\<exists>T. rounds net k (net_init net) T)
    \<and> (\<forall>T n d j. rounds net k (net_init net) T \<longrightarrow> is_dist net n d j \<longrightarrow> j \<le> k \<longrightarrow> j < 16 \<longrightarrow>
        (\<exists>e. T n d = Some e \<and> unat (Cost e) = j))"
  using rounds_exist [OF assms] rounds_exact [OF _ refl assms] exactD has_cost_def by metis


theorem rip_converges_witness:
  "\<exists>T. rounds sample_net 1 (net_init sample_net) T \<and> (\<exists>e. T 0 2 = Some e \<and> unat (Cost e) = 1)"
proof -
  have "walk sample_net 0 (Suc 0) 2"
    by (rule walk_link [of 1 _ _ 2]) (simp_all add: sample_net_ifs walk_own)
  moreover have "\<not> walk sample_net 0 0 2" by (auto simp: sample_net_ifs elim: walk_0E)
  ultimately have "is_dist sample_net 0 2 1" by (simp add: is_dist_def)
  then show ?thesis using rip_converges [OF sample_net_ok, of 1] by fastforce
qed

end
