(* ===== verification/IpHost.thy ===== *)
theory IpHost
  imports Rip Segment
begin

text \<open>
  The IP layer: packets of \<open>src/pkg/ip/ip_packet.go\<close>, the link interfaces of
  \<open>src/pkg/ip/link_interface.go\<close> and the host of \<open>src/pkg/ip/host.go\<close>. The package \<open>golang.org/x/net/ipv4\<close> is
  not part of the repository: it is the parameter \<open>ip4\<close>, and \<open>header.Checksum\<close> comes from the parameter
  \<open>ns\<close> of the TCP theories. The goroutines of the host are loops that take one message from a channel; each
  is the definition that handles one message. What they send is a list of \<open>ip_effect\<close>.
\<close>

section \<open>Packets\<close>

record IPv4Header =
  hd_Version :: int
  hd_Len :: int
  hd_TOS :: int
  hd_TotalLen :: int
  hd_ID :: int
  hd_Flags :: int
  hd_FragOff :: int
  hd_TTL :: int
  hd_Protocol :: int
  hd_Checksum :: int
  hd_Src :: u32
  hd_Dst :: u32
  hd_Options :: "byte list"

record IPPacket =
  Header :: IPv4Header
  Data :: "byte list"

record ip4 =
  Header_Marshal :: "IPv4Header \<Rightarrow> string + byte list"  \<comment> \<open>\<open>Inl\<close> for an error\<close>
  ParseHeader :: "byte list \<Rightarrow> IPv4Header option"
  ipv4_HeaderLen :: int
  ICMPv4TimeExceeded :: u8

definition ADDR_SIZE :: nat where "ADDR_SIZE = 4"
definition MTU :: nat where "MTU = 1400"
definition IPV6 :: int where "IPV6 = 6"
definition ICMP :: int where "ICMP = 1"
definition RIP_PROTOCOL :: int where "RIP_PROTOCOL = 200"
definition TTL_MAX :: int where "TTL_MAX = 16"

definition computeChecksum :: "netstack \<Rightarrow> ip4 \<Rightarrow> IPPacket \<Rightarrow> string + u16" where
  "computeChecksum ns ip4 packet =
     (case Header_Marshal ip4 ((Header packet)\<lparr>hd_Checksum := 0\<rparr>) of
        Inl err \<Rightarrow> Inl err
      | Inr headerBytes \<Rightarrow> Inr (header_Checksum ns headerBytes 0 XOR 0xffff))"

definition with_checksum :: "u16 \<Rightarrow> IPPacket \<Rightarrow> IPPacket" where
  \<comment> \<open>\<open>packet.Header.Checksum = int(checkSum)\<close>\<close>
  "with_checksum c packet = packet\<lparr>Header := (Header packet)\<lparr>hd_Checksum := int (unat c)\<rparr>\<rparr>"

definition CreateIPPacket :: "ip4 \<Rightarrow> u32 \<Rightarrow> u32 \<Rightarrow> byte list \<Rightarrow> int \<Rightarrow> int \<Rightarrow> IPPacket" where
  "CreateIPPacket ip4 src dest data protocol ttl =
     \<lparr>Header = \<lparr>hd_Version = 4, hd_Len = 20, hd_TOS = 0, hd_TotalLen = ipv4_HeaderLen ip4 + int (length data), hd_ID = 0,
        hd_Flags = 0, hd_FragOff = 0, hd_TTL = ttl, hd_Protocol = protocol, hd_Checksum = 0, hd_Src = src, hd_Dst = dest,
        hd_Options = []\<rparr>, Data = data\<rparr>"

section \<open>Link interfaces\<close>

type_synonym udp_addr = "byte list \<times> int"    \<comment> \<open>\<open>net.UDPAddr\<close>: address and port\<close>

record LinkInterface =
  InterfaceNumber :: int
  HostIPAddress :: u32
  DestIPAddress :: u32
  UDPDestPort :: int
  UDPDestAddr :: string
  UDPAddr :: "udp_addr option"          \<comment> \<open>set by \<open>InitializeDestConnection\<close>\<close>
  Stopped :: bool

datatype NextHopMsg = NextHopMsg (Found: bool) (MsgHop: u32)

datatype handler = RipProtocol | TestProtocol | TracerouteProtocol | TCPProtocol

datatype ip_effect =
    UDPWrite udp_addr "byte list"       \<comment> \<open>\<open>WriteToUDP\<close> to this address and port\<close>
  | ToPacketChannel IPPacket            \<comment> \<open>\<open>h.PacketChannel <- packet\<close>\<close>
  | Deliver handler IPPacket            \<comment> \<open>\<open>go handler.ReceivePacket(packet, h.RoutingTable)\<close>\<close>
  | GoTimeExceeded IPPacket             \<comment> \<open>\<open>go h.sendICMPTimeExceeded(packet)\<close>\<close>
  | GoForward u32 IPPacket              \<comment> \<open>\<open>go h.SendToLinkLayer(destAddr, packet)\<close>\<close>
  | GoSendToNeighbor u32 IPPacket       \<comment> \<open>\<open>go h.SendToNeighbor(destAddr, packet)\<close>\<close>
  | TCPError string                     \<comment> \<open>\<open>h.TCPErrorChannel <- err\<close>\<close>
  | ToRouteChan NextHopMsg              \<comment> \<open>\<open>tr.RouteChan <- msg\<close>\<close>
  | ToEchoChan "byte list"              \<comment> \<open>\<open>tr.EchoChan <- buf\<close>\<close>

definition link_Send :: "ip4 \<Rightarrow> LinkInterface \<Rightarrow> IPPacket \<Rightarrow> ip_effect list" where
  \<comment> \<open>\<open>Send\<close>; when \<open>Marshal\<close> fails only the data is sent, and without a \<open>UDPAddr\<close> nothing is\<close>
  "link_Send ip4 c ip_packet =
     (if Stopped c then []
      else let bytes = (case Header_Marshal ip4 (Header ip_packet) of Inl _ \<Rightarrow> [] | Inr b \<Rightarrow> b)
           in (case UDPAddr c of None \<Rightarrow> [] | Some udpAddr \<Rightarrow> [UDPWrite udpAddr (bytes @ Data ip_packet)]))"

definition InitializeDestConnection :: "(string \<Rightarrow> string + udp_addr) \<Rightarrow> string \<Rightarrow> string \<Rightarrow> LinkInterface \<Rightarrow> string option \<times> LinkInterface" where
  \<comment> \<open>\<open>resolve\<close> is \<open>net.ResolveUDPAddr\<close>, which asks the resolver of the system\<close>
  "InitializeDestConnection resolve addr port c =
     (case resolve (addr @ '':'' @ port) of
        Inl err \<Rightarrow> (Some err, c)
      | Inr udpAddr \<Rightarrow> (None, c\<lparr>UDPAddr := Some udpAddr\<rparr>))"

definition Enable :: "LinkInterface \<Rightarrow> LinkInterface" where "Enable c = c\<lparr>Stopped := False\<rparr>"
definition Disable :: "LinkInterface \<Rightarrow> LinkInterface" where "Disable c = c\<lparr>Stopped := True\<rparr>"

section \<open>The host\<close>

record Host =
  LocalIFs :: "u32 \<rightharpoonup> LinkInterface"
  RemoteDestination :: "u32 \<rightharpoonup> u32"
  HostRoutingTable :: RoutingTable
  HandlerRegistry :: "int \<rightharpoonup> handler"

definition InitHost :: Host where
  "InitHost = \<lparr>LocalIFs = Map.empty, RemoteDestination = Map.empty, HostRoutingTable = Map.empty, HandlerRegistry = Map.empty\<rparr>"

definition RegisterHandler :: "int \<Rightarrow> handler \<Rightarrow> Host \<Rightarrow> Host" where
  "RegisterHandler protocolNum h host = host\<lparr>HandlerRegistry := (HandlerRegistry host)(protocolNum \<mapsto> h)\<rparr>"

definition send_on :: "ip4 \<Rightarrow> Host \<Rightarrow> u32 \<Rightarrow> IPPacket \<Rightarrow> ip_effect list" where
  \<comment> \<open>the lookups from a next hop to the interface, and the send, as every sender of the host writes them\<close>
  "send_on ip4 h nextHop packet =
     (case RemoteDestination h nextHop of
        None \<Rightarrow> []
      | Some addrOfInterface \<Rightarrow>
          (case LocalIFs h addrOfInterface of None \<Rightarrow> [] | Some localInterface \<Rightarrow> link_Send ip4 localInterface packet))"

definition SendPacket :: "netstack \<Rightarrow> ip4 \<Rightarrow> Host \<Rightarrow> u32 \<Rightarrow> int \<Rightarrow> byte list \<Rightarrow> string option \<times> ip_effect list" where
  "SendPacket ns ip4 h destAddr protocol data =
     (case CheckRoute (HostRoutingTable h) destAddr of
        None \<Rightarrow> (Some ''Entry doesn't exist'', [])
      | Some entry \<Rightarrow>
        if Cost entry = INFINITY then (Some ''Unable to reach destination'', [])
        else
          let nextHop = NextHop entry
          in if LocalIFs h nextHop \<noteq> None
             then let packet = CreateIPPacket ip4 nextHop destAddr data 0 TTL_MAX
                  in (case computeChecksum ns ip4 packet of
                        Inl err \<Rightarrow> (Some err, [])
                      | Inr checkSum \<Rightarrow> (None, [ToPacketChannel (with_checksum checkSum packet)]))
             else
               (case RemoteDestination h nextHop of
                  None \<Rightarrow> (Some ''next hop doesn't exist to forward'', [])
                | Some addrOfInterface \<Rightarrow>
                    (case LocalIFs h addrOfInterface of
                       None \<Rightarrow> (Some ''interface doesn't exist here to forward'', [])
                     | Some localInterface \<Rightarrow>
                         let packet = CreateIPPacket ip4 addrOfInterface destAddr data 0 TTL_MAX
                         in (case computeChecksum ns ip4 packet of
                               Inl err \<Rightarrow> (Some err, [])
                             | Inr checkSum \<Rightarrow> (None, link_Send ip4 localInterface (with_checksum checkSum packet))))))"

definition SendToNeighbor :: "netstack \<Rightarrow> ip4 \<Rightarrow> Host \<Rightarrow> u32 \<Rightarrow> IPPacket \<Rightarrow> ip_effect list" where
  "SendToNeighbor ns ip4 h dest packet =
     (case computeChecksum ns ip4 packet of
        Inl _ \<Rightarrow> []
      | Inr newCheckSum \<Rightarrow> send_on ip4 h dest (with_checksum newCheckSum packet))"

definition SendToLinkLayer :: "netstack \<Rightarrow> ip4 \<Rightarrow> Host \<Rightarrow> u32 \<Rightarrow> IPPacket \<Rightarrow> ip_effect list" where
  "SendToLinkLayer ns ip4 h destAddr packet =
     (case computeChecksum ns ip4 packet of
        Inl _ \<Rightarrow> []
      | Inr newCheckSum \<Rightarrow>
          (case CheckRoute (HostRoutingTable h) destAddr of
             None \<Rightarrow> []
           | Some entry \<Rightarrow>
               if Cost entry = INFINITY then []
               else send_on ip4 h (NextHop entry) (with_checksum newCheckSum packet)))"

definition handler_rip_message :: "ip4 \<Rightarrow> Host \<Rightarrow> byte list \<Rightarrow> ip_effect list go" where
  \<comment> \<open>\<open>ReadFromHandler\<close>, a message from the RIP handler; a missing map entry reads as zero\<close>
  "handler_rip_message ip4 h data =
     (if length data = 0 then Inr []
      else
        gbind (slice data 0 ADDR_SIZE) (\<lambda>d.
        gbind (get_be32 d) (\<lambda>destAddr.
        gbind (slice data ADDR_SIZE (length data)) (\<lambda>payload.
          let srcAddr = (case RemoteDestination h destAddr of None \<Rightarrow> 0 | Some a \<Rightarrow> a)
          in Inr [GoSendToNeighbor destAddr (CreateIPPacket ip4 srcAddr destAddr payload RIP_PROTOCOL TTL_MAX)]))))"

definition handler_tcp_message :: "netstack \<Rightarrow> ip4 \<Rightarrow> Host \<Rightarrow> byte list \<Rightarrow> (ip_effect list \<times> bool) go" where
  \<comment> \<open>\<open>ReadFromHandler\<close>, a message from the TCP handler; \<open>False\<close> means that the goroutine has returned\<close>
  "handler_tcp_message ns ip4 h data =
     (if length data = 0 then Inr ([], True)
      else
        gbind (slice data 0 ADDR_SIZE) (\<lambda>s.
        gbind (get_be32 s) (\<lambda>srcAddr.
        gbind (slice data ADDR_SIZE (2 * ADDR_SIZE)) (\<lambda>d.
        gbind (get_be32 d) (\<lambda>destAddr.
        gbind (slice data (2 * ADDR_SIZE) (length data)) (\<lambda>payload.
          case HostRoutingTable h destAddr of
            None \<Rightarrow> Inr ([TCPError ''No route to host''], False)
          | Some entry \<Rightarrow>
              (case RemoteDestination h (NextHop entry) of
                 None \<Rightarrow> Inr ([], True)
               | Some addrOfInterface \<Rightarrow>
                   let packet = CreateIPPacket ip4 srcAddr destAddr payload 6 16
                   in (case computeChecksum ns ip4 packet of
                         Inl err \<Rightarrow> Inr ([TCPError err], False)
                       | Inr checkSum \<Rightarrow>
                           (case LocalIFs h addrOfInterface of
                              None \<Rightarrow> Inr ([], True)
                            | Some localInterface \<Rightarrow>
                                Inr (link_Send ip4 localInterface (with_checksum checkSum packet), True))))))))))"

definition ReadEchoPacket_message :: "netstack \<Rightarrow> ip4 \<Rightarrow> Host \<Rightarrow> byte list \<Rightarrow> ip_effect list go" where
  \<comment> \<open>\<open>ReadEchoPacket\<close>: an echo reply from the traceroute handler; without a route, a nil pointer is read\<close>
  "ReadEchoPacket_message ns ip4 h echoMsg =
     gbind (slice echoMsg 0 ADDR_SIZE) (\<lambda>d.
     gbind (get_be32 d) (\<lambda>destAddr.
     gbind (slice echoMsg ADDR_SIZE (ADDR_SIZE + ADDR_SIZE)) (\<lambda>s.
     gbind (get_be32 s) (\<lambda>srcAddr.
     gbind (slice echoMsg (ADDR_SIZE + ADDR_SIZE) (length echoMsg)) (\<lambda>dataToSend.
       case CheckRoute (HostRoutingTable h) destAddr of
         None \<Rightarrow> Inl Panic
       | Some entry \<Rightarrow>
           let packet = CreateIPPacket ip4 srcAddr destAddr dataToSend 1 TTL_MAX
           in (case computeChecksum ns ip4 packet of
                 Inl _ \<Rightarrow> Inr []
               | Inr checkSum \<Rightarrow> Inr (send_on ip4 h (NextHop entry) (with_checksum checkSum packet))))))))"

section \<open>Receiving\<close>

definition ListenOnPort_datagram :: "ip4 \<Rightarrow> Host \<Rightarrow> int \<Rightarrow> byte list \<Rightarrow> ip_effect list go" where
  \<comment> \<open>one datagram from UDP port \<open>port\<close>; what does not fit the buffer is lost, and the rest of the buffer is zero\<close>
  "ListenOnPort_datagram ip4 h port datagram =
     (if \<not> (\<exists>localIF \<in> ran (LocalIFs h). UDPDestPort localIF = port) then Inr []
      else
        let bytes = take MTU datagram;
            buffer = bytes @ replicate (MTU - length bytes) 0
        in case ParseHeader ip4 buffer of
             None \<Rightarrow> Inl Panic
           | Some hdr \<Rightarrow>
               if 0 \<le> hd_Len hdr
               then gbind (slice buffer (nat (hd_Len hdr)) (length bytes)) (\<lambda>data.
                    Inr [ToPacketChannel \<lparr>Header = hdr, Data = data\<rparr>])
               else Inl Panic)"

definition ReadFromLinkLayer_packet :: "netstack \<Rightarrow> ip4 \<Rightarrow> Host \<Rightarrow> IPPacket \<Rightarrow> ip_effect list" where
  \<comment> \<open>\<open>ReadFromLinkLayer\<close>, one packet\<close>
  "ReadFromLinkLayer_packet ns ip4 h packet0 =
     (if hd_Version (Header packet0) = IPV6 then []
      else case computeChecksum ns ip4 packet0 of
        Inl _ \<Rightarrow> []
      | Inr newCheckSum \<Rightarrow>
        if int (unat newCheckSum) \<noteq> hd_Checksum (Header packet0) then []
        else
          let packet = packet0\<lparr>Header := (Header packet0)\<lparr>hd_TTL := hd_TTL (Header packet0) - 1\<rparr>\<rparr>;
              destAddr = hd_Dst (Header packet)
          in case LocalIFs h destAddr of
               Some localInterface \<Rightarrow>
                 if Stopped localInterface then []
                 else (case HandlerRegistry h (hd_Protocol (Header packet)) of
                         Some handler \<Rightarrow> [Deliver handler packet]
                       | None \<Rightarrow> [])
             | None \<Rightarrow>
                 if hd_TTL (Header packet) = 0 then [GoTimeExceeded packet]
                 else [GoForward destAddr packet])"

record ICMPHeader =
  ic_Type :: u8
  ic_Code :: u8
  ic_Checksum :: u16
  ic_Identifier :: u16
  ic_SequenceNum :: u16

definition icmp_bytes :: "ICMPHeader \<Rightarrow> byte list" where
  "icmp_bytes ic = [ic_Type ic, ic_Code ic] @ be16 (ic_Checksum ic) @ be16 (ic_Identifier ic) @ be16 (ic_SequenceNum ic)"

definition binary_Write_IPHeader :: "IPv4Header \<Rightarrow> byte list" where
  \<comment> \<open>\<open>binary.Write\<close> of an \<open>ipv4.Header\<close>: its \<open>int\<close> fields have no fixed size, so nothing is written\<close>
  "binary_Write_IPHeader hdr = []"

definition first_bytes :: "nat \<Rightarrow> byte list \<Rightarrow> byte list" where
  \<comment> \<open>\<open>packet.Data[0:n]\<close> of a packet from \<open>ListenOnPort\<close>: the slice may reach into the zero bytes of the buffer behind it\<close>
  "first_bytes n data = take n (data @ replicate n 0)"

definition sendICMPTimeExceeded :: "netstack \<Rightarrow> ip4 \<Rightarrow> Host \<Rightarrow> IPPacket \<Rightarrow> ip_effect list" where
  "sendICMPTimeExceeded ns ip4 h packet0 =
     (let originalSrc = hd_Src (Header packet0);
          header = \<lparr>ic_Type = ICMPv4TimeExceeded ip4, ic_Code = 0, ic_Checksum = 0, ic_Identifier = 0, ic_SequenceNum = 0\<rparr>;
          buf = icmp_bytes header @ binary_Write_IPHeader (Header packet0) @ first_bytes 8 (Data packet0)
      in case CheckRoute (HostRoutingTable h) originalSrc of
           None \<Rightarrow> []
         | Some entry \<Rightarrow>
             if Cost entry = INFINITY then []
             else (case RemoteDestination h (NextHop entry) of
                     None \<Rightarrow> []
                   | Some addrOfInterface \<Rightarrow>
                       let packet = CreateIPPacket ip4 addrOfInterface originalSrc buf 1 16
                       in (case computeChecksum ns ip4 packet of
                             Inl _ \<Rightarrow> []
                           | Inr checkSum \<Rightarrow>
                               (case LocalIFs h addrOfInterface of
                                  None \<Rightarrow> []
                                | Some localInterface \<Rightarrow> link_Send ip4 localInterface (with_checksum checkSum packet)))))"

fun run_effect :: "netstack \<Rightarrow> ip4 \<Rightarrow> Host \<Rightarrow> ip_effect \<Rightarrow> ip_effect list" where
  \<comment> \<open>the goroutines the host starts for a packet; every other effect leaves the host as it is\<close>
  "run_effect ns ip4 h (GoTimeExceeded packet) = sendICMPTimeExceeded ns ip4 h packet"
| "run_effect ns ip4 h (GoForward destAddr packet) = SendToLinkLayer ns ip4 h destAddr packet"
| "run_effect ns ip4 h (GoSendToNeighbor destAddr packet) = SendToNeighbor ns ip4 h destAddr packet"
| "run_effect ns ip4 h e = [e]"

section \<open>Interfaces up and down\<close>

definition find_interface :: "u32 list \<Rightarrow> Host \<Rightarrow> int \<Rightarrow> (u32 \<times> LinkInterface) option" where
  \<comment> \<open>the search of \<open>DownInterface\<close> and \<open>UpInterface\<close>, in the order in which Go visits the map\<close>
  "find_interface order h num =
     List.find (\<lambda>(a, i). InterfaceNumber i = num)
       (concat (map (\<lambda>a. case LocalIFs h a of None \<Rightarrow> [] | Some i \<Rightarrow> [(a, i)]) order))"

definition DownInterface :: "u32 list \<Rightarrow> Host \<Rightarrow> int \<Rightarrow> string option \<times> Host" where
  \<comment> \<open>the error messages with the number left out\<close>
  "DownInterface order h interfaceNum =
     (case find_interface order h interfaceNum of
        None \<Rightarrow> (Some ''could not find interface associated with this number'', h)
      | Some (a, interf) \<Rightarrow>
          if Stopped interf then (Some ''interface is already down'', h)
          else (None, h\<lparr>LocalIFs := (LocalIFs h)(a \<mapsto> Disable interf),
                        HostRoutingTable := RemoveNextHops [HostIPAddress interf, DestIPAddress interf] (HostRoutingTable h)\<rparr>))"

definition UpInterface :: "u32 list \<Rightarrow> Host \<Rightarrow> int \<Rightarrow> string option \<times> Host" where
  "UpInterface order h interfaceNum =
     (case find_interface order h interfaceNum of
        None \<Rightarrow> (Some ''could not find interface associated with this number'', h)
      | Some (a, interf) \<Rightarrow>
          if \<not> Stopped interf then (Some ''interface is already up'', h)
          else (None, h\<lparr>LocalIFs := (LocalIFs h)(a \<mapsto> Enable interf),
                        HostRoutingTable := (HostRoutingTable h)(HostIPAddress interf \<mapsto> CreateEntry (HostIPAddress interf) 0)\<rparr>))"

lemma find_interface_Some:
  "find_interface order h num = Some (a, i) \<Longrightarrow> LocalIFs h a = Some i \<and> InterfaceNumber i = num"
  by (induction order) (auto simp: find_interface_def split: option.splits if_splits)

section \<open>Traceroute\<close>

record TracerouteHandler =
  HandleRoute :: bool                   \<comment> \<open>a function is registered\<close>

definition SendToRouteChan :: "IPPacket \<Rightarrow> ip_effect list" where
  \<comment> \<open>the function that \<open>AddChanRoutine\<close> registers\<close>
  "SendToRouteChan packet = [ToRouteChan (NextHopMsg False (hd_Src (Header packet)))]"

definition AddChanRoutine :: "TracerouteHandler \<Rightarrow> TracerouteHandler" where
  "AddChanRoutine tr = tr\<lparr>HandleRoute := True\<rparr>"

definition RemoveChanRoutine :: "TracerouteHandler \<Rightarrow> TracerouteHandler" where
  "RemoveChanRoutine tr = tr\<lparr>HandleRoute := False\<rparr>"

definition binary_Read_bytes :: "byte list \<Rightarrow> nat \<Rightarrow> byte list" where
  \<comment> \<open>\<open>binary.Read\<close> into a zeroed slice of \<open>n\<close> bytes: when there are fewer, the slice stays as it is\<close>
  "binary_Read_bytes bs n = (if length bs \<ge> n then take n bs else replicate n 0)"

definition TracerouteReceivePacket :: "TracerouteHandler \<Rightarrow> IPPacket \<Rightarrow> ip_effect list go" where
  "TracerouteReceivePacket tr packet =
     (let typeMsg = hd (first_bytes 1 (Data packet))
      in if typeMsg = 8
         then gbind (slice (Data packet) 8 (length (Data packet))) (\<lambda>rest.
              let dataBytes = binary_Read_bytes rest 64;
                  header = \<lparr>ic_Type = 0, ic_Code = 0, ic_Checksum = 0, ic_Identifier = 0, ic_SequenceNum = 0\<rparr>
              in Inr [ToEchoChan (be32 (hd_Src (Header packet)) @ be32 (hd_Dst (Header packet)) @ icmp_bytes header @ dataBytes)])
         else if typeMsg = 0 then Inr [ToRouteChan (NextHopMsg True (hd_Src (Header packet)))]
         else if typeMsg = 11
         then Inr (if HandleRoute tr then SendToRouteChan packet else [])
         else Inr [])"

definition CreateEchoPacket :: "ICMPHeader \<times> byte list" where
  "CreateEchoPacket = (\<lparr>ic_Type = 8, ic_Code = 0, ic_Checksum = 0, ic_Identifier = 0, ic_SequenceNum = 0\<rparr>,
     map of_char ''traceroute echo'')"

datatype traceroute_pc =
    TraceTop int "u32 list"             \<comment> \<open>at the head of the loop with \<open>currTTL\<close> and \<open>path\<close>\<close>
  | TraceWait int "u32 list"            \<comment> \<open>waiting on \<open>NextHopChannel\<close>\<close>
  | TraceReturned "u32 list"

definition traceroute_start :: "Host \<Rightarrow> u32 \<Rightarrow> TracerouteHandler \<Rightarrow> traceroute_pc \<times> TracerouteHandler" where
  \<comment> \<open>\<open>SendTraceroutePacket\<close> up to the loop\<close>
  "traceroute_start h destAddr tr =
     (case CheckRoute (HostRoutingTable h) destAddr of
        None \<Rightarrow> (TraceReturned [], tr)
      | Some entry \<Rightarrow> if Cost entry = INFINITY then (TraceReturned [], tr) else (TraceTop 1 [], AddChanRoutine tr))"

definition traceroute_probe ::
  "netstack \<Rightarrow> ip4 \<Rightarrow> Host \<Rightarrow> RoutingTableEntry \<Rightarrow> u32 \<Rightarrow> int \<Rightarrow> u32 list \<Rightarrow> traceroute_pc \<times> ip_effect list" where
  \<comment> \<open>one iteration up to the wait; \<open>entry\<close> is what the pointer read before the loop points to now\<close>
  "traceroute_probe ns ip4 h entry destAddr currTTL path =
     (if currTTL \<le> 16
      then if Cost entry = INFINITY then (TraceReturned [], [])
        else case RemoteDestination h (NextHop entry) of
          None \<Rightarrow> (TraceWait currTTL path, [])
        | Some addrOfInterface \<Rightarrow>
            (case LocalIFs h addrOfInterface of
               None \<Rightarrow> (TraceWait currTTL path, [])
             | Some localInterface \<Rightarrow>
                 let buf = icmp_bytes (fst CreateEchoPacket) @ snd CreateEchoPacket;
                     packet = CreateIPPacket ip4 addrOfInterface destAddr buf 1 currTTL
                 in (case computeChecksum ns ip4 packet of
                       Inl _ \<Rightarrow> (TraceReturned [], [])
                     | Inr checkSum \<Rightarrow>
                         (TraceWait currTTL path, link_Send ip4 localInterface (with_checksum checkSum packet))))
      else (TraceReturned path, []))"

definition traceroute_reply :: "NextHopMsg \<Rightarrow> int \<Rightarrow> u32 list \<Rightarrow> TracerouteHandler \<Rightarrow> traceroute_pc \<times> TracerouteHandler" where
  \<comment> \<open>\<open>NextHopChannel\<close> delivers\<close>
  "traceroute_reply msg currTTL path tr =
     (let path1 = path @ [MsgHop msg]
      in if Found msg then (TraceReturned path1, RemoveChanRoutine tr) else (TraceTop (currTTL + 1) path1, tr))"

section \<open>Documented behaviour of the ipv4 package\<close>

definition plain :: "IPv4Header \<Rightarrow> bool" where
  \<comment> \<open>a header without options or fragmentation, its fields in the range of their encoding\<close>
  "plain hdr \<longleftrightarrow> hd_Version hdr = 4 \<and> hd_Len hdr = 20 \<and> hd_TOS hdr \<in> {0..<256} \<and> hd_TotalLen hdr \<in> {0..<65536}
     \<and> hd_ID hdr \<in> {0..<65536} \<and> hd_Flags hdr = 0 \<and> hd_FragOff hdr = 0 \<and> hd_TTL hdr \<in> {0..<256}
     \<and> hd_Protocol hdr \<in> {0..<256} \<and> hd_Checksum hdr \<in> {0..<65536} \<and> hd_Options hdr = []"

definition ip4_ok :: "ip4 \<Rightarrow> bool" where
  \<comment> \<open>\<open>ParseHeader\<close> reads what \<open>Marshal\<close> wrote; \<open>Marshal\<close> writes the TTL as one byte\<close>
  "ip4_ok ip4 \<longleftrightarrow> ipv4_HeaderLen ip4 = 20 \<and> ICMPv4TimeExceeded ip4 = 11
     \<and> (\<forall>hdr. plain hdr \<longrightarrow> (\<exists>b. Header_Marshal ip4 hdr = Inr b \<and> length b = 20 \<and> (\<forall>rest. ParseHeader ip4 (b @ rest) = Some hdr)))
     \<and> (\<forall>hdr ttl. Header_Marshal ip4 (hdr\<lparr>hd_TTL := ttl\<rparr>) = Header_Marshal ip4 (hdr\<lparr>hd_TTL := ttl mod 256\<rparr>))"

definition rfc791 :: ip4 where
  \<comment> \<open>the header layout of RFC 791 as a concrete instance\<close>
  "rfc791 = \<lparr>
     Header_Marshal = (\<lambda>h. Inr ([word_of_int (64 + (20 + int (length (hd_Options h))) div 4), word_of_int (hd_TOS h)]
        @ be16 (word_of_int (hd_TotalLen h)) @ be16 (word_of_int (hd_ID h)) @ be16 (word_of_int (hd_FragOff h + 8192 * hd_Flags h))
        @ [word_of_int (hd_TTL h), word_of_int (hd_Protocol h)] @ be16 (word_of_int (hd_Checksum h))
        @ be32 (hd_Src h) @ be32 (hd_Dst h) @ hd_Options h)),
     ParseHeader = (\<lambda>b. if length b < 20 then None
        else let u16 = (\<lambda>i. push_bit 8 (ucast (b ! i)) OR ucast (b ! (i + 1)) :: u16);
                 u32 = (\<lambda>i. push_bit 24 (ucast (b ! i)) OR push_bit 16 (ucast (b ! (i + 1))) OR push_bit 8 (ucast (b ! (i + 2)))
                   OR ucast (b ! (i + 3)) :: u32);
                 hdrlen = uint (b ! 0) mod 16 * 4
             in if int (length b) < hdrlen then None
                else Some \<lparr>hd_Version = uint (b ! 0) div 16, hd_Len = hdrlen, hd_TOS = uint (b ! 1), hd_TotalLen = uint (u16 2),
                  hd_ID = uint (u16 4), hd_Flags = uint (u16 6) div 8192, hd_FragOff = uint (u16 6) mod 8192,
                  hd_TTL = uint (b ! 8), hd_Protocol = uint (b ! 9), hd_Checksum = uint (u16 10), hd_Src = u32 12, hd_Dst = u32 16,
                  hd_Options = take (nat hdrlen - 20) (drop 20 b)\<rparr>),
     ipv4_HeaderLen = 20, ICMPv4TimeExceeded = 11\<rparr>"

lemma uint_of_int_u8: "0 \<le> x \<Longrightarrow> x < 256 \<Longrightarrow> uint (word_of_int x :: u8) = x"
  by (simp add: uint_word_of_int)

lemma uint_of_int_u16: "0 \<le> x \<Longrightarrow> x < 65536 \<Longrightarrow> uint (word_of_int x :: u16) = x"
  by (simp add: uint_word_of_int)

lemma rfc791_ok: "ip4_ok rfc791"
  unfolding ip4_ok_def
proof (intro conjI allI impI)
  fix hdr assume p: "plain hdr"
  let ?b = "[word_of_int 69, word_of_int (hd_TOS hdr)] @ be16 (word_of_int (hd_TotalLen hdr)) @ be16 (word_of_int (hd_ID hdr))
      @ be16 (word_of_int 0) @ [word_of_int (hd_TTL hdr), word_of_int (hd_Protocol hdr)] @ be16 (word_of_int (hd_Checksum hdr))
      @ be32 (hd_Src hdr) @ be32 (hd_Dst hdr) :: byte list"
  have "Header_Marshal rfc791 hdr = Inr ?b" using p by (simp add: rfc791_def plain_def)
  moreover have "length ?b = 20" by simp
  moreover have "ParseHeader rfc791 (?b @ rest) = Some hdr" for rest
    using p by (cases hdr) (simp add: rfc791_def plain_def Let_def be16_def be32_def be16_join be32_join uint_of_int_u8 uint_of_int_u16)
  ultimately show "\<exists>b. Header_Marshal rfc791 hdr = Inr b \<and> length b = 20 \<and> (\<forall>rest. ParseHeader rfc791 (b @ rest) = Some hdr)"
    by blast
next
  fix hdr ttl
  have "(word_of_int ttl :: u8) = word_of_int (ttl mod 256)"
    by (simp add: word_of_int_eq_iff take_bit_eq_mod)
  then show "Header_Marshal rfc791 (hdr\<lparr>hd_TTL := ttl\<rparr>) = Header_Marshal rfc791 (hdr\<lparr>hd_TTL := ttl mod 256\<rparr>)"
    by (simp add: rfc791_def)
qed (simp_all add: rfc791_def)

section \<open>One hop\<close>

definition intact :: "netstack \<Rightarrow> ip4 \<Rightarrow> IPPacket \<Rightarrow> bool" where
  \<comment> \<open>a packet that fits a datagram and whose checksum is right\<close>
  "intact ns ip4 p \<longleftrightarrow> plain (Header p) \<and> 20 + length (Data p) \<le> 1400
     \<and> (\<exists>c. computeChecksum ns ip4 p = Inr c \<and> hd_Checksum (Header p) = int (unat c))"

definition live_route :: "Host \<Rightarrow> u32 \<Rightarrow> LinkInterface \<Rightarrow> bool" where
  \<comment> \<open>the host has a finite route to the address, over this interface, which is up and knows its peer\<close>
  "live_route h dest i \<longleftrightarrow> (\<exists>entry a. HostRoutingTable h dest = Some entry \<and> Cost entry \<noteq> INFINITY
     \<and> RemoteDestination h (NextHop entry) = Some a \<and> LocalIFs h a = Some i \<and> \<not> Stopped i) \<and> UDPAddr i \<noteq> None"

definition host_step :: "netstack \<Rightarrow> ip4 \<Rightarrow> Host \<Rightarrow> IPPacket \<Rightarrow> ip_effect list" where
  \<comment> \<open>a packet, and the goroutine the host starts for it\<close>
  "host_step ns ip4 h p = concat (map (run_effect ns ip4 h) (ReadFromLinkLayer_packet ns ip4 h p))"

lemma computeChecksum_ignores [simp]:
  "computeChecksum ns ip4 (p\<lparr>Header := (Header p)\<lparr>hd_Checksum := x\<rparr>\<rparr>) = computeChecksum ns ip4 p"
  by (simp add: computeChecksum_def)

lemma plain_upd:
  "plain hdr \<Longrightarrow> t \<in> {0..<256} \<Longrightarrow> plain (hdr\<lparr>hd_TTL := t\<rparr>)"
  "plain hdr \<Longrightarrow> c \<in> {0..<65536} \<Longrightarrow> plain (hdr\<lparr>hd_Checksum := c\<rparr>)"
  by (simp_all add: plain_def)

lemma u16_range: "int (unat (c :: u16)) \<in> {0..<65536}"
  using unsigned_less [of c] by simp

lemma plain_checksum:
  assumes "ip4_ok ip4" and "plain (Header p)"
  obtains c where "computeChecksum ns ip4 p = Inr c"
proof -
  have "plain ((Header p)\<lparr>hd_Checksum := 0\<rparr>)" using plain_upd(2) [OF assms(2), of 0] by simp
  then obtain b where "Header_Marshal ip4 ((Header p)\<lparr>hd_Checksum := 0\<rparr>) = Inr b" using assms(1) by (auto simp: ip4_ok_def)
  then show ?thesis using that by (simp add: computeChecksum_def)
qed

text \<open>What an interface puts on the wire is what the next host takes off it.\<close>

lemma wire:
  assumes "ip4_ok ip4" and "plain (Header p)" and "20 + length (Data p) \<le> 1400" and "\<not> Stopped i \<and> UDPAddr i \<noteq> None"
    and "\<exists>l \<in> ran (LocalIFs h'). UDPDestPort l = port"
  shows "\<exists>bytes. link_Send ip4 i p = [UDPWrite (the (UDPAddr i)) bytes]
    \<and> ListenOnPort_datagram ip4 h' port bytes = Inr [ToPacketChannel p]"
proof -
  obtain b where b: "Header_Marshal ip4 (Header p) = Inr b" "length b = 20" "\<And>rest. ParseHeader ip4 (b @ rest) = Some (Header p)"
    using assms(1,2) by (auto simp: ip4_ok_def)
  have l: "hd_Len (Header p) = 20" using assms(2) by (simp add: plain_def)
  have "ListenOnPort_datagram ip4 h' port (b @ Data p) = Inr [ToPacketChannel \<lparr>Header = Header p, Data = Data p\<rparr>]"
    using assms(3,5) b(2,3) l by (simp add: ListenOnPort_datagram_def Let_def slice_ok MTU_def)
  then show ?thesis using b(1) assms(4) by (auto simp: link_Send_def)
qed

definition hop_packet :: "u16 \<Rightarrow> IPPacket \<Rightarrow> IPPacket" where
  \<comment> \<open>the packet one hop further\<close>
  "hop_packet c p = with_checksum c (p\<lparr>Header := (Header p)\<lparr>hd_TTL := hd_TTL (Header p) - 1\<rparr>\<rparr>)"

lemma host_step_forwards:
  assumes "ip4_ok ip4" and "intact ns ip4 p" and "1 < hd_TTL (Header p)"
    and "LocalIFs h (hd_Dst (Header p)) = None" and "live_route h (hd_Dst (Header p)) i"
  obtains c where "host_step ns ip4 h p = link_Send ip4 i (hop_packet c p)" and "intact ns ip4 (hop_packet c p)"
proof -
  let ?p = "p\<lparr>Header := (Header p)\<lparr>hd_TTL := hd_TTL (Header p) - 1\<rparr>\<rparr>"
  have pl: "plain (Header ?p)" using assms(2,3) by (auto simp: intact_def plain_def)
  obtain c where c: "computeChecksum ns ip4 ?p = Inr c" by (rule plain_checksum [OF assms(1) pl])
  obtain c0 where c0: "computeChecksum ns ip4 p = Inr c0" "hd_Checksum (Header p) = int (unat c0)" using assms(2) by (auto simp: intact_def)
  have v: "hd_Version (Header p) \<noteq> IPV6" using assms(2) by (simp add: intact_def plain_def IPV6_def)
  have "ReadFromLinkLayer_packet ns ip4 h p = [GoForward (hd_Dst (Header p)) ?p]"
    using v c0 assms(3,4) by (simp add: ReadFromLinkLayer_packet_def Let_def)
  then have "host_step ns ip4 h p = SendToLinkLayer ns ip4 h (hd_Dst (Header p)) ?p" by (simp add: host_step_def)
  also have "\<dots> = link_Send ip4 i (hop_packet c p)"
    using c assms(5) by (auto simp: SendToLinkLayer_def CheckRoute_def live_route_def send_on_def hop_packet_def)
  finally have s: "host_step ns ip4 h p = link_Send ip4 i (hop_packet c p)" .
  have "intact ns ip4 (hop_packet c p)"
    using c plain_upd(2) [OF pl u16_range [of c]] assms(2)
    by (simp add: intact_def hop_packet_def with_checksum_def computeChecksum_def)
  then show ?thesis using s that by blast
qed

section \<open>Paths\<close>

type_synonym station = "Host \<times> udp_addr"    \<comment> \<open>a host with the UDP address it listens on and sends from\<close>

fun carry :: "netstack \<Rightarrow> ip4 \<Rightarrow> station list \<Rightarrow> IPPacket \<Rightarrow> ip_effect list" where
  \<comment> \<open>a packet handled by the first host, and the datagram it writes by the next one, if it is written to the next one's address\<close>
  "carry ns ip4 [] p = []"
| "carry ns ip4 [(h, at)] p = host_step ns ip4 h p"
| "carry ns ip4 ((h, at) # (h', at') # rest) p =
     (case host_step ns ip4 h p of
        [UDPWrite addr bytes] \<Rightarrow>
          if addr = at'
          then (case ListenOnPort_datagram ip4 h' (snd at) bytes of
                  Inr [ToPacketChannel p'] \<Rightarrow> carry ns ip4 ((h', at') # rest) p'
                | _ \<Rightarrow> [])
          else [UDPWrite addr bytes]
      | fx \<Rightarrow> fx)"

fun path_to :: "u32 \<Rightarrow> station list \<Rightarrow> bool" where
  \<comment> \<open>every host but the last has a live route over an interface to the next host, which knows its port\<close>
  "path_to dest [] = False"
| "path_to dest [(h, at)] = True"
| "path_to dest ((h, at) # (h', at') # rest) =
     (LocalIFs h dest = None \<and> (\<exists>i. live_route h dest i \<and> UDPAddr i = Some at') \<and> (\<exists>l \<in> ran (LocalIFs h'). UDPDestPort l = snd at)
      \<and> path_to dest ((h', at') # rest))"

definition same_packet :: "IPPacket \<Rightarrow> IPPacket \<Rightarrow> nat \<Rightarrow> bool" where
  \<comment> \<open>the same packet some hops further: all but the time to live and the checksum is as it was\<close>
  "same_packet p q n \<longleftrightarrow> Data q = Data p \<and> hd_TTL (Header q) = hd_TTL (Header p) - int n
     \<and> hd_Version (Header q) = hd_Version (Header p) \<and> hd_Len (Header q) = hd_Len (Header p) \<and> hd_TOS (Header q) = hd_TOS (Header p)
     \<and> hd_TotalLen (Header q) = hd_TotalLen (Header p) \<and> hd_ID (Header q) = hd_ID (Header p) \<and> hd_Flags (Header q) = hd_Flags (Header p)
     \<and> hd_FragOff (Header q) = hd_FragOff (Header p) \<and> hd_Protocol (Header q) = hd_Protocol (Header p)
     \<and> hd_Src (Header q) = hd_Src (Header p) \<and> hd_Dst (Header q) = hd_Dst (Header p) \<and> hd_Options (Header q) = hd_Options (Header p)"

lemma same_packet_refl [simp]: "same_packet p p 0"
  by (simp add: same_packet_def)

lemma hop_packet_same: "same_packet (hop_packet c p) q n \<Longrightarrow> same_packet p q (Suc n)"
  by (auto simp: same_packet_def hop_packet_def with_checksum_def)

lemma carry_prefix:
  assumes "ip4_ok ip4" and "path_to (hd_Dst (Header p)) (st @ [s])" and "intact ns ip4 p"
    and "int (length st) < hd_TTL (Header p)"
  shows "\<exists>q. carry ns ip4 (st @ s # rest) p = carry ns ip4 (s # rest) q \<and> intact ns ip4 q \<and> same_packet p q (length st)"
  using assms(2-4)
proof (induction st arbitrary: p)
  case Nil
  then show ?case by (intro exI [of _ p]) simp
next
  case (Cons a st)
  obtain h at where a: "a = (h, at)" by (cases a)
  obtain h' at' more where st: "st @ s # rest = (h', at') # more" by (cases st; cases "hd (st @ [s])") auto
  then obtain more' where st': "st @ [s] = (h', at') # more'" by (cases st) auto
  have p: "LocalIFs h (hd_Dst (Header p)) = None" "\<exists>i. live_route h (hd_Dst (Header p)) i \<and> UDPAddr i = Some at'"
    "\<exists>l \<in> ran (LocalIFs h'). UDPDestPort l = snd at" "path_to (hd_Dst (Header p)) (st @ [s])"
    using Cons.prems(1) by (simp_all add: a st')
  obtain i where i: "live_route h (hd_Dst (Header p)) i" and at: "UDPAddr i = Some at'" using p(2) by blast
  have "1 < hd_TTL (Header p)" using Cons.prems(3) by simp
  then obtain c where c: "host_step ns ip4 h p = link_Send ip4 i (hop_packet c p)" "intact ns ip4 (hop_packet c p)"
    using host_step_forwards [OF assms(1) Cons.prems(2) _ p(1) i] by blast
  have up: "\<not> Stopped i \<and> UDPAddr i \<noteq> None" using i by (auto simp: live_route_def)
  obtain bytes where b: "link_Send ip4 i (hop_packet c p) = [UDPWrite (the (UDPAddr i)) bytes]"
    "ListenOnPort_datagram ip4 h' (snd at) bytes = Inr [ToPacketChannel (hop_packet c p)]"
    using wire [OF assms(1) _ _ up p(3), of "hop_packet c p"] c(2) by (auto simp: intact_def)
  have dst: "hd_Dst (Header (hop_packet c p)) = hd_Dst (Header p)" "hd_TTL (Header (hop_packet c p)) = hd_TTL (Header p) - 1"
    by (simp_all add: hop_packet_def with_checksum_def)
  obtain q where q: "carry ns ip4 (st @ s # rest) (hop_packet c p) = carry ns ip4 (s # rest) q" "intact ns ip4 q"
    "same_packet (hop_packet c p) q (length st)"
    using Cons.IH [of "hop_packet c p"] p(4) c(2) Cons.prems(3) by (auto simp: dst)
  have "carry ns ip4 ((a # st) @ s # rest) p = carry ns ip4 (st @ s # rest) (hop_packet c p)"
    using b c(1) by (simp add: a st at)
  then show ?case using q hop_packet_same [OF q(3)] by auto
qed

lemma intact_read:
  assumes "intact ns ip4 p"
  shows "ReadFromLinkLayer_packet ns ip4 h p =
    (let q = p\<lparr>Header := (Header p)\<lparr>hd_TTL := hd_TTL (Header p) - 1\<rparr>\<rparr>
     in case LocalIFs h (hd_Dst (Header p)) of
          Some i \<Rightarrow> if Stopped i then [] else (case HandlerRegistry h (hd_Protocol (Header p)) of Some hl \<Rightarrow> [Deliver hl q] | None \<Rightarrow> [])
        | None \<Rightarrow> if hd_TTL (Header p) = 1 then [GoTimeExceeded q] else [GoForward (hd_Dst (Header p)) q])"
  using assms by (auto simp: intact_def plain_def ReadFromLinkLayer_packet_def IPV6_def Let_def split: option.split)

section \<open>Properties\<close>

text \<open>
  C7. A packet travels a path of hosts in which every host but the last has a finite route to the destination, over an
  interface that is up and writes to the UDP address of the next host, and the next host knows the port the datagram comes
  from. If its time to live is at least the number of hosts on the path, its header is in order and it fits a datagram
  of 1400 bytes, then the last host delivers it to the handler registered for its protocol, provided that the destination
  address is an interface there that is up: the payload and every header field but the time to live and the checksum are
  what they were, and the time to live has dropped by one per host. Every host on the way checks the header checksum and
  recomputes it; a datagram that a host writes to any other address goes no further along the path.
\<close>

theorem packet_is_delivered:
  assumes "ip4_ok ip4" and "path_to (hd_Dst (Header p)) (st @ [(h, at)])" and "intact ns ip4 p"
    and "int (length st) < hd_TTL (Header p)"
    and "LocalIFs h (hd_Dst (Header p)) = Some i" and "\<not> Stopped i" and "HandlerRegistry h (hd_Protocol (Header p)) = Some hl"
  shows "\<exists>q. carry ns ip4 (st @ [(h, at)]) p = [Deliver hl q] \<and> same_packet p q (length st + 1)"
proof -
  obtain q where q: "carry ns ip4 (st @ [(h, at)]) p = carry ns ip4 [(h, at)] q" "intact ns ip4 q" "same_packet p q (length st)"
    using carry_prefix [OF assms(1-4), of "[]"] by auto
  have "host_step ns ip4 h q = [Deliver hl (q\<lparr>Header := (Header q)\<lparr>hd_TTL := hd_TTL (Header q) - 1\<rparr>\<rparr>)]"
    using intact_read [OF q(2), of h] q(3) assms(5-7) by (simp add: host_step_def same_packet_def Let_def)
  then show ?thesis using q(1,3) by (auto simp: same_packet_def)
qed

definition sample_if :: "int \<Rightarrow> u32 \<Rightarrow> u32 \<Rightarrow> int \<Rightarrow> LinkInterface" where
  "sample_if n a b port = \<lparr>InterfaceNumber = n, HostIPAddress = a, DestIPAddress = b, UDPDestPort = port, UDPDestAddr = ''localhost'', UDPAddr = Some ([127, 0, 0, 1], port), Stopped = False\<rparr>"

definition sample_host :: "u32 \<Rightarrow> u32 \<Rightarrow> int \<Rightarrow> Host" where
  \<comment> \<open>one interface \<open>a\<close> to the neighbour \<open>b\<close> behind UDP port \<open>port\<close>, with routes to both and to address 9 behind \<open>b\<close>\<close>
  "sample_host a b port = \<lparr>LocalIFs = [a \<mapsto> sample_if 0 a b port], RemoteDestination = [b \<mapsto> a],
     HostRoutingTable = [a \<mapsto> CreateEntry a 0, b \<mapsto> CreateEntry b 1, 9 \<mapsto> CreateEntry b 2], HandlerRegistry = [0 \<mapsto> TestProtocol]\<rparr>"

lemma sample_if_sel [simp]:
  "UDPDestPort (sample_if n a b port) = port" "UDPAddr (sample_if n a b port) = Some ([127, 0, 0, 1], port)"
  "\<not> Stopped (sample_if n a b port)" "InterfaceNumber (sample_if n a b port) = n" "HostIPAddress (sample_if n a b port) = a"
  "DestIPAddress (sample_if n a b port) = b"
  by (simp_all add: sample_if_def)

lemma sample_host_sel [simp]:
  "LocalIFs (sample_host a b port) = [a \<mapsto> sample_if 0 a b port]" "RemoteDestination (sample_host a b port) = [b \<mapsto> a]"
  "HandlerRegistry (sample_host a b port) = [0 \<mapsto> TestProtocol]"
  by (simp_all add: sample_host_def)

lemma sample_live: "a \<noteq> b \<Longrightarrow> live_route (sample_host a b port) b (sample_if 0 a b port)"
  by (simp add: live_route_def sample_host_def CreateEntry_def INFINITY_def)

lemma intact_made:
  assumes "ip4_ok ip4" and "p = CreateIPPacket ip4 src dest data protocol ttl" and "0 \<le> protocol" and "protocol < 256"
    and "0 \<le> ttl" and "ttl < 256" and "length data \<le> 1380"
  obtains c where "computeChecksum ns ip4 p = Inr c" and "intact ns ip4 (with_checksum c p)"
proof -
  have pl: "plain (Header p)" using assms by (simp add: plain_def CreateIPPacket_def ip4_ok_def)
  obtain c where c: "computeChecksum ns ip4 p = Inr c" by (rule plain_checksum [OF assms(1) pl])
  have "intact ns ip4 (with_checksum c p)"
    using c plain_upd(2) [OF pl u16_range [of c]] assms(2,7)
    by (simp add: intact_def with_checksum_def computeChecksum_def CreateIPPacket_def)
  then show ?thesis using c that by blast
qed

theorem packet_is_delivered_witness:
  "\<exists>p q. carry rfc793 rfc791 [(sample_host 1 2 5002, ([127, 0, 0, 1], 5001)), (sample_host 2 1 5001, ([127, 0, 0, 1], 5002))] p = [Deliver TestProtocol q]
    \<and> same_packet p q 2 \<and> Data q = [1, 2, 3]"
proof -
  let ?p = "CreateIPPacket rfc791 1 2 [1, 2, 3] 0 16"
  obtain c where c: "intact rfc793 rfc791 (with_checksum c ?p)"
    using intact_made [OF rfc791_ok refl, of 0 16 "[1, 2, 3]" rfc793 1 2] by auto
  have h: "hd_Dst (Header (with_checksum c ?p)) = 2" "hd_TTL (Header (with_checksum c ?p)) = 16"
    "hd_Protocol (Header (with_checksum c ?p)) = 0" "Data (with_checksum c ?p) = [1, 2, 3]"
    by (simp_all add: with_checksum_def CreateIPPacket_def)
  have pt: "path_to (hd_Dst (Header (with_checksum c ?p))) ([(sample_host 1 2 5002, ([127, 0, 0, 1], 5001))] @ [(sample_host 2 1 5001, ([127, 0, 0, 1], 5002))])"
    using sample_live [of 1 2 5002] by (auto simp: h)
  obtain q where "carry rfc793 rfc791 ([(sample_host 1 2 5002, ([127, 0, 0, 1], 5001))] @ [(sample_host 2 1 5001, ([127, 0, 0, 1], 5002))]) (with_checksum c ?p) = [Deliver TestProtocol q]"
    "same_packet (with_checksum c ?p) q (length [(sample_host 1 2 5002, ([127, 0, 0, 1] :: byte list, 5001 :: int))] + 1)"
    using packet_is_delivered [OF rfc791_ok pt c, of "sample_if 0 2 1 5001" TestProtocol] by (auto simp: h)
  then show ?thesis using h(4) by (intro exI [of _ "with_checksum c ?p"] exI [of _ q]) (simp add: same_packet_def)
qed

text \<open>
  A packet whose time to live is the position of a host on its path gets no further: that host sends an
  ICMP message of type 11 back to the source, from the address of the interface towards the source. When the message
  arrives, the traceroute handler reports exactly that address as the next hop found.
\<close>

lemma expired_packet_is_reported:
  assumes "ip4_ok ip4" and "path_to (hd_Dst (Header p)) (st @ [(h, at)])" and "intact ns ip4 p"
    and "hd_TTL (Header p) = int (length st) + 1" and "LocalIFs h (hd_Dst (Header p)) = None"
    and "HostRoutingTable h (hd_Src (Header p)) = Some entry" and "Cost entry \<noteq> INFINITY"
    and "RemoteDestination h (NextHop entry) = Some a" and "LocalIFs h a = Some i" and "\<not> Stopped i \<and> UDPAddr i \<noteq> None"
    and "\<exists>l \<in> ran (LocalIFs h'). UDPDestPort l = snd at" and "HandleRoute tr"
  shows "\<exists>bytes r. carry ns ip4 (st @ [(h, at)]) p = [UDPWrite (the (UDPAddr i)) bytes]
    \<and> ListenOnPort_datagram ip4 h' (snd at) bytes = Inr [ToPacketChannel r] \<and> intact ns ip4 r
    \<and> hd_Src (Header r) = a \<and> hd_Dst (Header r) = hd_Src (Header p) \<and> hd_Protocol (Header r) = ICMP
    \<and> TracerouteReceivePacket tr r = Inr [ToRouteChan (NextHopMsg False a)]"
proof -
  obtain q where q: "carry ns ip4 (st @ [(h, at)]) p = host_step ns ip4 h q" "intact ns ip4 q" "same_packet p q (length st)"
    using carry_prefix [OF assms(1-3), of "[]"] assms(4) by auto
  let ?q = "q\<lparr>Header := (Header q)\<lparr>hd_TTL := hd_TTL (Header q) - 1\<rparr>\<rparr>"
  let ?buf = "icmp_bytes \<lparr>ic_Type = 11, ic_Code = 0, ic_Checksum = 0, ic_Identifier = 0, ic_SequenceNum = 0\<rparr> @ first_bytes 8 (Data q)"
  let ?r = "CreateIPPacket ip4 a (hd_Src (Header p)) ?buf 1 16"
  have f: "hd_Src (Header q) = hd_Src (Header p)" "hd_Dst (Header q) = hd_Dst (Header p)" "hd_TTL (Header q) = 1"
    using q(3) assms(4) by (simp_all add: same_packet_def)
  have "length ?buf \<le> 1380" by (simp add: icmp_bytes_def first_bytes_def)
  then obtain c where c: "computeChecksum ns ip4 ?r = Inr c" "intact ns ip4 (with_checksum c ?r)"
    using intact_made [OF assms(1) refl, of 1 16 ?buf ns a "hd_Src (Header p)"] by auto
  have "host_step ns ip4 h q = sendICMPTimeExceeded ns ip4 h ?q"
    using intact_read [OF q(2), of h] assms(5) f by (simp add: host_step_def Let_def)
  also have "\<dots> = link_Send ip4 i (with_checksum c ?r)"
    using assms(1,6-9) c(1) f
    by (simp add: sendICMPTimeExceeded_def Let_def CheckRoute_def binary_Write_IPHeader_def ip4_ok_def)
  finally have s: "host_step ns ip4 h q = link_Send ip4 i (with_checksum c ?r)" .
  obtain bytes where b: "link_Send ip4 i (with_checksum c ?r) = [UDPWrite (the (UDPAddr i)) bytes]"
    "ListenOnPort_datagram ip4 h' (snd at) bytes = Inr [ToPacketChannel (with_checksum c ?r)]"
    using wire [OF assms(1) _ _ assms(10,11), of "with_checksum c ?r"] c(2) by (auto simp: intact_def)
  have "TracerouteReceivePacket tr (with_checksum c ?r) = Inr [ToRouteChan (NextHopMsg False a)]"
    using assms(12) by (simp add: TracerouteReceivePacket_def SendToRouteChan_def with_checksum_def CreateIPPacket_def icmp_bytes_def first_bytes_def)
  then show ?thesis
    using q(1) s b c(2)
    by (intro exI [of _ bytes] exI [of _ "with_checksum c ?r"]) (simp add: with_checksum_def CreateIPPacket_def ICMP_def)
qed

text \<open>
  C39. A packet that arrives with a time to live of zero is not dropped: the host decrements it to -1, the test
  for zero fails, and the packet leaves with a time to live of 255.
\<close>

theorem zero_ttl_is_forwarded:
  assumes "ip4_ok ip4" and "intact ns ip4 p" and "hd_TTL (Header p) = 0" and "LocalIFs h (hd_Dst (Header p)) = None"
    and "live_route h (hd_Dst (Header p)) i" and "\<exists>l \<in> ran (LocalIFs h'). UDPDestPort l = port"
  shows "\<exists>bytes q. host_step ns ip4 h p = [UDPWrite (the (UDPAddr i)) bytes]
    \<and> ListenOnPort_datagram ip4 h' port bytes = Inr [ToPacketChannel q] \<and> hd_TTL (Header q) = 255 \<and> Data q = Data p"
proof -
  let ?p = "\<lambda>t. p\<lparr>Header := (Header p)\<lparr>hd_TTL := t\<rparr>\<rparr>"
  have m: "Header_Marshal ip4 (hdr\<lparr>hd_TTL := - 1\<rparr>) = Header_Marshal ip4 (hdr\<lparr>hd_TTL := 255\<rparr>)" for hdr
    using assms(1) spec [of "\<lambda>ttl. Header_Marshal ip4 (hdr\<lparr>hd_TTL := ttl\<rparr>) = Header_Marshal ip4 (hdr\<lparr>hd_TTL := ttl mod 256\<rparr>)" "- 1"]
    by (auto simp: ip4_ok_def)
  then have m: "Header_Marshal ip4 (hdr\<lparr>hd_TTL := - 1, hd_Checksum := x\<rparr>) = Header_Marshal ip4 (hdr\<lparr>hd_TTL := 255, hd_Checksum := x\<rparr>)" for hdr x
    using m [of "hdr\<lparr>hd_Checksum := x\<rparr>"] by (cases hdr) simp
  have pl: "plain (Header (?p 255))" using assms(2) by (auto simp: intact_def plain_def)
  obtain c where c: "computeChecksum ns ip4 (?p 255) = Inr c" by (rule plain_checksum [OF assms(1) pl])
  have c1: "computeChecksum ns ip4 (?p (- 1)) = Inr c"
    using c m [of 0 "Header p"] by (simp add: computeChecksum_def)
  have s1: "link_Send ip4 i (with_checksum c (?p (- 1))) = link_Send ip4 i (with_checksum c (?p 255))"
    using m [of "int (unat c)" "Header p"] by (simp add: link_Send_def with_checksum_def split: option.split)
  have "host_step ns ip4 h p = SendToLinkLayer ns ip4 h (hd_Dst (Header p)) (?p (- 1))"
    using intact_read [OF assms(2), of h] assms(3,4) by (simp add: host_step_def Let_def)
  also have "\<dots> = link_Send ip4 i (with_checksum c (?p 255))"
    using c1 s1 assms(5) by (auto simp: SendToLinkLayer_def CheckRoute_def live_route_def send_on_def)
  finally have s: "host_step ns ip4 h p = link_Send ip4 i (with_checksum c (?p 255))" .
  have "plain (Header (with_checksum c (?p 255)))" using plain_upd(2) [OF pl u16_range [of c]] by (simp add: with_checksum_def)
  moreover have "20 + length (Data (with_checksum c (?p 255))) \<le> 1400" using assms(2) by (simp add: intact_def with_checksum_def)
  moreover have "\<not> Stopped i \<and> UDPAddr i \<noteq> None" using assms(5) by (auto simp: live_route_def)
  ultimately obtain bytes where "link_Send ip4 i (with_checksum c (?p 255)) = [UDPWrite (the (UDPAddr i)) bytes]"
    "ListenOnPort_datagram ip4 h' port bytes = Inr [ToPacketChannel (with_checksum c (?p 255))]"
    using wire [OF assms(1) _ _ _ assms(6)] by blast
  then show ?thesis
    using s by (intro exI [of _ bytes] exI [of _ "with_checksum c (?p 255)"]) (simp add: with_checksum_def)
qed

theorem zero_ttl_is_forwarded_witness:
  "\<exists>p bytes q. hd_TTL (Header p) = 0 \<and> host_step rfc793 rfc791 (sample_host 1 2 5002) p = [UDPWrite ([127, 0, 0, 1], 5002) bytes]
    \<and> ListenOnPort_datagram rfc791 (sample_host 2 1 5001) 5001 bytes = Inr [ToPacketChannel q] \<and> hd_TTL (Header q) = 255"
proof -
  let ?p = "CreateIPPacket rfc791 7 2 [1, 2, 3] 0 0"
  obtain c where c: "intact rfc793 rfc791 (with_checksum c ?p)"
    using intact_made [OF rfc791_ok refl, of 0 0 "[1, 2, 3]" rfc793 7 2] by auto
  have h: "hd_Dst (Header (with_checksum c ?p)) = 2" "hd_TTL (Header (with_checksum c ?p)) = 0"
    by (simp_all add: with_checksum_def CreateIPPacket_def)
  show ?thesis
    using zero_ttl_is_forwarded [OF rfc791_ok c, of "sample_host 1 2 5002" "sample_if 0 1 2 5002" "sample_host 2 1 5001" 5001]
      sample_live [of 1 2 5002] h by auto
qed

text \<open>
  C29. After \<open>DownInterface\<close> succeeds the interface sends nothing, a packet addressed to it is discarded, and
  \<open>SendPacket\<close> refuses every destination whose route led over the interface, with an error and without
  sending. The flag changes nothing else on the receiving side: \<open>ListenOnPort\<close> accepts the same datagrams as before, those
  of the neighbour on the downed link included, and packets for other addresses are delivered or passed on as before.
\<close>

theorem down_interface_is_silent:
  assumes "DownInterface order h num = (None, h')" and "\<forall>a i. LocalIFs h a = Some i \<longrightarrow> HostIPAddress i = a"
  shows "\<exists>a i. LocalIFs h a = Some i \<and> InterfaceNumber i = num
    \<and> (\<forall>p. hd_Dst (Header p) = a \<longrightarrow> ReadFromLinkLayer_packet ns ip4 h' p = [])
    \<and> (\<forall>i' p. LocalIFs h' a = Some i' \<longrightarrow> link_Send ip4 i' p = [])
    \<and> (\<forall>port datagram. ListenOnPort_datagram ip4 h' port datagram = ListenOnPort_datagram ip4 h port datagram)
    \<and> (\<forall>p. hd_Dst (Header p) \<noteq> a \<longrightarrow> ReadFromLinkLayer_packet ns ip4 h' p = ReadFromLinkLayer_packet ns ip4 h p)
    \<and> (\<forall>dest entry. HostRoutingTable h dest = Some entry \<and> NextHop entry \<in> {a, DestIPAddress i} \<longrightarrow>
         SendPacket ns ip4 h' dest protocol data = (Some ''Unable to reach destination'', []))"
proof -
  obtain a i where ai: "find_interface order h num = Some (a, i)" "\<not> Stopped i"
    "h' = h\<lparr>LocalIFs := (LocalIFs h)(a \<mapsto> Disable i),
        HostRoutingTable := RemoveNextHops [HostIPAddress i, DestIPAddress i] (HostRoutingTable h)\<rparr>"
    using assms(1) by (auto simp: DownInterface_def split: option.splits prod.splits if_splits)
  have f: "LocalIFs h a = Some i" "InterfaceNumber i = num" using find_interface_Some [OF ai(1)] by simp_all
  then have a: "HostIPAddress i = a" using assms(2) by blast
  have "SendPacket ns ip4 h' dest protocol data = (Some ''Unable to reach destination'', [])"
    if "HostRoutingTable h dest = Some entry" "NextHop entry \<in> {a, DestIPAddress i}" for dest entry
    using that a by (auto simp: ai(3) SendPacket_def CheckRoute_def RemoveNextHops_def)
  moreover have "ReadFromLinkLayer_packet ns ip4 h' p = []" if "hd_Dst (Header p) = a" for p
    using that by (simp add: ai(3) ReadFromLinkLayer_packet_def Let_def Disable_def split: sum.split)
  moreover have "link_Send ip4 i' p = []" if "LocalIFs h' a = Some i'" for i' p
    using that by (auto simp: ai(3) link_Send_def Disable_def)
  moreover have ports: "(\<exists>l \<in> ran m. UDPDestPort l = port) \<longleftrightarrow> (\<exists>x. map_option UDPDestPort (m x) = Some port)" for m :: "u32 \<rightharpoonup> LinkInterface" and port
    by (auto simp: ran_def)
  have "map_option UDPDestPort (LocalIFs h' x) = map_option UDPDestPort (LocalIFs h x)" for x
    using f(1) by (simp add: ai(3) Disable_def)
  then have "ListenOnPort_datagram ip4 h' port datagram = ListenOnPort_datagram ip4 h port datagram" for port datagram
    by (simp add: ListenOnPort_datagram_def ports)
  moreover have kept: "HandlerRegistry h' = HandlerRegistry h" "\<And>d. d \<noteq> a \<Longrightarrow> LocalIFs h' d = LocalIFs h d" by (simp_all add: ai(3))
  have "ReadFromLinkLayer_packet ns ip4 h' p = ReadFromLinkLayer_packet ns ip4 h p" if "hd_Dst (Header p) \<noteq> a" for p
    using kept(2) [OF that] by (cases "computeChecksum ns ip4 p"; cases "LocalIFs h (hd_Dst (Header p))") (auto simp: ReadFromLinkLayer_packet_def kept(1) Let_def)
  ultimately show ?thesis using f by blast
qed

theorem down_interface_is_silent_witness:
  "\<exists>h'. DownInterface [1] (sample_host 1 2 5002) 0 = (None, h')
    \<and> SendPacket rfc793 rfc791 h' 2 0 [1] = (Some ''Unable to reach destination'', [])"
proof -
  obtain h' where h': "DownInterface [1] (sample_host 1 2 5002) 0 = (None, h')"
    by (simp add: DownInterface_def find_interface_def)
  have "HostRoutingTable (sample_host 1 2 5002) 2 = Some (CreateEntry 2 1)" by (simp add: sample_host_def)
  moreover have "\<forall>a i. LocalIFs (sample_host 1 2 5002) a = Some i \<longrightarrow> HostIPAddress i = a" by simp
  then obtain a i where "LocalIFs (sample_host 1 2 5002) a = Some i"
    "\<forall>dest entry. HostRoutingTable (sample_host 1 2 5002) dest = Some entry \<and> NextHop entry \<in> {a, DestIPAddress i} \<longrightarrow>
         SendPacket rfc793 rfc791 h' dest 0 [1] = (Some ''Unable to reach destination'', [])"
    using down_interface_is_silent [OF h', of rfc793 rfc791 0 "[1]"] by blast
  ultimately show ?thesis using h' by (auto simp: CreateEntry_def split: if_splits)
qed

end
