(* ===== verification/Stack.thy ===== *)
theory Stack
  imports Handlers RipNetwork IpHost
begin

text \<open>
  The protocols on top of the IP layer, in a network of hosts. The RIP, TCP and traceroute handlers give the host
  buffers that begin with addresses (\<open>ReadFromHandler\<close> and \<open>ReadEchoPacket\<close> of \<open>src/pkg/ip/host.go\<close>); the host wraps them into
  packets, its link interface writes them to a UDP address, and the host that listens there delivers or forwards them.
  The theorems follow a routing update, a test packet, a TCP segment and a traceroute through all of these components, in
  networks whose routing tables RIP has filled.
\<close>

section \<open>Networks of hosts\<close>

record ip_net =
  ip_host :: "nat \<Rightarrow> Host"
  ip_port :: "nat \<Rightarrow> int"               \<comment> \<open>the UDP port the host listens on and sends from\<close>
  ip_at :: "udp_addr \<Rightarrow> nat"            \<comment> \<open>the host that listens on a UDP address\<close>

fun carry_on :: "netstack \<Rightarrow> ip4 \<Rightarrow> ip_net \<Rightarrow> nat \<Rightarrow> nat \<Rightarrow> ip_effect list \<Rightarrow> nat \<times> ip_effect list" where
  \<comment> \<open>what becomes of the effects of host \<open>n\<close>: a datagram is received and handled where it is sent to, as often as the first number says\<close>
  "carry_on ns ip4 w 0 n fx = (n, fx)"
| "carry_on ns ip4 w (Suc f) n fx =
     (case fx of
        [UDPWrite addr bytes] \<Rightarrow>
          (let m = ip_at w addr
           in case ListenOnPort_datagram ip4 (ip_host w m) (ip_port w n) bytes of
                Inr [ToPacketChannel p] \<Rightarrow> carry_on ns ip4 w f m (host_step ns ip4 (ip_host w m) p)
              | _ \<Rightarrow> (m, []))
      | _ \<Rightarrow> (n, fx))"

definition hosts_match :: "rip_net \<Rightarrow> ip_net \<Rightarrow> bool" where
  \<comment> \<open>the ends of the links are the interfaces of the hosts; all are up and write to the host at the other end\<close>
  "hosts_match net w \<longleftrightarrow> (\<forall>n. dom (LocalIFs (ip_host w n)) = net_ifs net n)
     \<and> (\<forall>a b. net_link net a = Some b \<longrightarrow> RemoteDestination (ip_host w (net_owner net a)) b = Some a
          \<and> (\<exists>i addr. LocalIFs (ip_host w (net_owner net a)) a = Some i \<and> \<not> Stopped i \<and> UDPAddr i = Some addr
               \<and> ip_at w addr = net_owner net b \<and> UDPDestPort i = ip_port w (net_owner net b)))"

definition converged :: "rip_net \<Rightarrow> nat \<Rightarrow> ip_net \<Rightarrow> bool" where
  \<comment> \<open>the hosts of the network after \<open>k\<close> rounds of routing updates\<close>
  "converged net k w \<longleftrightarrow> net_ok net \<and> hosts_match net w \<and> rounds net k (net_init net) (\<lambda>n. HostRoutingTable (ip_host w n))"

lemma hosts_match_link:
  assumes "hosts_match net w" and "net_link net a = Some b"
  obtains i addr where "LocalIFs (ip_host w (net_owner net a)) a = Some i" and "\<not> Stopped i" and "UDPAddr i = Some addr"
    and "ip_at w addr = net_owner net b" and "UDPDestPort i = ip_port w (net_owner net b)"
    and "RemoteDestination (ip_host w (net_owner net a)) b = Some a"
  using assms unfolding hosts_match_def by blast

lemma hosts_match_own:
  assumes "hosts_match net w"
  shows "LocalIFs (ip_host w n) a = None \<longleftrightarrow> a \<notin> net_ifs net n"
proof -
  have "dom (LocalIFs (ip_host w n)) = net_ifs net n" using assms by (simp add: hosts_match_def)
  then show ?thesis by auto
qed

lemma ifs_owner: "a \<in> net_ifs net n \<Longrightarrow> net_owner net a = n"
  by (simp add: net_ifs_def)

text \<open>Over a link: what an interface sends is handled by the host at the other end.\<close>

lemma link_carries:
  assumes "ip4_ok ip4" and "net_ok net" and "hosts_match net w" and "net_link net a = Some b"
    and "LocalIFs (ip_host w (net_owner net a)) a = Some i" and "intact ns ip4 p"
  shows "carry_on ns ip4 w (Suc f) (net_owner net a) (link_Send ip4 i p)
    = carry_on ns ip4 w f (net_owner net b) (host_step ns ip4 (ip_host w (net_owner net b)) p)"
proof -
  obtain addr where i: "\<not> Stopped i" "UDPAddr i = Some addr" "ip_at w addr = net_owner net b"
    using hosts_match_link [OF assms(3,4)] assms(5) by (metis option.inject)
  obtain l where l: "LocalIFs (ip_host w (net_owner net b)) b = Some l" "UDPDestPort l = ip_port w (net_owner net a)"
    using hosts_match_link [OF assms(3) net_ok_sym [OF assms(2,4)]] by metis
  then have "\<exists>l \<in> ran (LocalIFs (ip_host w (net_owner net b))). UDPDestPort l = ip_port w (net_owner net a)"
    by (auto simp: ran_def)
  then obtain bytes where "link_Send ip4 i p = [UDPWrite addr bytes]"
    "ListenOnPort_datagram ip4 (ip_host w (net_owner net b)) (ip_port w (net_owner net a)) bytes = Inr [ToPacketChannel p]"
    using wire [OF assms(1), of p i] assms(6) i by (auto simp: intact_def)
  then show ?thesis using i by (simp add: Let_def)
qed

section \<open>Distances\<close>

definition links_apart :: "rip_net \<Rightarrow> nat \<Rightarrow> nat \<Rightarrow> nat \<Rightarrow> bool" where
  \<comment> \<open>a walk of \<open>t\<close> links leads from one host to the other and back\<close>
  "links_apart net n m t \<longleftrightarrow> (\<forall>i s. walk net n i s \<longrightarrow> walk net m (t + i) s) \<and> (\<forall>i s. walk net m i s \<longrightarrow> walk net n (t + i) s)"

lemma apart_0 [simp]: "links_apart net n n 0"
  by (simp add: links_apart_def)

lemma apart_trans: "links_apart net n m t \<Longrightarrow> links_apart net m l u \<Longrightarrow> links_apart net n l (t + u)"
  unfolding links_apart_def by (metis add.assoc add.commute)

lemma apart_link: "net_ok net \<Longrightarrow> net_link net a = Some b \<Longrightarrow> links_apart net (net_owner net a) (net_owner net b) 1"
  unfolding links_apart_def by (auto intro: walk_over_link net_ok_sym)

lemma walk_append: "walk net n i a \<Longrightarrow> walk net (net_owner net a) j d \<Longrightarrow> walk net n (i + j) d"
  by (induction rule: walk.induct) (auto simp: net_ifs_def intro: walk_link)

lemma walk_back:
  assumes "walk net m i a" and "net_ok net" and "walk net m j d"
  shows "walk net (net_owner net a) (i + j) d"
  using assms(1,3)
proof (induction arbitrary: j rule: walk.induct)
  case (walk_own d n)
  then show ?case by (simp add: net_ifs_def)
next
  case (walk_link a' n b k e)
  then have "walk net (net_owner net b) (Suc j) d"
    using walk_over_link [OF assms(2), of a' b] by (simp add: net_ifs_def)
  then show ?case using walk_link.IH by fastforce
qed

text \<open>A host on a shortest path: its distance from the start, seen from both ends.\<close>

lemma dist_on_path:
  assumes "net_ok net" and "is_dist net n d j" and "is_dist net m d (j - t)" and "t \<le> j" and "links_apart net n m t"
  shows "a \<in> net_ifs net n \<Longrightarrow> is_dist net m a t" and "a \<in> net_ifs net m \<Longrightarrow> is_dist net n a t"
proof -
  have short: "\<not> walk net n (i + (j - t)) d" if "i < t" for i using assms(2,4) that by (auto simp: is_dist_def)
  have m: "walk net m (j - t) d" using assms(3) by (simp add: is_dist_def)
  show "is_dist net m a t" if a: "a \<in> net_ifs net n"
    using assms(5) walk_own [OF a] walk_back [OF _ assms(1) m, of _ a] short ifs_owner [OF a] by (fastforce simp: is_dist_def links_apart_def)
  show "is_dist net n a t" if a: "a \<in> net_ifs net m"
    using assms(5) walk_own [OF a] walk_append [of net n _ a "j - t" d] m short ifs_owner [OF a] by (fastforce simp: is_dist_def links_apart_def)
qed

section \<open>Packets follow shortest paths\<close>

text \<open>A host that is not the destination has a live route over a link that leads one closer.\<close>

lemma converged_route:
  assumes "converged net k w" and "is_dist net n d (Suc j)" and "Suc j \<le> k" and "Suc j < 16"
  obtains e a i where "HostRoutingTable (ip_host w n) d = Some e" and "Cost e \<noteq> INFINITY"
    and "RemoteDestination (ip_host w n) (NextHop e) = Some a" and "LocalIFs (ip_host w n) a = Some i"
    and "net_link net a = Some (NextHop e)" and "net_owner net a = n" and "is_dist net (net_owner net (NextHop e)) d j"
    and "live_route (ip_host w n) d i" and "d \<notin> net_ifs net n"
proof -
  have c: "net_ok net" "hosts_match net w" "rounds net k (net_init net) (\<lambda>n. HostRoutingTable (ip_host w n))"
    using assms(1) by (simp_all add: converged_def)
  have t: "table_real net n (HostRoutingTable (ip_host w n))" "exact net k (\<lambda>n. HostRoutingTable (ip_host w n))"
    using rounds_exact [OF c(3) refl c(1)] by auto
  obtain e where e: "HostRoutingTable (ip_host w n) d = Some e" "unat (Cost e) = Suc j"
    using exactD [OF t(2) assms(2-4)] by (auto simp: has_cost_def)
  obtain a where a: "a \<in> net_ifs net n" "net_link net a = Some (NextHop e)" "walk net (net_owner net (NextHop e)) j d"
    using real_cost(2) [OF t(1) e(1)] e(2) assms(4) by (auto simp: route_real_def)
  note n = ifs_owner [OF a(1)]
  have "is_dist net (net_owner net (NextHop e)) d j"
    using a(3) walk_link [OF a(1,2)] assms(2) by (auto simp: is_dist_def)
  moreover obtain i addr where i: "LocalIFs (ip_host w n) a = Some i" "\<not> Stopped i" "UDPAddr i = Some addr"
    "RemoteDestination (ip_host w n) (NextHop e) = Some a"
    using hosts_match_link [OF c(2) a(2)] unfolding n by metis
  moreover have ci: "Cost e \<noteq> INFINITY" using e(2) assms(4) by auto
  moreover have "d \<notin> net_ifs net n" using assms(2) walk_own [of d net n] by (auto simp: is_dist_def)
  moreover have "live_route (ip_host w n) d i" using e(1) i ci by (auto simp: live_route_def)
  ultimately show ?thesis using that [OF e(1) _ i(4,1) a(2) n] by blast
qed

definition reaches :: "netstack \<Rightarrow> ip4 \<Rightarrow> ip_net \<Rightarrow> nat \<Rightarrow> nat \<times> ip_effect list \<Rightarrow> nat \<Rightarrow> IPPacket \<Rightarrow> bool" where
  \<comment> \<open>\<open>t\<close> datagrams later the host \<open>m\<close> handles the packet \<open>q\<close>\<close>
  "reaches ns ip4 w t s m q \<longleftrightarrow> intact ns ip4 q
     \<and> (\<forall>f. carry_on ns ip4 w (t + f) (fst s) (snd s) = carry_on ns ip4 w f m (host_step ns ip4 (ip_host w m) q))"

lemma reaches_here: "intact ns ip4 p \<Longrightarrow> reaches ns ip4 w 0 (n, host_step ns ip4 (ip_host w n) p) n p"
  by (simp add: reaches_def)

lemma reaches_trans:
  assumes "reaches ns ip4 w t s m q" and "reaches ns ip4 w u (m, host_step ns ip4 (ip_host w m) q) l r"
  shows "reaches ns ip4 w (t + u) s l r"
  using assms by (simp add: reaches_def add.assoc)

lemma reaches_link:
  assumes "net_ok net" and "hosts_match net w" and "ip4_ok ip4" and "net_link net a = Some b" and "net_owner net a = n"
    and "LocalIFs (ip_host w n) a = Some i" and "intact ns ip4 p"
  shows "reaches ns ip4 w 1 (n, link_Send ip4 i p) (net_owner net b) p"
  using link_carries [OF assms(3,1,2,4) _ assms(7)] assms(5-7) by (auto simp: reaches_def)

lemma travels:
  assumes "converged net k w" and "ip4_ok ip4" and "intact ns ip4 p" and "is_dist net n (hd_Dst (Header p)) j"
    and "j \<le> k" and "j < 16" and "t \<le> j" and "int t < hd_TTL (Header p)"
  shows "\<exists>m q. reaches ns ip4 w t (n, host_step ns ip4 (ip_host w n) p) m q \<and> same_packet p q t
    \<and> is_dist net m (hd_Dst (Header p)) (j - t) \<and> links_apart net n m t"
  using assms(3-8)
proof (induction t arbitrary: n p j)
  case 0
  then show ?case using reaches_here [OF 0(1)] by (intro exI [of _ n] exI [of _ p]) simp
next
  case (Suc t)
  obtain j' where j: "j = Suc j'" using Suc.prems(5) by (cases j) auto
  obtain e :: RoutingTableEntry and a i where e: "LocalIFs (ip_host w n) a = Some i"
    "net_link net a = Some (NextHop e)" "net_owner net a = n" "is_dist net (net_owner net (NextHop e)) (hd_Dst (Header p)) j'"
    "live_route (ip_host w n) (hd_Dst (Header p)) i" "hd_Dst (Header p) \<notin> net_ifs net n"
    by (rule converged_route [OF assms(1) Suc.prems(2-4) [unfolded j]])
  have ok: "net_ok net" "LocalIFs (ip_host w n) (hd_Dst (Header p)) = None" "hosts_match net w"
    using assms(1) e(6) hosts_match_own by (auto simp: converged_def)
  obtain c where c: "host_step ns ip4 (ip_host w n) p = link_Send ip4 i (hop_packet c p)" "intact ns ip4 (hop_packet c p)"
    by (rule host_step_forwards [OF assms(2) Suc.prems(1) _ ok(2) e(5)]) (use Suc.prems(6) in auto)
  have h: "hd_Dst (Header (hop_packet c p)) = hd_Dst (Header p)" "hd_TTL (Header (hop_packet c p)) = hd_TTL (Header p) - 1"
    by (simp_all add: hop_packet_def with_checksum_def)
  let ?b = "net_owner net (NextHop e)"
  have one: "reaches ns ip4 w 1 (n, host_step ns ip4 (ip_host w n) p) ?b (hop_packet c p)"
    unfolding c(1) by (rule reaches_link [OF ok(1,3) assms(2) e(2,3,1) c(2)])
  obtain m q where q: "reaches ns ip4 w t (?b, host_step ns ip4 (ip_host w ?b) (hop_packet c p)) m q"
    "same_packet (hop_packet c p) q t" "is_dist net m (hd_Dst (Header p)) (j' - t)" "links_apart net ?b m t"
    using Suc.IH [of "hop_packet c p" ?b j'] c(2) e(4) Suc.prems(3-6) unfolding h j by auto
  show ?case
    using reaches_trans [OF one q(1)] hop_packet_same [OF q(2)] q(3) apart_trans [OF apart_link [OF ok(1) e(2)] q(4)] e(3)
    by (intro exI [of _ m] exI [of _ q]) (simp add: j)
qed

definition out_link :: "rip_net \<Rightarrow> ip_net \<Rightarrow> nat \<Rightarrow> u32 \<Rightarrow> nat \<Rightarrow> RoutingTableEntry \<Rightarrow> u32 \<Rightarrow> LinkInterface \<Rightarrow> bool" where
  \<comment> \<open>the host's route to \<open>d\<close> is the entry \<open>e\<close>, over its interface \<open>i\<close> with address \<open>a\<close>, and \<open>j\<close> links are left after that one\<close>
  "out_link net w n d j e a i \<longleftrightarrow> HostRoutingTable (ip_host w n) d = Some e \<and> Cost e \<noteq> INFINITY
     \<and> RemoteDestination (ip_host w n) (NextHop e) = Some a \<and> LocalIFs (ip_host w n) a = Some i
     \<and> net_link net a = Some (NextHop e) \<and> net_owner net a = n \<and> is_dist net (net_owner net (NextHop e)) d j"

lemma out_link_exists:
  assumes "converged net k w" and "is_dist net n d (Suc j)" and "Suc j \<le> k" and "Suc j < 16"
  obtains e a i where "out_link net w n d j e a i"
  by (rule converged_route [OF assms]) (use that in \<open>auto simp: out_link_def\<close>)

lemma out_link_ifs: "out_link net w n d j e a i \<Longrightarrow> a \<in> net_ifs net n"
  using link_ifs by (auto simp: out_link_def)

lemma sent_travels:
  assumes "converged net k w" and "ip4_ok ip4" and "out_link net w n (hd_Dst (Header p)) j e a i" and "Suc j \<le> k" and "Suc j < 16"
    and "intact ns ip4 p" and "t \<le> j" and "int t < hd_TTL (Header p)"
  shows "\<exists>m q. reaches ns ip4 w (Suc t) (n, link_Send ip4 i p) m q \<and> same_packet p q t
    \<and> is_dist net m (hd_Dst (Header p)) (j - t) \<and> links_apart net n m (Suc t)"
proof -
  let ?b = "net_owner net (NextHop e)"
  have o: "net_link net a = Some (NextHop e)" "net_owner net a = n" "LocalIFs (ip_host w n) a = Some i" "is_dist net ?b (hd_Dst (Header p)) j"
    using assms(3) by (simp_all add: out_link_def)
  obtain m q where q: "reaches ns ip4 w t (?b, host_step ns ip4 (ip_host w ?b) p) m q" "same_packet p q t"
    "is_dist net m (hd_Dst (Header p)) (j - t)" "links_apart net ?b m t"
    using travels [OF assms(1,2,6) o(4) _ _ assms(7,8)] assms(4,5) by auto
  have ok: "net_ok net" "hosts_match net w" using assms(1) by (simp_all add: converged_def)
  have "links_apart net n m (1 + t)" using apart_trans [OF apart_link [OF ok(1) o(1)] q(4)] o(2) by simp
  then show ?thesis using reaches_trans [OF reaches_link [OF ok assms(2) o(1,2,3) assms(6)] q(1)] q(2,3) by auto
qed

lemma carry_on_stays: "carry_on ns ip4 w f m [Deliver hl q] = (m, [Deliver hl q])"
  by (cases f) auto

lemma own_interface_up:
  assumes "hosts_match net w" and "d \<in> net_ifs net m"
  obtains i where "LocalIFs (ip_host w m) d = Some i" and "\<not> Stopped i"
proof -
  obtain b where "net_link net d = Some b" using assms(2) by (auto simp: net_ifs_def linked_def)
  then show ?thesis
    using that hosts_match_link [OF assms(1)] ifs_owner [OF assms(2)] by metis
qed

lemma reaches_delivers:
  assumes "hosts_match net w" and "reaches ns ip4 w t s m q" and "is_dist net m (hd_Dst (Header q)) 0"
    and "HandlerRegistry (ip_host w m) (hd_Protocol (Header q)) = Some hl"
  shows "carry_on ns ip4 w (t + f) (fst s) (snd s) = (m, [Deliver hl (q\<lparr>Header := (Header q)\<lparr>hd_TTL := hd_TTL (Header q) - 1\<rparr>\<rparr>)])"
proof -
  have "hd_Dst (Header q) \<in> net_ifs net m" using assms(3) by (auto simp: is_dist_def elim: walk_0E)
  then obtain i where "LocalIFs (ip_host w m) (hd_Dst (Header q)) = Some i" "\<not> Stopped i" by (rule own_interface_up [OF assms(1)])
  moreover have "intact ns ip4 q" using assms(2) by (simp add: reaches_def)
  ultimately have "host_step ns ip4 (ip_host w m) q = [Deliver hl (q\<lparr>Header := (Header q)\<lparr>hd_TTL := hd_TTL (Header q) - 1\<rparr>\<rparr>)]"
    using intact_read [of ns ip4 q "ip_host w m"] assms(4) by (simp add: host_step_def Let_def)
  then show ?thesis using assms(2) by (simp add: reaches_def carry_on_stays)
qed

text \<open>A packet that a host makes and sends over its route to the destination is delivered there.\<close>

lemma created_is_delivered:
  assumes "converged net k w" and "ip4_ok ip4" and "out_link net w n d j e a i" and "Suc j \<le> k" and "Suc j < 16"
    and "0 \<le> protocol" and "protocol < 256" and "int j < ttl" and "ttl < 256" and "length data \<le> 1380"
    and "HandlerRegistry (ip_host w (net_owner net d)) protocol = Some hl" and "Suc j \<le> f"
  obtains c q where "computeChecksum ns ip4 (CreateIPPacket ip4 src d data protocol ttl) = Inr c"
    and "carry_on ns ip4 w f n (link_Send ip4 i (with_checksum c (CreateIPPacket ip4 src d data protocol ttl)))
      = (net_owner net d, [Deliver hl q])"
    and "Data q = data" and "hd_Src (Header q) = src" and "hd_Dst (Header q) = d"
proof -
  let ?p = "CreateIPPacket ip4 src d data protocol ttl"
  obtain c where c: "computeChecksum ns ip4 ?p = Inr c" "intact ns ip4 (with_checksum c ?p)"
    by (rule intact_made [OF assms(2) refl assms(6,7) _ assms(9,10), of ns src d]) (use assms(8) in auto)
  have f: "hd_Dst (Header (with_checksum c ?p)) = d" "hd_TTL (Header (with_checksum c ?p)) = ttl" "hd_Protocol (Header (with_checksum c ?p)) = protocol"
    "Data (with_checksum c ?p) = data" "hd_Src (Header (with_checksum c ?p)) = src"
    by (simp_all add: with_checksum_def CreateIPPacket_def)
  obtain m q where q: "reaches ns ip4 w (Suc j) (n, link_Send ip4 i (with_checksum c ?p)) m q" "same_packet (with_checksum c ?p) q j"
    "is_dist net m d 0"
    using sent_travels [OF assms(1,2) _ assms(4,5) c(2), of n e a i j] assms(3,8) by (auto simp: f)
  have m: "m = net_owner net d" using q(3) by (auto simp: is_dist_def net_ifs_def elim: walk_0E)
  let ?q = "q\<lparr>Header := (Header q)\<lparr>hd_TTL := hd_TTL (Header q) - 1\<rparr>\<rparr>"
  have "carry_on ns ip4 w (Suc j + f) n (link_Send ip4 i (with_checksum c ?p)) = (net_owner net d, [Deliver hl ?q])" for f
    using reaches_delivers [OF _ q(1), of net hl f] q(2,3) assms(1,11) m by (simp add: same_packet_def f converged_def)
  then have "carry_on ns ip4 w f n (link_Send ip4 i (with_checksum c ?p)) = (net_owner net d, [Deliver hl ?q])"
    using assms(12) le_Suc_ex by metis
  then show ?thesis using that [OF c(1)] q(2) by (auto simp: same_packet_def f)
qed

section \<open>What the handlers give to the host\<close>

lemma get_be32_alone: "get_be32 (be32 x) = Inr x"
  using get_be32_be32 [of x "[]"] by simp

lemma address_slices:
  "slice (be32 x @ data) 0 ADDR_SIZE = Inr (be32 x)" "slice (be32 x @ data) ADDR_SIZE (4 + length data) = Inr data"
  "slice (be32 x @ be32 y @ data) ADDR_SIZE (2 * ADDR_SIZE) = Inr (be32 y)" "slice (be32 x @ be32 y @ data) ADDR_SIZE (ADDR_SIZE + ADDR_SIZE) = Inr (be32 y)"
  "slice (be32 x @ be32 y @ data) (2 * ADDR_SIZE) (8 + length data) = Inr data"
  "slice (be32 x @ be32 y @ data) (ADDR_SIZE + ADDR_SIZE) (8 + length data) = Inr data"
  by (simp_all add: slice_ok ADDR_SIZE_def)

lemma handler_tcp_message_sends:
  assumes "out_link net w n d j e a i" and "computeChecksum ns ip4 (CreateIPPacket ip4 src d data 6 16) = Inr c"
  shows "handler_tcp_message ns ip4 (ip_host w n) (be32 src @ be32 d @ data)
    = Inr (link_Send ip4 i (with_checksum c (CreateIPPacket ip4 src d data 6 16)), True)"
  using assms by (simp add: address_slices handler_tcp_message_def out_link_def get_be32_alone)

lemma ReadEchoPacket_sends:
  assumes "out_link net w n d j e a i" and "computeChecksum ns ip4 (CreateIPPacket ip4 src d data 1 TTL_MAX) = Inr c"
  shows "ReadEchoPacket_message ns ip4 (ip_host w n) (be32 d @ be32 src @ data)
    = Inr (link_Send ip4 i (with_checksum c (CreateIPPacket ip4 src d data 1 TTL_MAX)))"
  using assms by (simp add: address_slices ReadEchoPacket_message_def out_link_def get_be32_alone CheckRoute_def send_on_def)

lemma handler_rip_message_sends:
  assumes "RemoteDestination h nb = Some a"
  shows "handler_rip_message ip4 h (be32 nb @ data) = Inr [GoSendToNeighbor nb (CreateIPPacket ip4 a nb data RIP_PROTOCOL TTL_MAX)]"
  using assms by (simp add: address_slices handler_rip_message_def get_be32_alone)

section \<open>Traceroute in a network\<close>

definition icmp_at :: "netstack \<Rightarrow> ip4 \<Rightarrow> ip_net \<Rightarrow> (nat \<Rightarrow> TracerouteHandler) \<Rightarrow> nat \<times> ip_effect list \<Rightarrow> nat \<times> ip_effect list" where
  \<comment> \<open>the traceroute handler of a host gets a packet, and the host an echo reply to send\<close>
  "icmp_at ns ip4 w tr s =
     (case s of
        (m, [Deliver TracerouteProtocol q]) \<Rightarrow>
          (m, case TracerouteReceivePacket (tr m) q of
                Inr [ToEchoChan msg] \<Rightarrow> (case ReadEchoPacket_message ns ip4 (ip_host w m) msg of Inr fx \<Rightarrow> fx | Inl _ \<Rightarrow> [])
              | Inr fx \<Rightarrow> fx
              | Inl _ \<Rightarrow> [])
      | _ \<Rightarrow> s)"

definition trace_answer :: "netstack \<Rightarrow> ip4 \<Rightarrow> ip_net \<Rightarrow> (nat \<Rightarrow> TracerouteHandler) \<Rightarrow> nat \<Rightarrow> ip_effect list \<Rightarrow> nat \<times> ip_effect list" where
  \<comment> \<open>what becomes of a probe: it expires and is reported, or arrives and is answered\<close>
  "trace_answer ns ip4 w tr n fx =
     (case icmp_at ns ip4 w tr (carry_on ns ip4 w 32 n fx) of
        (m, fx') \<Rightarrow> icmp_at ns ip4 w tr (carry_on ns ip4 w 32 m fx'))"

fun trace_loop :: "netstack \<Rightarrow> ip4 \<Rightarrow> ip_net \<Rightarrow> (nat \<Rightarrow> TracerouteHandler) \<Rightarrow> nat \<Rightarrow> u32 \<Rightarrow> nat \<Rightarrow> traceroute_pc \<Rightarrow> traceroute_pc" where
  \<comment> \<open>the loop of \<open>SendTraceroutePacket\<close> in the network; it waits for ever when no answer arrives\<close>
  "trace_loop ns ip4 w tr n d 0 pc = pc"
| "trace_loop ns ip4 w tr n d (Suc f) pc =
     (case pc of
        TraceTop currTTL path \<Rightarrow>
          (case HostRoutingTable (ip_host w n) d of
             None \<Rightarrow> pc
           | Some entry \<Rightarrow>
               (case traceroute_probe ns ip4 (ip_host w n) entry d currTTL path of
                  (TraceWait ttl path1, fx) \<Rightarrow>
                    (case trace_answer ns ip4 w tr n fx of
                       (m, [ToRouteChan msg]) \<Rightarrow>
                         if m = n then trace_loop ns ip4 w tr n d f (fst (traceroute_reply msg ttl path1 (tr n))) else TraceWait ttl path1
                     | _ \<Rightarrow> TraceWait ttl path1)
                | (pc1, _) \<Rightarrow> pc1))
      | _ \<Rightarrow> pc)"

definition run_traceroute :: "netstack \<Rightarrow> ip4 \<Rightarrow> ip_net \<Rightarrow> (nat \<Rightarrow> TracerouteHandler) \<Rightarrow> nat \<Rightarrow> u32 \<Rightarrow> traceroute_pc" where
  \<comment> \<open>at most 16 probes, as \<open>currTTL\<close> starts at 1\<close>
  "run_traceroute ns ip4 w tr n d =
     (case traceroute_start (ip_host w n) d (tr n) of (pc, h) \<Rightarrow> trace_loop ns ip4 w (tr(n := h)) n d 16 pc)"

definition probe_packet :: "ip4 \<Rightarrow> u32 \<Rightarrow> u32 \<Rightarrow> int \<Rightarrow> IPPacket" where
  "probe_packet ip4 a d ttl = CreateIPPacket ip4 a d (icmp_bytes (fst CreateEchoPacket) @ snd CreateEchoPacket) 1 ttl"

lemma traceroute_probe_sends:
  assumes "out_link net w n d j e a i" and "ttl \<le> 16" and "computeChecksum ns ip4 (probe_packet ip4 a d ttl) = Inr c"
  shows "traceroute_probe ns ip4 (ip_host w n) e d ttl path
    = (TraceWait ttl path, link_Send ip4 i (with_checksum c (probe_packet ip4 a d ttl)))"
  using assms by (simp add: traceroute_probe_def out_link_def probe_packet_def Let_def)

lemma dist_sym:
  assumes "net_ok net" and "is_dist net n d j" and "a \<in> net_ifs net n"
  shows "is_dist net (net_owner net d) a j"
proof -
  have d: "walk net (net_owner net d) 0 d"
    using assms(2) by (auto simp: is_dist_def net_ifs_def intro!: walk_own dest: walk_linked)
  have "walk net (net_owner net d) j a"
    using walk_back [OF _ assms(1) walk_own [OF assms(3)], of j d] assms(2) by (simp add: is_dist_def)
  moreover have "\<not> walk net (net_owner net d) i a" if "i < j" for i
    using walk_back [OF _ assms(1) d, of i a] assms(2) that ifs_owner [OF assms(3)] by (auto simp: is_dist_def)
  ultimately show ?thesis by (simp add: is_dist_def)
qed

lemma host_step_expires:
  assumes "ip4_ok ip4" and "intact ns ip4 q" and "hd_TTL (Header q) = 1" and "LocalIFs (ip_host w m) (hd_Dst (Header q)) = None"
    and "out_link net w m (hd_Src (Header q)) j e a i"
  defines "p \<equiv> CreateIPPacket ip4 a (hd_Src (Header q)) (icmp_bytes \<lparr>ic_Type = 11, ic_Code = 0, ic_Checksum = 0, ic_Identifier = 0, ic_SequenceNum = 0\<rparr>
      @ first_bytes 8 (Data q)) 1 16"
  assumes "computeChecksum ns ip4 p = Inr c"
  shows "host_step ns ip4 (ip_host w m) q = link_Send ip4 i (with_checksum c p)"
  using assms(3-5,7) intact_read [OF assms(2), of "ip_host w m"] assms(1) unfolding p_def
  by (simp add: host_step_def Let_def sendICMPTimeExceeded_def CheckRoute_def binary_Write_IPHeader_def ip4_ok_def out_link_def)

lemma probe_fields:
  "hd_Dst (Header (with_checksum c (probe_packet ip4 a d ttl))) = d" "hd_Src (Header (with_checksum c (probe_packet ip4 a d ttl))) = a"
  "hd_TTL (Header (with_checksum c (probe_packet ip4 a d ttl))) = ttl"
  by (simp_all add: probe_packet_def with_checksum_def CreateIPPacket_def)

text \<open>A probe that expires on its way is answered by the host it has reached.\<close>

lemma probe_expires:
  assumes "converged net k w" and "ip4_ok ip4" and "is_dist net n d (Suc j)" and "out_link net w n d j e a i" and "Suc j \<le> k" and "Suc j < 16"
    and "t < j" and "HandlerRegistry (ip_host w n) 1 = Some TracerouteProtocol" and "HandleRoute (tr n)"
  obtains c hop where "computeChecksum ns ip4 (probe_packet ip4 a d (int (Suc t))) = Inr c"
    and "trace_answer ns ip4 w tr n (link_Send ip4 i (with_checksum c (probe_packet ip4 a d (int (Suc t))))) = (n, [ToRouteChan (NextHopMsg False hop)])"
    and "is_dist net n hop (Suc t)"
proof -
  let ?p = "probe_packet ip4 a d (int (Suc t))"
  have ok: "net_ok net" "hosts_match net w" using assms(1) by (simp_all add: converged_def)
  obtain c where c: "computeChecksum ns ip4 ?p = Inr c" "intact ns ip4 (with_checksum c ?p)"
    using intact_made [OF assms(2) refl, of 1 "int (Suc t)" "icmp_bytes (fst CreateEchoPacket) @ snd CreateEchoPacket" ns a d] assms(6,7)
    unfolding probe_packet_def by (auto simp: CreateEchoPacket_def icmp_bytes_def)
  obtain m q where q: "reaches ns ip4 w (Suc t) (n, link_Send ip4 i (with_checksum c ?p)) m q" "same_packet (with_checksum c ?p) q t"
    "is_dist net m d (j - t)" "links_apart net n m (Suc t)"
    using sent_travels [OF assms(1,2) _ assms(5,6) c(2), of n e a i t] assms(4,7) by (auto simp: probe_fields)
  have f: "hd_Dst (Header q) = d" "hd_Src (Header q) = a" "hd_TTL (Header q) = 1" using q(2) by (simp_all add: same_packet_def probe_fields)
  note path = dist_on_path [OF ok(1) assms(3), of m "Suc t", simplified, OF q(3) _ q(4)]
  have home: "is_dist net m a (Suc t)" using path(1) out_link_ifs [OF assms(4)] assms(7) by simp
  obtain e' a' i' where o: "out_link net w m a t e' a' i'"
    by (rule out_link_exists [OF assms(1) home]) (use assms(5-7) in auto)
  let ?data = "icmp_bytes \<lparr>ic_Type = 11, ic_Code = 0, ic_Checksum = 0, ic_Identifier = 0, ic_SequenceNum = 0\<rparr> @ first_bytes 8 (Data q)"
  have n: "net_owner net a = n" using assms(4) by (simp add: out_link_def)
  obtain c' r where r: "computeChecksum ns ip4 (CreateIPPacket ip4 a' a ?data 1 16) = Inr c'"
    "carry_on ns ip4 w (31 - t) m (link_Send ip4 i' (with_checksum c' (CreateIPPacket ip4 a' a ?data 1 16))) = (n, [Deliver TracerouteProtocol r])"
    "Data r = ?data" "hd_Src (Header r) = a'"
    by (rule created_is_delivered [OF assms(1,2) o, of 1 16 ?data TracerouteProtocol "31 - t" ns a'])
      (use assms(5-8) in \<open>auto simp: n icmp_bytes_def first_bytes_def\<close>)
  have "d \<notin> net_ifs net m" using q(3) assms(7) walk_own [of d net m] by (auto simp: is_dist_def)
  then have "host_step ns ip4 (ip_host w m) q = link_Send ip4 i' (with_checksum c' (CreateIPPacket ip4 a' a ?data 1 16))"
    using host_step_expires [OF assms(2) _ f(3), of ns w m] q(1) o r(1) hosts_match_own [OF ok(2)] by (auto simp: f reaches_def)
  then have "carry_on ns ip4 w (Suc t + (31 - t)) n (link_Send ip4 i (with_checksum c ?p)) = (n, [Deliver TracerouteProtocol r])"
    using q(1) r(2) by (simp add: reaches_def)
  moreover have "Suc t + (31 - t) = 32" using assms(6,7) by simp
  moreover have "TracerouteReceivePacket (tr n) r = Inr [ToRouteChan (NextHopMsg False a')]"
    using r(3,4) assms(9) by (simp add: TracerouteReceivePacket_def SendToRouteChan_def icmp_bytes_def first_bytes_def)
  ultimately have "trace_answer ns ip4 w tr n (link_Send ip4 i (with_checksum c ?p)) = (n, [ToRouteChan (NextHopMsg False a')])"
    by (simp add: trace_answer_def icmp_at_def numeral_eq_Suc)
  moreover have "is_dist net n a' (Suc t)" using path(2) out_link_ifs [OF o] assms(7) by simp
  ultimately show ?thesis using that c(1) by blast
qed

text \<open>A probe that arrives is answered by an echo reply from the destination address.\<close>

lemma probe_arrives:
  assumes "converged net k w" and "ip4_ok ip4" and "is_dist net n d (Suc j)" and "out_link net w n d j e a i" and "Suc j \<le> k" and "Suc j < 16"
    and "\<forall>m. HandlerRegistry (ip_host w m) 1 = Some TracerouteProtocol"
  obtains c where "computeChecksum ns ip4 (probe_packet ip4 a d (int (Suc j))) = Inr c"
    and "trace_answer ns ip4 w tr n (link_Send ip4 i (with_checksum c (probe_packet ip4 a d (int (Suc j))))) = (n, [ToRouteChan (NextHopMsg True d)])"
proof -
  let ?p = "probe_packet ip4 a d (int (Suc j))" and ?m = "net_owner net d"
  have ok: "net_ok net" using assms(1) by (simp add: converged_def)
  have n: "net_owner net a = n" using assms(4) by (simp add: out_link_def)
  let ?echo = "icmp_bytes (fst CreateEchoPacket) @ snd CreateEchoPacket"
  obtain c q where q: "computeChecksum ns ip4 ?p = Inr c"
    "carry_on ns ip4 w 32 n (link_Send ip4 i (with_checksum c ?p)) = (?m, [Deliver TracerouteProtocol q])"
    "Data q = ?echo" "hd_Src (Header q) = a" "hd_Dst (Header q) = d"
    unfolding probe_packet_def
    by (rule created_is_delivered [OF assms(1,2,4), of 1 "int (Suc j)" ?echo TracerouteProtocol 32 ns a])
      (use assms(5-7) in \<open>auto simp: CreateEchoPacket_def icmp_bytes_def\<close>)
  obtain e' a' i' where o: "out_link net w ?m a j e' a' i'"
    using out_link_exists [OF assms(1) dist_sym [OF ok assms(3) out_link_ifs [OF assms(4)]] assms(5,6)] by blast
  let ?reply = "icmp_bytes \<lparr>ic_Type = 0, ic_Code = 0, ic_Checksum = 0, ic_Identifier = 0, ic_SequenceNum = 0\<rparr> @ replicate 64 0"
  obtain c' r where r: "computeChecksum ns ip4 (CreateIPPacket ip4 d a ?reply 1 TTL_MAX) = Inr c'"
    "carry_on ns ip4 w 32 ?m (link_Send ip4 i' (with_checksum c' (CreateIPPacket ip4 d a ?reply 1 TTL_MAX))) = (n, [Deliver TracerouteProtocol r])"
    "Data r = ?reply" "hd_Src (Header r) = d"
    by (rule created_is_delivered [OF assms(1,2) o, of 1 TTL_MAX ?reply TracerouteProtocol 32 ns d])
      (use assms(5-7) in \<open>auto simp: n icmp_bytes_def TTL_MAX_def\<close>)
  have "slice (Data q) 8 (length (Data q)) = Inr (snd CreateEchoPacket)" "hd (first_bytes 1 (Data q)) = 8"
    unfolding q(3) by (simp_all add: slice_ok icmp_bytes_def CreateEchoPacket_def first_bytes_def)
  moreover have "binary_Read_bytes (snd CreateEchoPacket) 64 = replicate 64 0"
    by (simp add: binary_Read_bytes_def CreateEchoPacket_def)
  ultimately have "TracerouteReceivePacket (tr ?m) q = Inr [ToEchoChan (be32 a @ be32 d @ ?reply)]"
    by (simp add: TracerouteReceivePacket_def q(4,5))
  then have "icmp_at ns ip4 w tr (?m, [Deliver TracerouteProtocol q])
      = (?m, link_Send ip4 i' (with_checksum c' (CreateIPPacket ip4 d a ?reply 1 TTL_MAX)))"
    by (simp add: icmp_at_def ReadEchoPacket_sends [OF o r(1)])
  moreover have "TracerouteReceivePacket (tr n) r = Inr [ToRouteChan (NextHopMsg True d)]"
    using r(3,4) by (simp add: TracerouteReceivePacket_def icmp_bytes_def first_bytes_def)
  ultimately have "trace_answer ns ip4 w tr n (link_Send ip4 i (with_checksum c ?p)) = (n, [ToRouteChan (NextHopMsg True d)])"
    unfolding trace_answer_def q(2) by (simp add: r(2)) (simp add: icmp_at_def)
  then show ?thesis using that q(1) by blast
qed

lemma probe_round:
  assumes "converged net k w" and "ip4_ok ip4" and "is_dist net n d (Suc j)" and "Suc j \<le> k" and "Suc j < 16" and "t \<le> j"
    and "\<forall>m. HandlerRegistry (ip_host w m) 1 = Some TracerouteProtocol" and "HandleRoute (tr n)"
  obtains hop where "trace_loop ns ip4 w tr n d (Suc f) (TraceTop (int (Suc t)) path)
      = (if t = j then TraceReturned (path @ [d]) else trace_loop ns ip4 w tr n d f (TraceTop (int (Suc (Suc t))) (path @ [hop])))"
    and "is_dist net n hop (Suc t)"
proof -
  obtain e a i where o: "out_link net w n d j e a i" by (rule out_link_exists [OF assms(1,3-5)])
  then have e: "HostRoutingTable (ip_host w n) d = Some e" by (simp add: out_link_def)
  have ttl: "int (Suc t) \<le> 16" using assms(5,6) by simp
  show ?thesis
  proof (cases "t = j")
    case True
    obtain c where "computeChecksum ns ip4 (probe_packet ip4 a d (int (Suc t))) = Inr c"
      "trace_answer ns ip4 w tr n (link_Send ip4 i (with_checksum c (probe_packet ip4 a d (int (Suc t))))) = (n, [ToRouteChan (NextHopMsg True d)])"
      unfolding True by (rule probe_arrives [OF assms(1-3) o assms(4,5,7)])
    then show ?thesis
      using that [of d] assms(3) True traceroute_probe_sends [OF o ttl] e by (cases f) (simp_all add: traceroute_reply_def)
  next
    case False
    then have "t < j" using assms(6) by simp
    then obtain c hop where "computeChecksum ns ip4 (probe_packet ip4 a d (int (Suc t))) = Inr c"
      "trace_answer ns ip4 w tr n (link_Send ip4 i (with_checksum c (probe_packet ip4 a d (int (Suc t))))) = (n, [ToRouteChan (NextHopMsg False hop)])"
      "is_dist net n hop (Suc t)"
      using probe_expires [OF assms(1-3) o assms(4,5), where t = t and tr = tr and ns = ns] assms(7,8) by metis
    then show ?thesis
      using that [of hop] False traceroute_probe_sends [OF o ttl] e by (simp add: traceroute_reply_def add.commute)
  qed
qed

lemma trace_loop_path:
  assumes "converged net k w" and "ip4_ok ip4" and "is_dist net n d (Suc j)" and "Suc j \<le> k" and "Suc j < 16"
    and "\<forall>m. HandlerRegistry (ip_host w m) 1 = Some TracerouteProtocol" and "HandleRoute (tr n)"
    and "t \<le> j" and "j - t < f" and "length path = t" and "\<forall>u < t. is_dist net n (path ! u) (Suc u)"
  shows "\<exists>hops. trace_loop ns ip4 w tr n d f (TraceTop (int (Suc t)) path) = TraceReturned hops \<and> length hops = Suc j
    \<and> last hops = d \<and> (\<forall>u \<le> j. is_dist net n (hops ! u) (Suc u))"
  using assms(8-11)
proof (induction "j - t" arbitrary: t f path)
  case 0
  then obtain f' where f: "f = Suc f'" by (cases f) auto
  have "trace_loop ns ip4 w tr n d f (TraceTop (int (Suc t)) path) = TraceReturned (path @ [d])"
    using probe_round [where tr = tr and f = f' and path = path, OF assms(1-5) 0(2) assms(6,7)] 0(1,2) unfolding f by (metis diff_is_0_eq le_antisym)
  then show ?case using 0 assms(3) by (auto simp: nth_append le_less less_Suc_eq)
next
  case (Suc x)
  then obtain f' where f: "f = Suc f'" by (cases f) auto
  have t: "t \<noteq> j" "Suc t \<le> j" "x = j - Suc t" using Suc(2) by auto
  obtain hop where h: "trace_loop ns ip4 w tr n d f (TraceTop (int (Suc t)) path) = trace_loop ns ip4 w tr n d f' (TraceTop (int (Suc (Suc t))) (path @ [hop]))"
    "is_dist net n hop (Suc t)"
    using probe_round [where tr = tr and f = f' and path = path, OF assms(1-5) Suc(3) assms(6,7)] t(1) unfolding f by metis
  have "\<forall>u < Suc t. is_dist net n ((path @ [hop]) ! u) (Suc u)" using Suc(5,6) h(2) by (auto simp: nth_append less_Suc_eq)
  moreover have "j - Suc t < f'" using Suc(4) t(2) f by simp
  ultimately show ?case unfolding h(1) using Suc(1) [OF t(3,2), of f' "path @ [hop]"] Suc(5) by simp
qed

section \<open>A line of three hosts\<close>

definition line_net :: rip_net where
  \<comment> \<open>host 0 with address 1, host 1 with addresses 2 and 3, host 2 with address 4; links 1-2 and 3-4\<close>
  "line_net = \<lparr>net_link = [1 \<mapsto> 2, 2 \<mapsto> 1, 3 \<mapsto> 4, 4 \<mapsto> 3],
     net_owner = (\<lambda>a. if a = 1 then 0 else if a = 2 \<or> a = 3 then 1 else 2),
     net_nbrs = (\<lambda>n. if n = 0 then [2] else if n = 1 then [1, 4] else if n = 2 then [3] else [])\<rparr>"

definition line_world :: "(nat \<Rightarrow> RoutingTable) \<Rightarrow> ip_net" where
  "line_world T = \<lparr>ip_host = (\<lambda>n. \<lparr>
       LocalIFs = (if n = 0 then [1 \<mapsto> sample_if 0 1 2 5001] else if n = 1 then [2 \<mapsto> sample_if 0 2 1 5000, 3 \<mapsto> sample_if 1 3 4 5002]
         else if n = 2 then [4 \<mapsto> sample_if 0 4 3 5001] else Map.empty),
       RemoteDestination = [2 \<mapsto> 1, 1 \<mapsto> 2, 4 \<mapsto> 3, 3 \<mapsto> 4], HostRoutingTable = T n,
       HandlerRegistry = [0 \<mapsto> TestProtocol, 1 \<mapsto> TracerouteProtocol, 6 \<mapsto> TCPProtocol, 200 \<mapsto> RipProtocol]\<rparr>),
     ip_port = (\<lambda>n. 5000 + int n), ip_at = (\<lambda>(_, p). nat (p - 5000))\<rparr>"

lemma line_net_ifs: "net_ifs line_net n = (if n = 0 then {1} else if n = 1 then {2, 3} else if n = 2 then {4} else {})"
  by (auto simp: net_ifs_def linked_def line_net_def split: if_splits)

lemma line_net_ok: "net_ok line_net"
  unfolding net_ok_def line_net_ifs by (auto simp: linked_def line_net_def split: if_splits)

lemma line_world_match: "hosts_match line_net (line_world T)"
  unfolding hosts_match_def line_net_ifs by (auto simp: line_world_def line_net_def split: if_splits)

lemma line_world_sel [simp]:
  "HostRoutingTable (ip_host (line_world T) n) = T n"
  "HandlerRegistry (ip_host (line_world T) n) = [0 \<mapsto> TestProtocol, 1 \<mapsto> TracerouteProtocol, 6 \<mapsto> TCPProtocol, 200 \<mapsto> RipProtocol]"
  by (simp_all add: line_world_def)

lemma line_dist: "is_dist line_net 0 4 2"
proof -
  have "walk line_net 2 0 4" by (simp add: walk_own line_net_ifs)
  then have "walk line_net 1 1 4" using walk_link [of 3 line_net 1 4 0 4] by (simp add: line_net_ifs) (simp add: line_net_def)
  then have "walk line_net 0 2 4" using walk_link [of 1 line_net 0 2 1 4] by (simp add: line_net_ifs numeral_2_eq_2) (simp add: line_net_def)
  moreover have "\<not> walk line_net 0 0 4" by (auto simp: line_net_ifs elim: walk_0E)
  moreover have "\<not> walk line_net 0 (Suc 0) 4"
    by (auto simp: line_net_ifs elim!: walk_0E walk_SucE) (auto simp: line_net_def)
  ultimately show ?thesis by (auto simp: is_dist_def less_2_cases_iff)
qed

lemma line_converges: "\<exists>T. converged line_net 2 (line_world T)"
  using rounds_exist [OF line_net_ok, of 2] line_net_ok line_world_match by (auto simp: converged_def)

section \<open>Properties\<close>

text \<open>
  C6. Hosts whose tables RIP has filled deliver packets: after \<open>k\<close> rounds of updates, \<open>SendPacket\<close> to an address at most \<open>k\<close> (and
  fewer than 16) links away puts a datagram on the wire that the hosts on the way forward, and that ends as one packet with the given data
  at the handler of the host that owns the address. The time to live is always enough, and nothing loops.
\<close>

theorem converged_hosts_deliver:
  assumes "ip4_ok ip4" and "converged net k w" and "is_dist net n d j" and "0 < j" and "j \<le> k" and "j < 16"
    and "length data \<le> 1380" and "HandlerRegistry (ip_host w (net_owner net d)) 0 = Some hl"
  shows "\<exists>fx q. SendPacket ns ip4 (ip_host w n) d protocol data = (None, fx)
    \<and> carry_on ns ip4 w 16 n fx = (net_owner net d, [Deliver hl q])
    \<and> Data q = data \<and> hd_Dst (Header q) = d \<and> hd_Src (Header q) \<in> net_ifs net n"
proof -
  obtain j' where j: "j = Suc j'" using assms(4) by (cases j) auto
  obtain e a i where o: "out_link net w n d j' e a i" using out_link_exists [OF assms(2) assms(3,5,6) [unfolded j]] by blast
  have ok: "net_ok net" "hosts_match net w" using assms(2) by (simp_all add: converged_def)
  have "NextHop e \<notin> net_ifs net n"
    using net_ok_irrefl [OF ok(1), of a "NextHop e"] o by (auto simp: out_link_def net_ifs_def)
  then have "LocalIFs (ip_host w n) (NextHop e) = None" using hosts_match_own [OF ok(2)] by simp
  moreover obtain c q where c: "computeChecksum ns ip4 (CreateIPPacket ip4 a d data 0 TTL_MAX) = Inr c"
    "carry_on ns ip4 w 16 n (link_Send ip4 i (with_checksum c (CreateIPPacket ip4 a d data 0 TTL_MAX))) = (net_owner net d, [Deliver hl q])"
    "Data q = data" "hd_Src (Header q) = a" "hd_Dst (Header q) = d"
    by (rule created_is_delivered [OF assms(2,1) o, of 0 TTL_MAX data hl 16 ns a])
      (use assms(5-8) in \<open>auto simp: j TTL_MAX_def\<close>)
  ultimately have "SendPacket ns ip4 (ip_host w n) d protocol data
      = (None, link_Send ip4 i (with_checksum c (CreateIPPacket ip4 a d data 0 TTL_MAX)))"
    using o by (simp add: SendPacket_def out_link_def CheckRoute_def Let_def)
  then show ?thesis using c(2-5) out_link_ifs [OF o] by auto
qed

theorem converged_hosts_deliver_witness:
  "\<exists>w fx q. converged line_net 2 w \<and> SendPacket rfc793 rfc791 (ip_host w 0) 4 0 [1, 2, 3] = (None, fx)
    \<and> carry_on rfc793 rfc791 w 16 0 fx = (2, [Deliver TestProtocol q]) \<and> Data q = [1, 2, 3]"
proof -
  obtain T where T: "converged line_net 2 (line_world T)" using line_converges by blast
  have "net_owner line_net 4 = 2" by (simp add: line_net_def)
  then show ?thesis
    using converged_hosts_deliver [OF rfc791_ok T line_dist, of "[1, 2, 3]" TestProtocol rfc793 0] T by auto
qed

text \<open>
  C9. A TCP segment crosses a network whose tables have converged and whose links lose nothing. The buffer that a TCP handler gives to its
  host, for a destination 1 to 15 links away and with a payload of at most 1360 bytes (the maximum segment size), leaves as a packet, is
  forwarded by the hosts on the way, and is handed to the TCP handler of the host that owns the destination address. That handler accepts the
  checksum and dispatches the segment, with the header and the payload the sender built, to the connection of the two ports, or to the
  listener if there is none. Segments to the host's own addresses and to addresses without a route are outside the statement: the host
  drops the former, and \<open>ReadFromHandler\<close> returns at the latter.
\<close>

theorem segment_crosses_network:
  fixes src sq ak wnd :: u32 and sp dp :: u16 and fl :: u8 and payload :: "byte list"
  assumes "ip4_ok ip4" and "netstack_ok ns" and "converged net k w" and "is_dist net n dst j" and "0 < j" and "j \<le> k" and "j < 16"
    and "HandlerRegistry (ip_host w (net_owner net dst)) 6 = Some TCPProtocol" and "length payload \<le> 1360"
  defines "hdr \<equiv> CreateTCPHeader ns src dst sp dp sq ak fl wnd payload"
  shows "\<exists>fx q. handler_tcp_message ns ip4 (ip_host w n) (ip_message ns src dst hdr payload) = Inr (fx, True)
    \<and> carry_on ns ip4 w 16 n fx = (net_owner net dst, [Deliver TCPProtocol q])
    \<and> ReceivePacket ns now iss (Data q) (hd_Dst (Header q)) (hd_Src (Header q)) t =
       (let key = socket_key t dst dp src sp
        in case SocketTable t key of None \<Rightarrow> Inr (t, []) | Some tcb \<Rightarrow> dispatch ns now iss hdr payload dst dp src sp key tcb t)"
proof -
  obtain j' where j: "j = Suc j'" using assms(5) by (cases j) auto
  obtain e a i where o: "out_link net w n dst j' e a i" using out_link_exists [OF assms(3) assms(4,6,7) [unfolded j]] by blast
  let ?data = "MarshallTCPHeader ns hdr dst @ payload"
  have l: "length ?data \<le> 1380" using assms(2,9) by (simp add: netstack_ok_def MarshallTCPHeader_def)
  obtain c q where c: "computeChecksum ns ip4 (CreateIPPacket ip4 src dst ?data 6 16) = Inr c"
    "carry_on ns ip4 w 16 n (link_Send ip4 i (with_checksum c (CreateIPPacket ip4 src dst ?data 6 16))) = (net_owner net dst, [Deliver TCPProtocol q])"
    "Data q = ?data" "hd_Src (Header q) = src" "hd_Dst (Header q) = dst"
    by (rule created_is_delivered [OF assms(3,1) o, of 6 16 ?data TCPProtocol 16 ns src]) (use assms(6-8) l in \<open>auto simp: j\<close>)
  have "handler_tcp_message ns ip4 (ip_host w n) (ip_message ns src dst hdr payload)
      = Inr (link_Send ip4 i (with_checksum c (CreateIPPacket ip4 src dst ?data 6 16)), True)"
    unfolding ip_message_def by (rule handler_tcp_message_sends [OF o c(1)])
  then show ?thesis
    using c(2) ReceivePacket_built [OF assms(2), of now iss src dst sp dp sq ak fl wnd payload t, folded hdr_def]
    by (intro exI [of _ "link_Send ip4 i (with_checksum c (CreateIPPacket ip4 src dst ?data 6 16))"] exI [of _ q]) (simp add: c(3-5) Let_def)
qed

theorem segment_crosses_network_witness:
  "\<exists>w fx q. converged line_net 2 w \<and> handler_tcp_message rfc793 rfc791 (ip_host w 0)
      (ip_message rfc793 1 4 (CreateTCPHeader rfc793 1 4 1024 80 7 0 2 65535 []) []) = Inr (fx, True)
    \<and> carry_on rfc793 rfc791 w 16 0 fx = (2, [Deliver TCPProtocol q])"
proof -
  obtain T where T: "converged line_net 2 (line_world T)" using line_converges by blast
  have "net_owner line_net 4 = 2" by (simp add: line_net_def)
  then show ?thesis
    using segment_crosses_network [OF rfc791_ok netstack_ok_rfc793 T line_dist, of "[]" 1 1024 80 7 0 2 65535] T
    by simp blast
qed

text \<open>
  C8. Traceroute finds a shortest path. In a network that has converged, \<open>SendTraceroutePacket\<close> to an address \<open>j\<close> links away returns
  a path of \<open>j\<close> addresses: the one at position \<open>i\<close> belongs to a host exactly \<open>i\<close> links away, and the last is the destination. Each
  of the first \<open>j - 1\<close> probes expires at the host it has reached, whose ICMP message finds its way back, and the last one is answered
  by an echo reply.
\<close>

theorem traceroute_finds_path:
  assumes "ip4_ok ip4" and "converged net k w" and "is_dist net n d j" and "0 < j" and "j \<le> k" and "j < 16"
    and "\<forall>m. HandlerRegistry (ip_host w m) 1 = Some TracerouteProtocol"
  shows "\<exists>path. run_traceroute ns ip4 w tr n d = TraceReturned path \<and> length path = j \<and> last path = d
    \<and> (\<forall>i < j. is_dist net n (path ! i) (Suc i))"
proof -
  obtain j' where j: "j = Suc j'" using assms(4) by (cases j) auto
  obtain e a i where o: "out_link net w n d j' e a i" using out_link_exists [OF assms(2) assms(3,5,6) [unfolded j]] by blast
  then have s: "traceroute_start (ip_host w n) d (tr n) = (TraceTop 1 [], AddChanRoutine (tr n))"
    by (simp add: traceroute_start_def CheckRoute_def out_link_def)
  have "HandleRoute ((tr(n := AddChanRoutine (tr n))) n)" by (simp add: AddChanRoutine_def)
  then show ?thesis
    using trace_loop_path [OF assms(2,1) assms(3,5,6) [unfolded j] assms(7), of "tr(n := AddChanRoutine (tr n))" 0 16 "[]" ns] assms(6)
    by (simp add: run_traceroute_def s j less_Suc_eq_le del: fun_upd_apply)
qed

theorem traceroute_finds_path_witness:
  "\<exists>w path. converged line_net 2 w \<and> run_traceroute rfc793 rfc791 w (\<lambda>_. \<lparr>HandleRoute = False\<rparr>) 0 4 = TraceReturned path
    \<and> length path = 2 \<and> last path = 4 \<and> is_dist line_net 0 (path ! 0) 1"
proof -
  obtain T where T: "converged line_net 2 (line_world T)" using line_converges by blast
  show ?thesis
    using traceroute_finds_path [OF rfc791_ok T line_dist, of rfc793 "\<lambda>_. \<lparr>HandleRoute = False\<rparr>"] T by fastforce
qed

text \<open>
  C12. The routing updates that the network of RIP handlers exchanges are what the hosts carry, while the sender's table has at most 114
  entries, which is as many as the receiver's buffer of 1400 bytes holds: for every such exchange over a link, a
  periodic update of the sender, given to its host, leaves as a packet that the neighbour's host delivers to its RIP handler, and
  receiving that packet, its source address taken as the next hop, changes the neighbour's table as the exchange says.
\<close>

theorem updates_are_carried:
  assumes "ip4_ok ip4" and "net_ok net" and "hosts_match net w" and "exchange net a (\<lambda>n. HostRoutingTable (ip_host w n)) T'"
    and "\<forall>m. HandlerRegistry (ip_host w m) 200 = Some RipProtocol" and "card (dom (HostRoutingTable (ip_host w (net_owner net a)))) \<le> 114"
  shows "\<exists>b order msg fx q table rfx. net_link net a = Some b
    \<and> distinct order \<and> set order = dom (HostRoutingTable (ip_host w (net_owner net a)))
    \<and> ToHost msg \<in> set (periodic_update (net_handler net (net_owner net a)) order (HostRoutingTable (ip_host w (net_owner net a))))
    \<and> handler_rip_message ip4 (ip_host w (net_owner net a)) msg = Inr fx
    \<and> carry_on ns ip4 w 1 (net_owner net a) (concat (map (run_effect ns ip4 (ip_host w (net_owner net a))) fx)) = (net_owner net b, [Deliver RipProtocol q])
    \<and> RipReceivePacket (net_handler net (net_owner net b)) (hd_Src (Header q)) (Data q) (HostRoutingTable (ip_host w (net_owner net b))) = Inr (table, rfx)
    \<and> T' = (\<lambda>n. HostRoutingTable (ip_host w n))(net_owner net b := table)"
  using assms(4)
proof (cases rule: exchange.cases)
  case (1 n b order msg table rfx)
  let ?h = "ip_host w (net_owner net a)"
  obtain nb where nb: "msg = entries_message nb 2 (GetSpecificEntries order (HostRoutingTable ?h) nb)"
    using 1(2,6) by (auto simp: periodic_update_def)
  then have msg: "msg = be32 b @ drop 4 msg" using 1(7) by (simp add: entries_message_def rip_message_def)
  have "length order \<le> 114" using assms(6) 1(2,4,5) distinct_card [OF 1(4)] by simp
  then have "length (GetSpecificEntries order (HostRoutingTable ?h) nb) \<le> 114"
    by (simp add: GetSpecificEntries_map order.trans [OF length_filter_le])
  then have l: "length (drop 4 msg) \<le> 1380"
    unfolding nb by (simp add: entries_message_def rip_message_def length_concat comp_def entry_bytes_def sum_list_triv)
  then have whole: "datagram_payload (drop 4 msg) = drop 4 msg" by (simp add: datagram_payload_def)
  let ?p = "CreateIPPacket ip4 a b (drop 4 msg) 200 16"
  obtain c where c: "computeChecksum ns ip4 ?p = Inr c" "intact ns ip4 (with_checksum c ?p)"
    using intact_made [OF assms(1) refl _ _ _ _ l, of 200 16 ns a b] by auto
  obtain i addr where i: "LocalIFs ?h a = Some i" "RemoteDestination ?h b = Some a" by (rule hosts_match_link [OF assms(3) 1(3)])
  have fx: "handler_rip_message ip4 ?h msg = Inr [GoSendToNeighbor b ?p]"
    using handler_rip_message_sends [OF i(2), of ip4 "drop 4 msg"] unfolding msg [symmetric] by (simp add: RIP_PROTOCOL_def TTL_MAX_def)
  have sent: "concat (map (run_effect ns ip4 ?h) [GoSendToNeighbor b ?p]) = link_Send ip4 i (with_checksum c ?p)"
    using c(1) i by (simp add: SendToNeighbor_def send_on_def)
  have r: "reaches ns ip4 w 1 (net_owner net a, link_Send ip4 i (with_checksum c ?p)) (net_owner net b) (with_checksum c ?p)"
    by (rule reaches_link [OF assms(2,3,1) 1(3) refl i(1) c(2)])
  have "is_dist net (net_owner net b) b 0" using link_ifs [OF net_ok_sym [OF assms(2) 1(3)]] by (simp add: is_dist_def walk_own)
  then obtain q where "carry_on ns ip4 w 1 (net_owner net a) (link_Send ip4 i (with_checksum c ?p)) = (net_owner net b, [Deliver RipProtocol q])"
    "hd_Src (Header q) = a" "Data q = drop 4 msg"
    using reaches_delivers [OF assms(3) r, of RipProtocol 0] assms(5) by (simp add: with_checksum_def CreateIPPacket_def)
  then show ?thesis using 1 [unfolded whole] fx sent by (intro exI conjI) (assumption | simp)+
qed

theorem updates_are_carried_witness:
  "\<exists>T' msg fx q. exchange line_net 4 (net_init line_net) T' \<and> handler_rip_message rfc791 (ip_host (line_world (net_init line_net)) 2) msg = Inr fx
    \<and> carry_on rfc793 rfc791 (line_world (net_init line_net)) 1 2
        (concat (map (run_effect rfc793 rfc791 (ip_host (line_world (net_init line_net)) 2)) fx)) = (1, [Deliver RipProtocol q])"
proof -
  let ?T = "net_init line_net"
  have n: "net_link line_net 4 = Some 3" "net_owner line_net 4 = 2" "net_owner line_net 3 = 1" by (simp_all add: line_net_def)
  obtain T' where T': "exchange line_net 4 ?T T'" using exchange_exists [OF line_net_ok _ n(1), of ?T] init_real by blast
  have "dom (?T 2) = {4}" by (simp add: net_init_def InitRoutingTable_def line_net_ifs dom_def)
  then show ?thesis
    using updates_are_carried [OF rfc791_ok line_net_ok line_world_match, of 4 ?T T' rfc793] T' n by auto
qed

end
