(* ===== verification/GoText.thy ===== *)
theory GoText
  imports Prelude
begin

text \<open>
  The functions of Go's library that the command line and the configuration reader of
  \<open>src/cmd/node\<close> use on text: \<open>strings.Split\<close> and \<open>strings.SplitN\<close> at single spaces,
  \<open>strconv.Atoi\<close>, \<open>net.ParseIP\<close>, \<open>IP.To4\<close> and \<open>IP.String\<close>, and the decimal format of \<open>fmt\<close>. A string is its list
  of bytes. Addresses and numbers that are printed are read back.
\<close>

section \<open>Splitting at spaces\<close>

definition space :: char where "space = CHR '' ''"

definition newline :: string where "newline = [CHR 0x0A]"

definition tab :: string where "tab = [CHR 0x09]"

fun Split :: "string \<Rightarrow> string list" where
  \<comment> \<open>\<open>strings.Split(s, " ")\<close>\<close>
  "Split [] = [[]]"
| "Split (c # cs) =
     (if c = space then [] # Split cs
      else case Split cs of [] \<Rightarrow> [[c]] | w # ws \<Rightarrow> (c # w) # ws)"

fun SplitN :: "string \<Rightarrow> nat \<Rightarrow> string list" where
  \<comment> \<open>\<open>strings.SplitN(s, " ", n)\<close>: at most \<open>n\<close> parts, the last one not split\<close>
  "SplitN s 0 = []"
| "SplitN s (Suc 0) = [s]"
| "SplitN s (Suc n) =
     (case dropWhile (\<lambda>c. c \<noteq> space) s of
        [] \<Rightarrow> [s]
      | _ # rest \<Rightarrow> takeWhile (\<lambda>c. c \<noteq> space) s # SplitN rest n)"

section \<open>Decimal numbers\<close>

definition is_digit :: "char \<Rightarrow> bool" where
  "is_digit c \<longleftrightarrow> 48 \<le> (of_char c :: nat) \<and> (of_char c :: nat) \<le> 57"

definition digit_val :: "char \<Rightarrow> nat" where
  "digit_val c = of_char c - 48"

fun itoa :: "nat \<Rightarrow> string" where
  \<comment> \<open>the decimal digits of a number, as \<open>%d\<close> prints them\<close>
  "itoa n = (if n < 10 then [char_of (48 + n)] else itoa (n div 10) @ [char_of (48 + n mod 10)])"

declare itoa.simps [simp del]

definition fmt_int :: "int \<Rightarrow> string" where
  "fmt_int i = (if i < 0 then CHR ''-'' # itoa (nat (- i)) else itoa (nat i))"

datatype num_error = ErrSyntax | ErrRange

fun ParseUint :: "nat \<Rightarrow> string \<Rightarrow> num_error + nat" where
  \<comment> \<open>the loop of \<open>strconv.ParseUint\<close> in base 10 with 64 bits: a number that is too large is reported before what follows is read\<close>
  "ParseUint n [] = Inr n"
| "ParseUint n (c # cs) =
     (if \<not> is_digit c then Inl ErrSyntax
      else if n * 10 + digit_val c \<ge> 2 ^ 64 then Inl ErrRange
      else ParseUint (n * 10 + digit_val c) cs)"

definition Atoi :: "string \<Rightarrow> int \<times> num_error option" where
  \<comment> \<open>the value and the error: 0 for bad syntax, the nearest \<open>int\<close> for a number out of range\<close>
  "Atoi s =
     (let (neg, ds) = (case s of [] \<Rightarrow> (False, s)
            | c # cs \<Rightarrow> if c = CHR ''-'' then (True, cs) else if c = CHR ''+'' then (False, cs) else (False, s))
      in if ds = [] then (0, Some ErrSyntax)
         else case ParseUint 0 ds of
           Inl ErrSyntax \<Rightarrow> (0, Some ErrSyntax)
         | Inl ErrRange \<Rightarrow> (if neg then - (2 ^ 63) else 2 ^ 63 - 1, Some ErrRange)
         | Inr n \<Rightarrow>
             if \<not> neg \<and> n \<ge> 2 ^ 63 then (2 ^ 63 - 1, Some ErrRange)
             else if neg \<and> n > 2 ^ 63 then (- (2 ^ 63), Some ErrRange)
             else (if neg then - int n else int n, None))"

section \<open>Internet addresses\<close>

definition digits_val :: "nat \<Rightarrow> (char \<Rightarrow> nat) \<Rightarrow> string \<Rightarrow> nat" where
  "digits_val base val ds = foldl (\<lambda>n c. n * base + val c) 0 ds"

definition dtoi :: "string \<Rightarrow> (nat \<times> nat \<times> string) option" where
  \<comment> \<open>a decimal number at the start of \<open>s\<close> below \<open>0xFFFFFF\<close>: its value, its length and what follows\<close>
  "dtoi s =
     (let ds = takeWhile is_digit s; n = digits_val 10 digit_val ds
      in if ds = [] \<or> n \<ge> 0xFFFFFF then None else Some (n, length ds, dropWhile is_digit s))"

fun parseIPv4_fields :: "nat \<Rightarrow> bool \<Rightarrow> string \<Rightarrow> byte list option" where
  \<comment> \<open>\<open>k\<close> more fields, each but the first after a dot; a field has no leading zero\<close>
  "parseIPv4_fields 0 first s = (if s = [] then Some [] else None)"
| "parseIPv4_fields (Suc k) first s =
     (if s = [] \<or> (\<not> first \<and> hd s \<noteq> CHR ''.'') then None
      else let s1 = (if first then s else tl s)
        in case dtoi s1 of None \<Rightarrow> None
           | Some (n, c, rest) \<Rightarrow>
               if n > 0xFF \<or> (c > 1 \<and> hd s1 = CHR ''0'') then None
               else map_option (\<lambda>bs. of_nat n # bs) (parseIPv4_fields k False rest))"

definition v4_prefix :: "byte list" where
  "v4_prefix = replicate 10 0 @ [0xFF, 0xFF]"

definition parseIPv4 :: "string \<Rightarrow> byte list option" where
  "parseIPv4 s = map_option (\<lambda>bs. v4_prefix @ bs) (parseIPv4_fields 4 True s)"

definition hex_val :: "char \<Rightarrow> nat option" where
  "hex_val c =
     (let n = of_char c
      in if 48 \<le> n \<and> n \<le> 57 then Some (n - 48)
         else if 97 \<le> n \<and> n \<le> 102 then Some (n - 97 + 10)
         else if 65 \<le> n \<and> n \<le> 70 then Some (n - 65 + 10)
         else None)"

definition xtoi :: "string \<Rightarrow> (nat \<times> string) option" where
  "xtoi s =
     (let ds = takeWhile (\<lambda>c. hex_val c \<noteq> None) s; n = digits_val 16 (\<lambda>c. the (hex_val c)) ds
      in if ds = [] \<or> n \<ge> 0xFFFFFF then None else Some (n, dropWhile (\<lambda>c. hex_val c \<noteq> None) s))"

fun parseIPv6_loop :: "nat \<Rightarrow> string \<Rightarrow> byte list \<Rightarrow> nat option \<Rightarrow> (byte list \<times> nat option) option" where
  \<comment> \<open>\<open>k\<close> more groups of 16 bits; \<open>ip\<close> holds the bytes read, \<open>ellipsis\<close> the place of \<open>::\<close>\<close>
  "parseIPv6_loop 0 s ip ellipsis = (if s = [] then Some (ip, ellipsis) else None)"
| "parseIPv6_loop (Suc k) s ip ellipsis =
     (case xtoi s of None \<Rightarrow> None
      | Some (n, rest) \<Rightarrow>
          if n > 0xFFFF then None
          else if rest \<noteq> [] \<and> hd rest = CHR ''.''
          then if ellipsis = None \<and> length ip \<noteq> 12 then None
            else if length ip + 4 > 16 then None
            else map_option (\<lambda>ip4. (ip @ drop 12 ip4, ellipsis)) (parseIPv4 s)
          else let ip1 = ip @ [of_nat (n div 256), of_nat n]
            in if rest = [] then Some (ip1, ellipsis)
               else if hd rest \<noteq> CHR '':'' \<or> length rest = 1 then None
               else let s1 = tl rest
                 in if hd s1 = CHR '':''
                    then if ellipsis \<noteq> None then None
                      else if tl s1 = [] then Some (ip1, Some (length ip1))
                      else parseIPv6_loop k (tl s1) ip1 (Some (length ip1))
                    else parseIPv6_loop k s1 ip1 ellipsis)"

definition parseIPv6 :: "string \<Rightarrow> byte list option" where
  "parseIPv6 s =
     (let lead = (length s \<ge> 2 \<and> take 2 s = ''::''); s1 = (if lead then drop 2 s else s)
      in if lead \<and> s1 = [] then Some (replicate 16 0)
         else case parseIPv6_loop 8 s1 [] (if lead then Some 0 else None) of
           None \<Rightarrow> None
         | Some (ip, ellipsis) \<Rightarrow>
             (case ellipsis of
                None \<Rightarrow> if length ip < 16 then None else Some ip
              | Some e \<Rightarrow> if length ip < 16 then Some (take e ip @ replicate (16 - length ip) 0 @ drop e ip) else None))"

definition ParseIP :: "string \<Rightarrow> byte list option" where
  \<comment> \<open>the 16 bytes of the address, none for \<open>nil\<close>\<close>
  "ParseIP s =
     (case dropWhile (\<lambda>c. c \<noteq> CHR ''.'' \<and> c \<noteq> CHR '':'') s of
        [] \<Rightarrow> None
      | c # _ \<Rightarrow> if c = CHR ''.'' then parseIPv4 s else parseIPv6 s)"

definition To4 :: "byte list \<Rightarrow> byte list option" where
  "To4 ip = (if length ip = 16 \<and> take 12 ip = v4_prefix then Some (drop 12 ip) else None)"

definition IPv4_String :: "byte list \<Rightarrow> string" where
  \<comment> \<open>\<open>IP.String\<close> of the four bytes of an IPv4 address\<close>
  "IPv4_String bs = concat (case map (\<lambda>b. itoa (unat b)) bs of [] \<Rightarrow> [] | f # fs \<Rightarrow> f # map (\<lambda>g. CHR ''.'' # g) fs)"

section \<open>Printed numbers are read back\<close>

lemma of_char_digit: "(n :: nat) < 10 \<Longrightarrow> (of_char (char_of (48 + n) :: char) :: nat) = 48 + n"
  by (simp add: of_char_of)

lemma is_digit_char_of: "(n :: nat) < 10 \<Longrightarrow> is_digit (char_of (48 + n))"
  by (simp add: is_digit_def of_char_digit)

lemma digit_val_char_of: "(n :: nat) < 10 \<Longrightarrow> digit_val (char_of (48 + n)) = n"
  by (simp add: digit_val_def of_char_digit)

lemma itoa_not_Nil [simp]: "itoa n \<noteq> []"
  by (subst itoa.simps) simp

lemma itoa_digits: "c \<in> set (itoa n) \<Longrightarrow> is_digit c"
proof (induction n rule: itoa.induct)
  case (1 n)
  then show ?case by (subst (asm) (2) itoa.simps) (auto simp: is_digit_char_of split: if_splits)
qed

lemma digits_val_snoc: "digits_val b f (ds @ [c]) = digits_val b f ds * b + f c"
  by (simp add: digits_val_def)

lemma digits_val_itoa: "digits_val 10 digit_val (itoa n) = n"
proof (induction n rule: itoa.induct)
  case (1 n)
  show ?case
  proof (cases "n < 10")
    case True
    then show ?thesis by (subst itoa.simps) (simp add: digits_val_def digit_val_char_of)
  next
    case False
    then show ?thesis by (subst itoa.simps) (simp add: digits_val_snoc digit_val_char_of 1)
  qed
qed

lemma ParseUint_digits:
  assumes "\<forall>c \<in> set ds. is_digit c" and "foldl (\<lambda>n c. n * 10 + digit_val c) n ds < 2 ^ 64"
  shows "ParseUint n ds = Inr (foldl (\<lambda>n c. n * 10 + digit_val c) n ds)"
  using assms
proof (induction ds arbitrary: n)
  case (Cons c cs)
  have "m \<le> foldl (\<lambda>n c. n * 10 + digit_val c) m cs" for m
  proof (induction cs arbitrary: m)
    case (Cons d ds)
    have "m \<le> m * 10 + digit_val d" by simp
    also have "\<dots> \<le> foldl (\<lambda>n c. n * 10 + digit_val c) (m * 10 + digit_val d) ds" by (rule Cons)
    finally show ?case by simp
  qed simp
  from this [of "n * 10 + digit_val c"] have "n * 10 + digit_val c < 2 ^ 64"
    using Cons.prems(2) by simp
  then show ?case using Cons by simp
qed simp

lemma Atoi_itoa [simp]: "n < 2 ^ 63 \<Longrightarrow> Atoi (itoa n) = (int n, None)"
proof -
  assume n: "n < 2 ^ 63"
  obtain c cs where i: "itoa n = c # cs" by (cases "itoa n") auto
  then have "is_digit c" using itoa_digits [of c n] by simp
  then have c: "c \<noteq> CHR ''-''" "c \<noteq> CHR ''+''" by (auto simp: is_digit_def)
  have "ParseUint 0 (itoa n) = Inr n"
    using ParseUint_digits [of "itoa n" 0] itoa_digits [of _ n] digits_val_itoa [of n] n by (simp add: digits_val_def)
  then show ?thesis using i c n by (simp add: Atoi_def)
qed

section \<open>Printed addresses are read back\<close>

lemma itoa_leading_zero: "hd (itoa n) = CHR ''0'' \<Longrightarrow> length (itoa n) = 1"
proof (induction n rule: itoa.induct)
  case (1 n)
  show ?case
  proof (cases "n < 10")
    case True
    then show ?thesis by (subst itoa.simps) simp
  next
    case False
    then have e: "itoa n = itoa (n div 10) @ [char_of (48 + n mod 10)]" by (subst itoa.simps) simp
    then have h: "hd (itoa (n div 10)) = CHR ''0''" using 1(2) by simp
    have "length (itoa (n div 10)) = 1" using 1(1) False h by simp
    then have "itoa (n div 10) = [CHR ''0'']" using h by (cases "itoa (n div 10)") auto
    then have "n div 10 = 0" using digits_val_itoa [of "n div 10"] by (simp add: digits_val_def digit_val_def)
    then show ?thesis using False by simp
  qed
qed

lemma takeWhile_digits:
  assumes "\<forall>c \<in> set ds. is_digit c" and "rest = [] \<or> \<not> is_digit (hd rest)"
  shows "takeWhile is_digit (ds @ rest) = ds" "dropWhile is_digit (ds @ rest) = rest"
  using assms by (induction ds) (auto simp: takeWhile_eq_Nil_iff dropWhile_eq_self_iff)

lemma dtoi_itoa:
  assumes "n < 0xFFFFFF" and "rest = [] \<or> \<not> is_digit (hd rest)"
  shows "dtoi (itoa n @ rest) = Some (n, length (itoa n), rest)"
  using assms takeWhile_digits [of "itoa n" rest] itoa_digits [of _ n]
  by (simp add: dtoi_def digits_val_itoa Let_def)

lemma parseIPv4_fields_first:
  assumes "n \<le> 0xFF" and "rest = [] \<or> \<not> is_digit (hd rest)"
  shows "parseIPv4_fields (Suc k) True (itoa n @ rest) = map_option (\<lambda>bs. of_nat n # bs) (parseIPv4_fields k False rest)"
  using assms dtoi_itoa [of n rest] itoa_leading_zero [of n] by auto

lemma parseIPv4_fields_next:
  assumes "n \<le> 0xFF" and "rest = [] \<or> \<not> is_digit (hd rest)"
  shows "parseIPv4_fields (Suc k) False (CHR ''.'' # itoa n @ rest) = map_option (\<lambda>bs. of_nat n # bs) (parseIPv4_fields k False rest)"
  using assms dtoi_itoa [of n rest] itoa_leading_zero [of n] by auto

lemma dropWhile_itoa_dot:
  "dropWhile (\<lambda>c. c \<noteq> CHR ''.'' \<and> c \<noteq> CHR '':'') (itoa n @ CHR ''.'' # rest) = CHR ''.'' # rest"
proof -
  have "\<forall>c \<in> set (itoa n). c \<noteq> CHR ''.'' \<and> c \<noteq> CHR '':''" using itoa_digits [of _ n] by (force simp: is_digit_def)
  then show ?thesis by (simp add: dropWhile_append2)
qed

lemma ParseIP_String:
  fixes a b c d :: byte
  shows "ParseIP (IPv4_String [a, b, c, d]) = Some (v4_prefix @ [a, b, c, d])"
proof -
  have lim: "unat x \<le> 0xFF" for x :: byte using unsigned_less [of x, where ?'a = nat] by simp
  have four: "(4 :: nat) = Suc (Suc (Suc (Suc 0)))" by simp
  have dot: "\<not> is_digit (CHR ''.'')" by (simp add: is_digit_def)
  have s: "IPv4_String [a, b, c, d] = itoa (unat a) @ CHR ''.'' # itoa (unat b) @ CHR ''.'' # itoa (unat c) @ CHR ''.'' # itoa (unat d) @ []"
    by (simp add: IPv4_String_def)
  have "parseIPv4_fields 4 True (IPv4_String [a, b, c, d]) = Some [a, b, c, d]"
    unfolding s four
    by (simp only: parseIPv4_fields_first parseIPv4_fields_next lim dot list.sel(1) not_False_eq_True disj_absorb simp_thms
        parseIPv4_fields.simps(1) option.map of_nat_unat ucast_id if_True)
  then show ?thesis unfolding ParseIP_def parseIPv4_def s by (simp add: dropWhile_itoa_dot)
qed

lemma To4_mapped [simp]: "length bs = 4 \<Longrightarrow> To4 (v4_prefix @ bs) = Some bs"
  by (simp add: To4_def v4_prefix_def)

section \<open>Words of a line\<close>

fun join_words :: "string list \<Rightarrow> string" where
  "join_words [] = []"
| "join_words [w] = w"
| "join_words (w # ws) = w @ space # join_words ws"

lemma Split_word: "space \<notin> set w \<Longrightarrow> Split w = [w]"
  by (induction w) auto

lemma Split_append: "space \<notin> set w \<Longrightarrow> Split (w @ space # s) = w # Split s"
  by (induction w) auto

lemma Split_join_words:
  assumes "ws \<noteq> []" and "\<forall>w \<in> set ws. space \<notin> set w"
  shows "Split (join_words ws) = ws"
  using assms by (induction ws rule: join_words.induct) (auto simp: Split_word Split_append)

lemma Split_not_Nil [simp]: "Split s \<noteq> []"
  by (induction s) (auto split: list.split)

lemma takeWhile_no_space:
  assumes "space \<notin> set w"
  shows "takeWhile (\<lambda>c. c \<noteq> space) (w @ space # s) = w" "dropWhile (\<lambda>c. c \<noteq> space) (w @ space # s) = space # s"
  using assms by (induction w) auto

lemma SplitN_append: "space \<notin> set w \<Longrightarrow> 0 < n \<Longrightarrow> SplitN (w @ space # s) (Suc n) = w # SplitN s n"
  by (cases n) (simp_all add: takeWhile_no_space)

lemma Split_first_space:
  assumes "dropWhile (\<lambda>c. c \<noteq> space) s = c # rest"
  shows "Split s = takeWhile (\<lambda>c. c \<noteq> space) s # Split rest"
proof -
  have "c = space" using assms hd_dropWhile [of "\<lambda>c. c \<noteq> space" s] by simp
  moreover have "space \<notin> set (takeWhile (\<lambda>c. c \<noteq> space) s)" by (auto dest: set_takeWhileD)
  ultimately show ?thesis
    using assms Split_append [of "takeWhile (\<lambda>c. c \<noteq> space) s" rest] takeWhile_dropWhile_id [of "\<lambda>c. c \<noteq> space" s] by simp
qed

lemma Split_no_space:
  assumes "dropWhile (\<lambda>c. c \<noteq> space) s = []"
  shows "Split s = [s]"
  using assms by (intro Split_word) (auto simp: dropWhile_eq_Nil_conv)

lemma SplitN_length: "n \<le> length (Split s) \<Longrightarrow> length (SplitN s n) = n"
proof (induction s n rule: SplitN.induct)
  case (3 s n)
  then show ?case
    by (cases "dropWhile (\<lambda>c. c \<noteq> space) s") (simp_all add: Split_first_space Split_no_space del: dropWhile_eq_Nil_conv)
qed simp_all

lemma SplitN_nth: "Suc i < n \<Longrightarrow> i < length (Split s) \<Longrightarrow> SplitN s n ! i = Split s ! i"
proof (induction s n arbitrary: i rule: SplitN.induct)
  case (3 s n)
  then show ?case
    by (cases "dropWhile (\<lambda>c. c \<noteq> space) s"; cases i) (simp_all add: Split_first_space Split_no_space del: dropWhile_eq_Nil_conv)
qed simp_all

lemma IPv4_String_no_space: "space \<notin> set (IPv4_String bs)"
  using itoa_digits [of space] by (auto simp: IPv4_String_def space_def is_digit_def split: list.splits)

lemma itoa_no_space: "space \<notin> set (itoa n)"
  using itoa_digits [of space n] by (auto simp: space_def is_digit_def)

end
