(* ===== verification/NodeInit.thy ===== *)
theory NodeInit
  imports GoText IpHost SocketApi
begin

text \<open>
  The node (\<open>src/cmd/node/node.go\<close>) and its start from a configuration file (\<open>src/cmd/node/node_init.go\<close>). The
  operating system is the parameter \<open>os\<close>: name resolution, UDP sockets and files. \<open>log.Fatal\<close>, which ends the process,
  is an outcome of its own. The sockets of the application are pointers: the handles live in two
  arrays of the node, a pointer is an index or nil, and the socket index table holds interface values.
\<close>

section \<open>The node\<close>

datatype socket =
    ConnPtr "nat option"                \<comment> \<open>a \<open>*tcp.VTCPConn\<close>, which may be nil\<close>
  | ListenerPtr "nat option"            \<comment> \<open>a \<open>*tcp.VTCPListener\<close>, which may be nil\<close>

record Node =
  NodeHost :: Host
  NodeTCP :: TCPHandler
  NodeTraceroute :: TracerouteHandler   \<comment> \<open>the handler registered for ICMP\<close>
  SocketIndexTable :: "socket option list"    \<comment> \<open>\<open>None\<close> is the nil interface\<close>
  ConnHeap :: "VTCPConn list"
  ListenerHeap :: "VTCPListener list"

type_synonym file_read = "byte list \<times> string option"     \<comment> \<open>what \<open>Read\<close> has put into the buffer, and its error\<close>

record os =
  ResolveUDPAddr :: "string \<Rightarrow> string + udp_addr"
  ListenUDP :: "udp_addr \<Rightarrow> string option"    \<comment> \<open>the error, if any\<close>
  Open :: "string \<Rightarrow> string + string"         \<comment> \<open>the contents of the file\<close>
  Create :: "string \<Rightarrow> string option"
  Reads :: "string \<Rightarrow> file_read list"          \<comment> \<open>what the calls of \<open>Read\<close> with 1024 bytes of room return on the opened file, up to its end\<close>

datatype 'a boot =
    Booted 'a
  | Fatal string                        \<comment> \<open>\<open>log.Fatal\<close>\<close>
  | BootPanic

definition bbind :: "'a boot \<Rightarrow> ('a \<Rightarrow> 'b boot) \<Rightarrow> 'b boot" where
  "bbind m f = (case m of Booted x \<Rightarrow> f x | Fatal e \<Rightarrow> Fatal e | BootPanic \<Rightarrow> BootPanic)"

lemma bbind_simps [simp]:
  "bbind (Booted x) f = f x" "bbind (Fatal e) f = Fatal e" "bbind BootPanic f = BootPanic"
  by (simp_all add: bbind_def)

definition addrNumToIP :: "u32 \<Rightarrow> string" where
  "addrNumToIP addr =
     IPv4_String [ucast (drop_bit 24 addr), ucast (drop_bit 16 addr), ucast (drop_bit 8 addr), ucast addr]"

definition Uint32_To4 :: "byte list option \<Rightarrow> u32 go" where
  \<comment> \<open>\<open>binary.BigEndian.Uint32(ip.To4())\<close>: \<open>To4\<close> gives nil for nil and for an address that is not IPv4\<close>
  "Uint32_To4 ip = (case Option.bind ip To4 of None \<Rightarrow> Inl Panic | Some b \<Rightarrow> get_be32 b)"

section \<open>Reading the configuration\<close>

fun text_lines :: "string \<Rightarrow> string list" where
  \<comment> \<open>the lines of a text; the last one may lack its newline\<close>
  "text_lines [] = []"
| "text_lines (c # cs) =
     (if c = CHR 0x0A then [] # text_lines cs
      else case text_lines cs of
        [] \<Rightarrow> [[c]]
      | l # ls \<Rightarrow> (c # l) # ls)"

definition drop_cr :: "string \<Rightarrow> string" where
  "drop_cr l = (if l \<noteq> [] \<and> last l = CHR 0x0D then butlast l else l)"

definition scan_lines :: "string \<Rightarrow> string list" where
  \<comment> \<open>what \<open>bufio.Scanner\<close> delivers: it stops at a line that does not fit its buffer of 65536 bytes\<close>
  "scan_lines s = map drop_cr (takeWhile (\<lambda>l. length l < 65536) (text_lines s))"

definition SetupHost :: "os \<Rightarrow> string list \<Rightarrow> udp_addr boot" where
  \<comment> \<open>the address at which the socket of the host is opened\<close>
  "SetupHost os line =
     (if length line \<noteq> 2 then Fatal ''Ill formatted .lnx file, first line must be <host_addr> <host_port>''
      else case ResolveUDPAddr os (line ! 0 @ '':'' @ line ! 1) of
        Inl err \<Rightarrow> Fatal err
      | Inr listenAddr \<Rightarrow>
          (case ListenUDP os listenAddr of Some err \<Rightarrow> Fatal err | None \<Rightarrow> Booted listenAddr))"

definition SetupInterface :: "os \<Rightarrow> string list \<Rightarrow> nat \<Rightarrow> Host \<Rightarrow> (Host \<times> string list) boot" where
  \<comment> \<open>the host and what is logged; a bad port is logged and used\<close>
  "SetupInterface os line l h =
     (if length line \<noteq> 4
      then Fatal ''Ill formatted .lnx file, line must be <neighbor_addr> <neighbor_port> <host_interface_addr> <neighbor_interface_addr>''
      else let hostIP = line ! 2; neighborIP = line ! 3; (udpDestPort, err) = Atoi (line ! 1)
        in case Uint32_To4 (ParseIP hostIP) of
             Inl _ \<Rightarrow> BootPanic
           | Inr hostIPAddr \<Rightarrow>
             (case Uint32_To4 (ParseIP neighborIP) of
                Inl _ \<Rightarrow> BootPanic
              | Inr neighborIPAddr \<Rightarrow>
                  let linkIF = \<lparr>InterfaceNumber = int l - 1, HostIPAddress = hostIPAddr, DestIPAddress = neighborIPAddr,
                        UDPDestPort = udpDestPort, UDPDestAddr = line ! 0, UDPAddr = None, Stopped = False\<rparr>;
                      (e, linkIF1) = InitializeDestConnection (ResolveUDPAddr os) (line ! 0) (line ! 1) linkIF
                  in Booted (h\<lparr>LocalIFs := (LocalIFs h)(hostIPAddr \<mapsto> linkIF1),
                               RemoteDestination := (RemoteDestination h)(neighborIPAddr \<mapsto> hostIPAddr)\<rparr>,
                             (if err = None then [] else [''Could not parse udp dest addr''])
                             @ (if e = None then [] else [''could not initialize interface connection'']))))"

definition InitSocketIndexTable :: "socket option list" where
  "InitSocketIndexTable = []"

definition NewTCPHandler :: "u32 list \<Rightarrow> TCPHandler" where
  \<comment> \<open>with the keys of the interface map in iteration order: the first one is the local address. The map of sockets is
      nil until \<open>InitHandler\<close> has run, and reads as empty\<close>
  "NewTCPHandler order = \<lparr>SocketTable = Map.empty, HandlerLocalAddr = (case order of [] \<Rightarrow> 0 | addr # _ \<Rightarrow> addr),
     CurrentPort = 1025, Listeners = []\<rparr>"

definition NewRipHandler :: handler where "NewRipHandler = RipProtocol"
definition NewTracerouteHandler :: "handler \<times> TracerouteHandler" where
  "NewTracerouteHandler = (TracerouteProtocol, \<lparr>HandleRoute = False\<rparr>)"
definition NewTestHandler :: handler where "NewTestHandler = TestProtocol"

definition TEST_PROTOCOL :: int where "TEST_PROTOCOL = 0"
definition ICMP_PROTOCOL :: int where "ICMP_PROTOCOL = 1"
definition TCP_PROTOCOL :: int where "TCP_PROTOCOL = 6"

definition SetupHandlers :: "u32 list \<Rightarrow> Host \<Rightarrow> Node" where
  \<comment> \<open>the goroutine of \<open>RipInitHandler\<close> starts on the table installed here\<close>
  "SetupHandlers order h =
     (let h1 = h\<lparr>HostRoutingTable := InitRoutingTable (dom (LocalIFs h))\<rparr>;
          h2 = RegisterHandler TCP_PROTOCOL TCPProtocol
                 (RegisterHandler ICMP_PROTOCOL (fst NewTracerouteHandler)
                   (RegisterHandler TEST_PROTOCOL NewTestHandler
                     (RegisterHandler RIP_PROTOCOL NewRipHandler h1)))
      in \<lparr>NodeHost = h2, NodeTCP = NewTCPHandler order, NodeTraceroute = snd NewTracerouteHandler,
          SocketIndexTable = InitSocketIndexTable, ConnHeap = [], ListenerHeap = []\<rparr>)"

fun init_lines :: "os \<Rightarrow> nat \<Rightarrow> string list \<Rightarrow> (udp_addr \<times> Host) option \<Rightarrow> ((udp_addr \<times> Host) option \<times> string list) boot" where
  \<comment> \<open>the loop of \<open>InitNodeFromLNX\<close> at line \<open>l\<close>; there is no host before the first line\<close>
  "init_lines os l [] h = Booted (h, [])"
| "init_lines os l (text # rest) h =
     (let line = Split text
      in if l = 0
         then bbind (SetupHost os line) (\<lambda>conn. init_lines os (l + 1) rest (Some (conn, InitHost)))
         else case h of
           None \<Rightarrow> BootPanic
         | Some (conn, host) \<Rightarrow>
             bbind (SetupInterface os line l host) (\<lambda>(host1, logs).
             bbind (init_lines os (l + 1) rest (Some (conn, host1))) (\<lambda>(r, logs1). Booted (r, logs @ logs1))))"

definition InitNodeFromLNX :: "os \<Rightarrow> (Host \<Rightarrow> u32 list) \<Rightarrow> string \<Rightarrow> (udp_addr \<times> Node \<times> string list) boot" where
  \<comment> \<open>\<open>keys\<close> gives the iteration order of the interface map; an empty file leaves the host nil\<close>
  "InitNodeFromLNX os keys filepath =
     (case Open os filepath of
        Inl err \<Rightarrow> Fatal err
      | Inr text \<Rightarrow>
          bbind (init_lines os 0 (scan_lines text) None) (\<lambda>(r, logs).
            case r of None \<Rightarrow> BootPanic
            | Some (conn, h) \<Rightarrow> Booted (conn, SetupHandlers (keys h) h, logs)))"

section \<open>A configuration file that is written out\<close>

record lnx_if =
  nb_addr :: string                     \<comment> \<open>UDP host and port of the neighbour\<close>
  nb_port :: nat
  if_addr :: u32                        \<comment> \<open>own address on the link\<close>
  nb_if_addr :: u32                     \<comment> \<open>address of the neighbour on the link\<close>

definition lnx_line :: "lnx_if \<Rightarrow> string" where
  "lnx_line c = join_words [nb_addr c, itoa (nb_port c), addrNumToIP (if_addr c), addrNumToIP (nb_if_addr c)]"

definition lnx_text :: "string \<times> nat \<Rightarrow> lnx_if list \<Rightarrow> string" where
  "lnx_text host cs =
     concat (map (\<lambda>l. l @ newline) (join_words [fst host, itoa (snd host)] # map lnx_line cs))"

definition name_ok :: "string \<times> nat \<Rightarrow> bool" where
  \<comment> \<open>a host name and a port that fit a line\<close>
  "name_ok host \<longleftrightarrow> space \<notin> set (fst host) \<and> CHR 0x0A \<notin> set (fst host) \<and> length (fst host) < 65000 \<and> snd host < 2 ^ 16"

definition configured_if :: "os \<Rightarrow> nat \<Rightarrow> lnx_if \<Rightarrow> LinkInterface" where
  \<comment> \<open>the interface that line \<open>k\<close> of the file describes\<close>
  "configured_if os k c = \<lparr>InterfaceNumber = int k, HostIPAddress = if_addr c, DestIPAddress = nb_if_addr c,
     UDPDestPort = int (nb_port c), UDPDestAddr = nb_addr c,
     UDPAddr = (case ResolveUDPAddr os (nb_addr c @ '':'' @ itoa (nb_port c)) of Inl _ \<Rightarrow> None | Inr u \<Rightarrow> Some u), Stopped = False\<rparr>"

definition add_configured :: "os \<Rightarrow> nat \<times> lnx_if \<Rightarrow> Host \<Rightarrow> Host" where
  "add_configured os kc h =
     h\<lparr>LocalIFs := (LocalIFs h)(if_addr (snd kc) \<mapsto> configured_if os (fst kc) (snd kc)),
       RemoteDestination := (RemoteDestination h)(nb_if_addr (snd kc) \<mapsto> if_addr (snd kc))\<rparr>"

lemma address_reads_back: "Uint32_To4 (ParseIP (addrNumToIP a)) = Inr a"
  using get_be32_be32 [of a "[]"] by (simp add: Uint32_To4_def addrNumToIP_def ParseIP_String be32_def)

lemma length_itoa: "n < 10 ^ Suc k \<Longrightarrow> length (itoa n) \<le> Suc k"
proof (induction k arbitrary: n)
  case 0
  then show ?case by (subst itoa.simps) simp
next
  case (Suc k)
  then have "n div 10 < 10 ^ Suc k" by auto
  then show ?case using Suc.IH [of "n div 10"] by (subst itoa.simps) auto
qed

lemma length_addrNumToIP: "length (addrNumToIP a) \<le> 15"
proof -
  have "length (itoa (unat b)) \<le> 3" for b :: byte
    using length_itoa [of "unat b" 2] unsigned_less [of b, where ?'a = nat] by simp
  from this [of "ucast (drop_bit 24 a)"] this [of "ucast (drop_bit 16 a)"] this [of "ucast (drop_bit 8 a)"] this [of "ucast a"]
  show ?thesis by (simp add: addrNumToIP_def IPv4_String_def)
qed

lemma addrNumToIP_chars: "c \<in> set (addrNumToIP a) \<Longrightarrow> is_digit c \<or> c = CHR ''.''"
  using itoa_digits by (auto simp: addrNumToIP_def IPv4_String_def)

lemma text_lines_unlines:
  "CHR 0x0A \<notin> set l \<Longrightarrow> text_lines (l @ newline @ s) = l # text_lines s"
  by (induction l) (auto simp: newline_def)

lemma text_lines_concat:
  "\<forall>l \<in> set ls. CHR 0x0A \<notin> set l \<Longrightarrow> text_lines (concat (map (\<lambda>l. l @ newline) ls)) = ls"
  by (induction ls) (simp_all add: text_lines_unlines)

lemma scan_lines_concat:
  assumes "\<forall>l \<in> set ls. CHR 0x0A \<notin> set l \<and> drop_cr l = l \<and> length l < 65536"
  shows "scan_lines (concat (map (\<lambda>l. l @ newline) ls)) = ls"
proof -
  have "map drop_cr ls = ls" using assms by (simp add: map_idI)
  then show ?thesis using assms by (simp add: scan_lines_def text_lines_concat takeWhile_eq_all_conv [THEN iffD2])
qed

lemma drop_cr_digit: "l \<noteq> [] \<Longrightarrow> is_digit (last l) \<Longrightarrow> drop_cr (w @ l) = w @ l"
  by (auto simp: drop_cr_def is_digit_def)

lemma itoa_last: "is_digit (last (itoa n))"
  using itoa_digits [of "last (itoa n)" n] by simp

lemma host_line_scans:
  assumes "name_ok host"
  defines "l \<equiv> join_words [fst host, itoa (snd host)]"
  shows "CHR 0x0A \<notin> set l \<and> drop_cr l = l \<and> length l < 65536 \<and> Split l = [fst host, itoa (snd host)]"
proof -
  have "Split l = [fst host, itoa (snd host)]"
    unfolding l_def using assms by (intro Split_join_words) (auto simp: name_ok_def itoa_no_space)
  then show ?thesis
    using assms length_itoa [of "snd host" 4] itoa_digits [of "CHR 0x0A" "snd host"]
      drop_cr_digit [of "itoa (snd host)" "fst host @ [space]"] itoa_last
    by (auto simp: l_def name_ok_def space_def is_digit_def)
qed

lemma if_line_scans:
  assumes "name_ok (nb_addr c, nb_port c)"
  shows "CHR 0x0A \<notin> set (lnx_line c) \<and> drop_cr (lnx_line c) = lnx_line c \<and> length (lnx_line c) < 65536
    \<and> Split (lnx_line c) = [nb_addr c, itoa (nb_port c), addrNumToIP (if_addr c), addrNumToIP (nb_if_addr c)]"
proof -
  let ?w = "nb_addr c @ space # itoa (nb_port c) @ space # addrNumToIP (if_addr c) @ [space]"
  have l: "lnx_line c = ?w @ addrNumToIP (nb_if_addr c)" by (simp add: lnx_line_def)
  have "is_digit (last (addrNumToIP (nb_if_addr c)))" "addrNumToIP (nb_if_addr c) \<noteq> []"
    using itoa_last by (simp_all add: addrNumToIP_def IPv4_String_def)
  then have "drop_cr (lnx_line c) = lnx_line c" unfolding l by (intro drop_cr_digit)
  moreover have "CHR 0x0A \<notin> set (lnx_line c)"
    using assms itoa_digits [of "CHR 0x0A" "nb_port c"] addrNumToIP_chars [of "CHR 0x0A"]
    by (auto simp: l name_ok_def space_def is_digit_def)
  moreover have "length (lnx_line c) < 65536"
    using assms length_itoa [of "nb_port c" 4] length_addrNumToIP [of "if_addr c"] length_addrNumToIP [of "nb_if_addr c"]
    by (simp add: l name_ok_def)
  moreover have "Split (lnx_line c) = [nb_addr c, itoa (nb_port c), addrNumToIP (if_addr c), addrNumToIP (nb_if_addr c)]"
    unfolding lnx_line_def using assms
    by (intro Split_join_words) (auto simp: name_ok_def itoa_no_space addrNumToIP_def IPv4_String_no_space)
  ultimately show ?thesis by blast
qed

lemma SetupInterface_line:
  assumes "name_ok (nb_addr c, nb_port c)" and "\<exists>u. ResolveUDPAddr os (nb_addr c @ '':'' @ itoa (nb_port c)) = Inr u"
  shows "SetupInterface os (Split (lnx_line c)) (Suc k) h = Booted (add_configured os (k, c) h, [])"
proof -
  obtain u where u: "ResolveUDPAddr os (nb_addr c @ '':'' @ itoa (nb_port c)) = Inr u" using assms(2) by blast
  have a: "Atoi (itoa (nb_port c)) = (int (nb_port c), None)" using assms(1) by (intro Atoi_itoa) (simp add: name_ok_def)
  have s: "Split (lnx_line c) = [nb_addr c, itoa (nb_port c), addrNumToIP (if_addr c), addrNumToIP (nb_if_addr c)]"
    using if_line_scans [OF assms(1)] by blast
  show ?thesis
    unfolding s using u a
    by (simp add: SetupInterface_def address_reads_back InitializeDestConnection_def add_configured_def configured_if_def)
qed

lemma init_lines_interfaces:
  assumes "\<forall>c \<in> set cs. name_ok (nb_addr c, nb_port c) \<and> (\<exists>u. ResolveUDPAddr os (nb_addr c @ '':'' @ itoa (nb_port c)) = Inr u)"
  shows "init_lines os (Suc k) (map lnx_line cs) (Some (conn, h)) = Booted (Some (conn, fold (add_configured os) (enumerate k cs) h), [])"
  using assms
proof (induction cs arbitrary: k h)
  case (Cons c cs)
  then show ?case using SetupInterface_line [of c os k h] by simp
qed simp

lemma fold_add_configured:
  assumes "distinct (map if_addr cs)" and "distinct (map nb_if_addr cs)"
  shows "LocalIFs (fold (add_configured os) (enumerate k cs) h) a =
      (if a \<in> if_addr ` set cs then map_of (map (\<lambda>(j, c). (if_addr c, configured_if os j c)) (enumerate k cs)) a else LocalIFs h a)"
    and "RemoteDestination (fold (add_configured os) (enumerate k cs) h) b =
      (if b \<in> nb_if_addr ` set cs then map_of (map (\<lambda>c. (nb_if_addr c, if_addr c)) cs) b else RemoteDestination h b)"
    and "HandlerRegistry (fold (add_configured os) (enumerate k cs) h) = HandlerRegistry h"
  using assms by (induction cs arbitrary: k h) (auto simp: add_configured_def)

lemma enumerate_map_of:
  assumes "distinct (map if_addr cs)"
  shows "map_of (map (\<lambda>(j, c). (if_addr c, configured_if os j c)) (enumerate 0 cs)) a = Some i
    \<longleftrightarrow> (\<exists>k < length cs. a = if_addr (cs ! k) \<and> i = configured_if os k (cs ! k))"
proof -
  let ?ps = "map (\<lambda>(j, c). (if_addr c, configured_if os j c)) (enumerate 0 cs)"
  have "map fst ?ps = map if_addr cs" by (rule nth_equalityI) (simp_all add: nth_enumerate_eq)
  then have "map_of ?ps a = Some i \<longleftrightarrow> (a, i) \<in> set ?ps" using assms by (intro map_of_eq_Some_iff) simp
  also have "\<dots> \<longleftrightarrow> (\<exists>k < length cs. a = if_addr (cs ! k) \<and> i = configured_if os k (cs ! k))"
    unfolding in_set_conv_nth by (auto simp: nth_enumerate_eq)
  finally show ?thesis .
qed

lemma LocalIFs_InitHost: "LocalIFs InitHost a = None"
  by (simp add: InitHost_def)

section \<open>Properties\<close>

text \<open>
  C19. A configuration file is read as written. When a file lists a UDP address for the host and, per line, the UDP
  address of a neighbour with the two addresses of the link, all names resolve and no address is used twice, the start of the
  node ends with exactly these interfaces, numbered in the order of the lines, up, each with its peer; the neighbours map to the
  interfaces that reach them; the routing table has a route of cost 0 to each own address and nothing else; the
  handlers are registered for the protocols 200, 0, 1 and 6; and there are no sockets.
\<close>

theorem lnx_configures_node:
  assumes "Open os path = Inr (lnx_text host cs)" and "name_ok host"
    and "ResolveUDPAddr os (fst host @ '':'' @ itoa (snd host)) = Inr conn" and "ListenUDP os conn = None"
    and "\<forall>c \<in> set cs. name_ok (nb_addr c, nb_port c) \<and> (\<exists>u. ResolveUDPAddr os (nb_addr c @ '':'' @ itoa (nb_port c)) = Inr u)"
    and "distinct (map if_addr cs)" and "distinct (map nb_if_addr cs)"
  shows "\<exists>n. InitNodeFromLNX os keys path = Booted (conn, n, [])
    \<and> (\<forall>a i. LocalIFs (NodeHost n) a = Some i \<longleftrightarrow> (\<exists>k < length cs. a = if_addr (cs ! k) \<and> i = configured_if os k (cs ! k)))
    \<and> (\<forall>b a. RemoteDestination (NodeHost n) b = Some a \<longleftrightarrow> (\<exists>c \<in> set cs. b = nb_if_addr c \<and> a = if_addr c))
    \<and> (\<forall>d. HostRoutingTable (NodeHost n) d = (if d \<in> if_addr ` set cs then Some (CreateEntry d 0) else None))
    \<and> HandlerRegistry (NodeHost n) = [200 \<mapsto> RipProtocol, 0 \<mapsto> TestProtocol, 1 \<mapsto> TracerouteProtocol, 6 \<mapsto> TCPProtocol]
    \<and> SocketIndexTable n = [] \<and> SocketTable (NodeTCP n) = Map.empty"
proof -
  let ?h = "fold (add_configured os) (enumerate 0 cs) InitHost"
  let ?n = "SetupHandlers (keys ?h) ?h"
  let ?l = "join_words [fst host, itoa (snd host)]"
  have "scan_lines (lnx_text host cs) = ?l # map lnx_line cs"
    unfolding lnx_text_def using host_line_scans [OF assms(2)] if_line_scans assms(5) by (intro scan_lines_concat) auto
  moreover have "SetupHost os (Split ?l) = Booted conn"
    using host_line_scans [OF assms(2)] assms(3,4) by (simp add: SetupHost_def)
  ultimately have b: "InitNodeFromLNX os keys path = Booted (conn, ?n, [])"
    using assms(1) init_lines_interfaces [OF assms(5), of 0 conn InitHost] by (simp add: InitNodeFromLNX_def del: join_words.simps)
  note f = fold_add_configured [OF assms(6,7), of os 0 InitHost]
  have host: "LocalIFs (NodeHost ?n) = LocalIFs ?h" "RemoteDestination (NodeHost ?n) = RemoteDestination ?h"
    "HostRoutingTable (NodeHost ?n) = InitRoutingTable (dom (LocalIFs ?h))"
    by (simp_all add: SetupHandlers_def Let_def RegisterHandler_def)
  have l: "LocalIFs ?h a = Some i \<longleftrightarrow> (\<exists>k < length cs. a = if_addr (cs ! k) \<and> i = configured_if os k (cs ! k))" for a i
    using enumerate_map_of [OF assms(6), of os a i] f(1) [of a]
    by (cases "a \<in> if_addr ` set cs") (auto simp: LocalIFs_InitHost)
  then have d: "dom (LocalIFs ?h) = if_addr ` set cs" by (force simp: dom_def in_set_conv_nth)
  have "distinct (map fst (map (\<lambda>c. (nb_if_addr c, if_addr c)) cs))" using assms(7) by (simp add: comp_def)
  then have r: "RemoteDestination ?h b = Some a \<longleftrightarrow> (\<exists>c \<in> set cs. b = nb_if_addr c \<and> a = if_addr c)" for a b
    using map_of_eq_Some_iff [of "map (\<lambda>c. (nb_if_addr c, if_addr c)) cs" b a] f(2) [of b] by (auto simp: InitHost_def)
  have h: "HandlerRegistry (NodeHost ?n) = [200 \<mapsto> RipProtocol, 0 \<mapsto> TestProtocol, 1 \<mapsto> TracerouteProtocol, 6 \<mapsto> TCPProtocol]"
    using f(3) by (simp add: SetupHandlers_def Let_def RegisterHandler_def InitHost_def RIP_PROTOCOL_def TEST_PROTOCOL_def
        ICMP_PROTOCOL_def TCP_PROTOCOL_def NewTestHandler_def NewRipHandler_def NewTracerouteHandler_def)
  have s: "SocketIndexTable ?n = []" "SocketTable (NodeTCP ?n) = Map.empty"
    by (simp_all add: SetupHandlers_def InitSocketIndexTable_def NewTCPHandler_def)
  show ?thesis
    using b h s l r host by (intro exI [of _ ?n]) (simp add: InitRoutingTable_def d)
qed

definition sample_os :: os where
  \<comment> \<open>a node with two links; every name is the local host\<close>
  "sample_os = \<lparr>ResolveUDPAddr = (\<lambda>s. Inr ([127, 0, 0, 1], 17000)), ListenUDP = (\<lambda>_. None),
     Open = (\<lambda>_. Inr (lnx_text (''localhost'', 17000)
       [\<lparr>nb_addr = ''localhost'', nb_port = 17001, if_addr = 0x0a000001, nb_if_addr = 0x0a00000e\<rparr>,
        \<lparr>nb_addr = ''localhost'', nb_port = 17002, if_addr = 0x0a000005, nb_if_addr = 0x0a00000a\<rparr>])),
     Create = (\<lambda>_. None), Reads = (\<lambda>_. [])\<rparr>"

theorem lnx_configures_node_witness:
  "\<exists>n. InitNodeFromLNX sample_os (\<lambda>_. []) ''A.lnx'' = Booted (([127, 0, 0, 1], 17000), n, [])
    \<and> LocalIFs (NodeHost n) 0x0a000005 = Some (configured_if sample_os 1
        \<lparr>nb_addr = ''localhost'', nb_port = 17002, if_addr = 0x0a000005, nb_if_addr = 0x0a00000a\<rparr>)"
proof -
  let ?cs = "[\<lparr>nb_addr = ''localhost'', nb_port = 17001, if_addr = 0x0a000001, nb_if_addr = 0x0a00000e\<rparr>,
        \<lparr>nb_addr = ''localhost'', nb_port = 17002, if_addr = 0x0a000005, nb_if_addr = 0x0a00000a\<rparr>]"
  have "name_ok (''localhost'', p)" if "p < 2 ^ 16" for p using that by (simp add: name_ok_def space_def)
  then show ?thesis
    using lnx_configures_node [of sample_os "''A.lnx''" "(''localhost'', 17000)" ?cs "([127, 0, 0, 1], 17000)" "\<lambda>_. []"]
    by (auto simp: sample_os_def) (rule exI [of _ 1], simp)
qed

end
