(* ===== verification/NodeCommands.thy ===== *)
theory NodeCommands
  imports NodeInit Congestion
begin

text \<open>
  The commands of the node: \<open>src/cmd/node/node_tcp_commands.go\<close>, \<open>src/cmd/node/node_ip_commands.go\<close>,
  \<open>src/cmd/node/node_tcp_cc_commands.go\<close> and the loop of \<open>src/cmd/node/node.go\<close> that reads them. A line either is carried out
  and the loop waits for the next one, or it blocks in a call: then \<open>repl_pc\<close> says in which, and a definition of its own
  continues when the call has returned. Output is a list of effects.
\<close>

section \<open>Effects and program counters\<close>

datatype node_effect =
    Print string                        \<comment> \<open>to the standard output\<close>
  | Tabbed string                       \<comment> \<open>to the tab writer of the loop, which is then flushed\<close>
  | LogPrint string
  | TCP effect
  | IP ip_effect
  | GoAcceptHelper nat                  \<comment> \<open>\<open>go n.acceptHelper(listener)\<close>\<close>
  | GoClose nat bool int                \<comment> \<open>the goroutines of \<open>CloseTCPCommand\<close>: handle, \<open>noRead\<close>, socket\<close>
  | GoReadFile string u16               \<comment> \<open>the goroutine of \<open>ReadFileTCPCommand\<close>\<close>
  | WriteFile string "byte list"
  | Exit

datatype sendfile_pc =
    SfConnect SocketData "file_read list" bool  \<comment> \<open>in \<open>Connect\<close>, with the file and \<open>ccontrol\<close>\<close>
  | SfWrite nat nat "file_read list" u32 write_call   \<comment> \<open>in \<open>VWrite\<close>: handle, socket, reads of the file to come, \<open>bytesWritten\<close>\<close>
  | SfClose nat                                 \<comment> \<open>in \<open>VClose\<close>\<close>

datatype repl_pc =
    ReplScan                            \<comment> \<open>waits for a line\<close>
  | ReplConnect SocketData
  | ReplWrite nat write_call
  | ReplRead nat read_call
  | ReplSendFile sendfile_pc
  | ReplTraceroute string u32 traceroute_pc
  | ReplExit

type_synonym repl_result = "(repl_pc \<times> Node \<times> node_effect list) go"

record repl_env =
  env_os :: os
  env_ns :: netstack
  env_ip4 :: ip4
  env_iss :: u32                        \<comment> \<open>the number \<open>NewISS\<close> draws\<close>
  env_ifs :: "u32 list"                 \<comment> \<open>the keys of the interface map in iteration order\<close>
  env_routes :: "u32 list"              \<comment> \<open>the keys of the routing table in iteration order\<close>

definition deref :: "'a list \<Rightarrow> nat option \<Rightarrow> (nat \<times> 'a) go" where
  \<comment> \<open>the handle a pointer points to, with its place\<close>
  "deref heap ptr = (case ptr of None \<Rightarrow> Inl Panic | Some p \<Rightarrow> if p < length heap then Inr (p, heap ! p) else Inl Panic)"

definition elem_at :: "'a list \<Rightarrow> int \<Rightarrow> 'a go" where
  \<comment> \<open>\<open>xs[i]\<close>\<close>
  "elem_at xs i = (if 0 \<le> i \<and> i < int (length xs) then Inr (xs ! nat i) else Inl Panic)"

definition new_conn_handle :: "VTCPConn \<Rightarrow> Node \<Rightarrow> nat \<times> Node" where
  "new_conn_handle vc n = (length (ConnHeap n), n\<lparr>ConnHeap := ConnHeap n @ [vc]\<rparr>)"

definition new_listener_handle :: "VTCPListener \<Rightarrow> Node \<Rightarrow> nat \<times> Node" where
  "new_listener_handle vl n = (length (ListenerHeap n), n\<lparr>ListenerHeap := ListenerHeap n @ [vl]\<rparr>)"

definition clear_slot :: "nat \<Rightarrow> Node \<Rightarrow> Node" where
  \<comment> \<open>\<open>n.SocketIndexTable[i] = nil\<close>\<close>
  "clear_slot i n = n\<lparr>SocketIndexTable := (SocketIndexTable n)[i := None]\<rparr>"

section \<open>TCP commands\<close>

fun find_free :: "'a option list \<Rightarrow> nat option" where
  \<comment> \<open>the search for a nil entry\<close>
  "find_free [] = None"
| "find_free (None # xs) = Some 0"
| "find_free (Some x # xs) = map_option Suc (find_free xs)"

definition put_slot :: "'a \<Rightarrow> nat option \<Rightarrow> 'a option list \<Rightarrow> nat \<times> 'a option list" where
  \<comment> \<open>the write into the entry found, or the append\<close>
  "put_slot s found xs = (case found of Some i \<Rightarrow> (i, xs[i := Some s]) | None \<Rightarrow> (length xs, xs @ [Some s]))"

definition add_slot :: "'a \<Rightarrow> 'a option list \<Rightarrow> nat \<times> 'a option list" where
  "add_slot s xs = put_slot s (find_free xs) xs"

definition AddToTable :: "socket \<Rightarrow> Node \<Rightarrow> nat \<times> Node" where
  \<comment> \<open>a call that no other call overlaps: no lock is held, and between the search and the write another goroutine may take the entry\<close>
  "AddToTable newSocket n =
     (case add_slot newSocket (SocketIndexTable n) of (i, tbl) \<Rightarrow> (i, n\<lparr>SocketIndexTable := tbl\<rparr>))"

definition VListen :: "u16 \<Rightarrow> Node \<Rightarrow> VTCPListener option \<times> string option \<times> Node" where
  "VListen port n = (case Listen port (NodeTCP n) of (vl, err, t) \<Rightarrow> (vl, err, n\<lparr>NodeTCP := t\<rparr>))"

definition new_listener_ptr :: "VTCPListener option \<Rightarrow> Node \<Rightarrow> nat option \<times> Node" where
  "new_listener_ptr vl n =
     (case vl of None \<Rightarrow> (None, n) | Some v \<Rightarrow> (case new_listener_handle v n of (p, n1) \<Rightarrow> (Some p, n1)))"

definition new_conn_ptr :: "VTCPConn option \<Rightarrow> Node \<Rightarrow> nat option \<times> Node" where
  "new_conn_ptr vc n =
     (case vc of None \<Rightarrow> (None, n) | Some v \<Rightarrow> (case new_conn_handle v n of (p, n1) \<Rightarrow> (Some p, n1)))"

definition AcceptCommand :: "u16 \<Rightarrow> Node \<Rightarrow> string option \<times> Node \<times> node_effect list" where
  \<comment> \<open>the listener is put into the table before the error is looked at\<close>
  "AcceptCommand port n =
     (let (listener, err, n1) = VListen port n;
          (p, n2) = new_listener_ptr listener n1;
          (_, n3) = AddToTable (ListenerPtr p) n2
      in case err of
           Some e \<Rightarrow> (Some e, n3, [])
         | None \<Rightarrow> (None, n3, case p of Some lp \<Rightarrow> [GoAcceptHelper lp] | None \<Rightarrow> []))"

definition acceptHelper_call :: "nat \<Rightarrow> Node \<Rightarrow> (accept_pc \<times> Node) go" where
  \<comment> \<open>the call of \<open>VAccept\<close> at the head of the loop\<close>
  "acceptHelper_call lp n =
     gbind (deref (ListenerHeap n) (Some lp)) (\<lambda>(_, vl).
       case VAccept vl (NodeTCP n) of (pc, t) \<Rightarrow> Inr (pc, n\<lparr>NodeTCP := t\<rparr>))"

definition acceptHelper_return :: "VTCPConn option \<Rightarrow> string option \<Rightarrow> Node \<Rightarrow> bool \<times> Node \<times> node_effect list" where
  \<comment> \<open>\<open>VAccept\<close> has returned; \<open>True\<close> to go on with the loop\<close>
  "acceptHelper_return newConn err n =
     (case err of
        Some e \<Rightarrow> (False, n, [LogPrint e])
      | None \<Rightarrow>
          (case newConn of
             None \<Rightarrow> (False, n, [LogPrint ''Listener connection terminated, dropping new pending connection''])
           | Some vc \<Rightarrow>
               let (p, n1) = new_conn_handle vc n; (newSocketIndex, n2) = AddToTable (ConnPtr (Some p)) n1
               in (True, n2, [Print (''v_accept() returned '' @ itoa newSocketIndex @ newline)])))"

definition ip_addr4 :: "byte list option \<Rightarrow> u32 option" where
  \<comment> \<open>\<open>addr.To4()\<close> as \<open>Connect\<close> reads it\<close>
  "ip_addr4 ip = (case Uint32_To4 ip of Inl _ \<Rightarrow> None | Inr a \<Rightarrow> Some a)"

definition VConnect :: "netstack \<Rightarrow> u32 \<Rightarrow> byte list option \<Rightarrow> u16 \<Rightarrow> Node \<Rightarrow> (connect_pc \<times> Node \<times> node_effect list) go" where
  "VConnect ns iss addr port n =
     gbind (Connect_start ns iss (ip_addr4 addr) port (NodeTCP n)) (\<lambda>(pc, t, fx).
     Inr (pc, n\<lparr>NodeTCP := t\<rparr>, map TCP fx))"

definition ConnectCommand_return :: "VTCPConn option \<Rightarrow> string option \<Rightarrow> Node \<Rightarrow> (string + nat) \<times> Node" where
  "ConnectCommand_return newConn err n =
     (case err of
        Some e \<Rightarrow> (Inl e, n)
      | None \<Rightarrow>
          let (p, n1) = new_conn_ptr newConn n; (i, n2) = AddToTable (ConnPtr p) n1
          in (Inr i, n2))"

definition GetSocketTableKey :: "Node \<Rightarrow> socket \<Rightarrow> SocketData go" where
  "GetSocketTableKey n s =
     (case s of
        ConnPtr p \<Rightarrow> gbind (deref (ConnHeap n) p) (\<lambda>(_, vc). Inr (SocketTableKey vc))
      | ListenerPtr p \<Rightarrow> gbind (deref (ListenerHeap n) p) (\<lambda>(_, vl). Inr (ListenerTableKey vl)))"

definition with_tabs :: "string list \<Rightarrow> string" where
  "with_tabs cols = concat (map (\<lambda>f. f @ tab) (butlast cols)) @ last cols @ newline"

definition socket_row :: "nat \<Rightarrow> SocketData \<Rightarrow> TCB \<Rightarrow> string" where
  "socket_row i key tcb =
     with_tabs [itoa i, addrNumToIP (LocalAddr key), itoa (unat (LocalPort key)), addrNumToIP (DestAddr key),
       itoa (unat (DestPort key)), SocketStateToString (State tcb),
       (if CControlEnabled tcb then ''tahoe'' else ''none''), itoa (if CControlEnabled tcb then unat (CWND tcb) else 0)]"

fun list_sockets :: "Node \<Rightarrow> nat \<Rightarrow> socket option list \<Rightarrow> (string list \<times> nat list) go" where
  \<comment> \<open>the first loop of \<open>ListSocketCommand\<close>: the rows and \<open>toDelete\<close>\<close>
  "list_sockets n i [] = Inr ([], [])"
| "list_sockets n i (None # rest) = list_sockets n (Suc i) rest"
| "list_sockets n i (Some s # rest) =
     gbind (GetSocketTableKey n s) (\<lambda>key.
     gbind (list_sockets n (Suc i) rest) (\<lambda>(rows, toDelete).
       case SocketTable (NodeTCP n) key of
         None \<Rightarrow> Inr (rows, i # toDelete)
       | Some tcb \<Rightarrow> Inr (socket_row i key tcb # rows, toDelete)))"

definition ListSocketCommand :: "Node \<Rightarrow> (Node \<times> node_effect list) go" where
  "ListSocketCommand n =
     gbind (list_sockets n 0 (SocketIndexTable n)) (\<lambda>(rows, toDelete).
     Inr (fold clear_slot toDelete n,
          Tabbed (with_tabs [''socket'', ''local-addr'', ''port'', ''dst-addr'', ''port'', ''status'', ''ccontrol'', ''cwnd''])
          # map Tabbed rows))"

definition SendTCPCommand :: "string \<Rightarrow> Node \<Rightarrow> repl_result" where
  \<comment> \<open>an error is returned, and ignored by the loop\<close>
  "SendTCPCommand line n =
     (let args = SplitN line 3
      in gbind (elem_at args 1) (\<lambda>arg1.
         let (socketID, err) = Atoi arg1;
             fx = (if err = None then [] else [Print (''Invalid socket id number: '' @ arg1 @ newline)])
         in if socketID \<ge> int (length (SocketIndexTable n)) then Inr (ReplScan, n, fx)
            else gbind (elem_at (SocketIndexTable n) socketID) (\<lambda>socketToSend.
              case socketToSend of
                Some (ConnPtr p) \<Rightarrow>
                  gbind (elem_at args 2) (\<lambda>arg2.
                  gbind (deref (ConnHeap n) p) (\<lambda>(i, vc).
                  Inr (ReplWrite i (VWrite (map of_char arg2) vc (NodeTCP n)), n, fx)))
              | _ \<Rightarrow> Inr (ReplScan, n, fx))))"

definition SendTCPCommand_return :: "u32 \<Rightarrow> node_effect list" where
  "SendTCPCommand_return bytesSent = [LogPrint (''Number of bytes sent: '' @ itoa (unat bytesSent) @ newline)]"

definition ReadTCPCommand :: "int \<Rightarrow> u32 \<Rightarrow> bool \<Rightarrow> Node \<Rightarrow> (string + nat \<times> read_call) go" where
  "ReadTCPCommand socketID numBytes readAll n =
     (if socketID \<ge> int (length (SocketIndexTable n)) then Inr (Inl (''Invalid socket id'' @ newline))
      else gbind (elem_at (SocketIndexTable n) socketID) (\<lambda>socketToRead.
        case socketToRead of
          None \<Rightarrow> Inr (Inl (''Socket does not exist'' @ newline))
        | Some (ListenerPtr _) \<Rightarrow> Inr (Inl (''Cannot use read command on socket'' @ newline))
        | Some (ConnPtr p) \<Rightarrow>
            gbind (deref (ConnHeap n) p) (\<lambda>(i, vc).
            Inr (Inr (i, VRead (replicate (unat numBytes) 0) numBytes readAll vc (NodeTCP n))))))"

definition ReadTCPCommand_return :: "read_call \<Rightarrow> u32 \<Rightarrow> string option \<Rightarrow> node_effect list" where
  \<comment> \<open>\<open>VRead\<close> has returned; an error is printed by the loop\<close>
  "ReadTCPCommand_return c numBytesRead err =
     (case err of
        Some e \<Rightarrow> [Print (e @ newline)]
      | None \<Rightarrow> [Print (''Number of bytes read: '' @ itoa (unat numBytesRead) @ newline),
                 Print (''Data read: '' @ map (\<lambda>b. char_of (unat b)) (rd_data c))])"

definition HandleDeletion :: "nat \<Rightarrow> Node \<Rightarrow> Node" where
  \<comment> \<open>\<open>deletionChan\<close> delivers\<close>
  "HandleDeletion socketID n = clear_slot socketID n"

definition CloseTCPCommand :: "int \<Rightarrow> bool \<Rightarrow> Node \<Rightarrow> (string option \<times> Node \<times> node_effect list) go" where
  "CloseTCPCommand socketID noRead n =
     (if socketID \<ge> int (length (SocketIndexTable n)) \<or> socketID < 0 then Inr (Some (''Invalid socket id'' @ newline), n, [])
      else gbind (elem_at (SocketIndexTable n) socketID) (\<lambda>socketToClose.
        case socketToClose of
          None \<Rightarrow> Inr (Some (''Socket does not exist'' @ newline), n, [])
        | Some (ListenerPtr lp) \<Rightarrow>
            let n1 = clear_slot (nat socketID) n
            in gbind (deref (ListenerHeap n1) lp) (\<lambda>(i, vl).
               gbind (listener_VClose vl (NodeTCP n1)) (\<lambda>(vl1, t, fx).
               Inr (None, n1\<lparr>NodeTCP := t, ListenerHeap := (ListenerHeap n1)[i := vl1]\<rparr>, map TCP fx)))
        | Some (ConnPtr p) \<Rightarrow>
            gbind (deref (ConnHeap n) p) (\<lambda>(i, conn).
            Inr (None,
                 n\<lparr>ConnHeap := (ConnHeap n)[i := conn\<lparr>ReadCancelled := (noRead \<or> ReadCancelled conn), WriteCancelled := True\<rparr>]\<rparr>,
                 [GoClose i noRead socketID, Print (''Socket '' @ fmt_int socketID @ '' has been closed'' @ newline)]))))"

definition close_goroutine :: "netstack \<Rightarrow> nat \<Rightarrow> bool \<Rightarrow> Node \<Rightarrow> (close_pc \<times> Node \<times> node_effect list) go" where
  \<comment> \<open>the goroutine of \<open>CloseTCPCommand\<close> up to the point where \<open>Close\<close> waits; when it has returned, \<open>HandleDeletion\<close> follows\<close>
  "close_goroutine ns p noRead n =
     gbind (deref (ConnHeap n) (Some p)) (\<lambda>(_, vc).
     gbind (if noRead then VClose ns vc (NodeTCP n) else VShutdown ns 1 vc (NodeTCP n)) (\<lambda>(vc1, pc, t, fx).
     Inr (pc, n\<lparr>ConnHeap := (ConnHeap n)[p := vc1], NodeTCP := t\<rparr>, map TCP fx)))"

definition ShutDownTCPCommand :: "netstack \<Rightarrow> int \<Rightarrow> string \<Rightarrow> Node \<Rightarrow> (string option \<times> Node \<times> node_effect list) go" where
  "ShutDownTCPCommand ns socketID option n =
     (if socketID < 0 \<or> socketID \<ge> int (length (SocketIndexTable n)) \<or> SocketIndexTable n ! nat socketID = None
      then Inr (Some ''Invalid socket ID'', n, [])
      else gbind (elem_at (SocketIndexTable n) socketID) (\<lambda>socketToShutdown.
        case socketToShutdown of
          Some (ConnPtr p) \<Rightarrow>
            if option = ''read'' \<or> option = ''r''
            then gbind (deref (ConnHeap n) p) (\<lambda>(i, vc).
                 gbind (VShutdown ns 0 vc (NodeTCP n)) (\<lambda>(vc1, _, t, fx).
                 Inr (None, n\<lparr>ConnHeap := (ConnHeap n)[i := vc1], NodeTCP := t\<rparr>, map TCP fx)))
            else if option = ''write'' \<or> option = ''w''
            then gbind (CloseTCPCommand socketID False n) (\<lambda>(_, n1, fx). Inr (None, n1, fx))
            else if option = ''both''
            then gbind (CloseTCPCommand socketID True n) (\<lambda>(_, n1, fx). Inr (None, n1, fx))
            else Inr (Some ''Invalid option for shutdown'', n, [])
        | _ \<Rightarrow> Inr (Some ''Cannot shutdown read on listening conn'', n, [])))"

section \<open>Files\<close>

fun f_Read :: "file_read list \<Rightarrow> file_read \<times> file_read list" where
  \<comment> \<open>\<open>f.Read\<close> gives the next result, and \<open>0, io.EOF\<close> after the last one\<close>
  "f_Read [] = (([], Some ''EOF''), [])"
| "f_Read (r # rest) = (r, rest)"

definition sendfile_loop :: "netstack \<Rightarrow> nat \<Rightarrow> nat \<Rightarrow> file_read list \<Rightarrow> u32 \<Rightarrow> Node \<Rightarrow> repl_result" where
  \<comment> \<open>one turn of the loop of \<open>SendFileTCPCommand\<close>: \<open>f.Read\<close> and \<open>VWrite\<close>; a read of nothing, whatever its error, ends the loop and \<open>VClose\<close> follows\<close>
  "sendfile_loop ns p socketID f bytesWritten n =
     (case f_Read f of
        ((buf, err), rest) \<Rightarrow>
          if buf = []
          then gbind (deref (ConnHeap n) (Some p)) (\<lambda>(_, newConn).
               gbind (VClose ns newConn (NodeTCP n)) (\<lambda>(vc1, pc, t, fx).
               Inr (ReplSendFile (SfClose socketID), n\<lparr>ConnHeap := (ConnHeap n)[p := vc1], NodeTCP := t\<rparr>,
                    Print (''Total bytes written: '' @ itoa (unat bytesWritten) @ newline) # map TCP fx)))
          else case err of
            Some e \<Rightarrow> Inr (ReplScan, n, [Print (e @ newline)])
          | None \<Rightarrow>
              gbind (deref (ConnHeap n) (Some p)) (\<lambda>(_, newConn).
              Inr (ReplSendFile (SfWrite p socketID rest bytesWritten (VWrite buf newConn (NodeTCP n))), n, [])))"

definition SendFileTCPCommand :: "os \<Rightarrow> netstack \<Rightarrow> u32 \<Rightarrow> string \<Rightarrow> string \<Rightarrow> u16 \<Rightarrow> bool \<Rightarrow> Node \<Rightarrow> repl_result" where
  \<comment> \<open>up to the wait in \<open>Connect\<close>; the loop prints the error\<close>
  "SendFileTCPCommand os ns iss filepath ipAddr port ccontrol n =
     (case ParseIP ipAddr of
        None \<Rightarrow> Inr (ReplScan, n, [Print (''Invalid ip address'' @ newline @ newline)])
      | Some addr \<Rightarrow>
          (case Open os filepath of
             Inl err \<Rightarrow> Inr (ReplScan, n, [Print (err @ newline)])
           | Inr _ \<Rightarrow>
               gbind (VConnect ns iss (Some addr) port n) (\<lambda>(pc, n1, fx).
                 case pc of
                   ConnectWait key \<Rightarrow> Inr (ReplSendFile (SfConnect key (Reads os filepath) ccontrol), n1, fx)
                 | ConnectReturned _ err \<Rightarrow>
                     Inr (ReplScan, n1, fx @ [LogPrint ''returning from connect'',
                       Print ((case err of None \<Rightarrow> [] | Some e \<Rightarrow> e) @ newline)]))))"

definition sendfile_connected :: "netstack \<Rightarrow> VTCPConn option \<Rightarrow> string option \<Rightarrow> file_read list \<Rightarrow> bool \<Rightarrow> Node \<Rightarrow> repl_result" where
  \<comment> \<open>\<open>Connect\<close> has returned\<close>
  "sendfile_connected ns conn err file ccontrol n =
     (case err of
        Some e \<Rightarrow> Inr (ReplScan, n, [LogPrint ''returning from connect'', Print (e @ newline)])
      | None \<Rightarrow>
          let (p, n1) = new_conn_ptr conn n; (socketID, n2) = AddToTable (ConnPtr p) n1
          in gbind (deref (ConnHeap n2) p) (\<lambda>(i, newConn).
             let n3 = (if ccontrol
                  then case SetCCForSocket (NodeTCP n2) (SocketTableKey newConn) of
                         Inl _ \<Rightarrow> n2
                       | Inr t \<Rightarrow> n2\<lparr>NodeTCP := t\<rparr>
                  else n2)
             in gbind (sendfile_loop ns i socketID file 0 n3) (\<lambda>(pc, n4, fx).
                Inr (pc, n4, LogPrint ''returning from connect'' # fx))))"

definition sendfile_written :: "netstack \<Rightarrow> nat \<Rightarrow> nat \<Rightarrow> file_read list \<Rightarrow> u32 \<Rightarrow> u32 \<Rightarrow> string option \<Rightarrow> Node \<Rightarrow> repl_result" where
  \<comment> \<open>\<open>VWrite\<close> has returned\<close>
  "sendfile_written ns p socketID rest bytesWritten numBytesWritten err n =
     (case err of
        Some e \<Rightarrow> Inr (ReplScan, n, [Print (e @ newline)])
      | None \<Rightarrow> sendfile_loop ns p socketID rest (bytesWritten + numBytesWritten) n)"

definition sendfile_closed :: "nat \<Rightarrow> Node \<Rightarrow> repl_result" where
  \<comment> \<open>\<open>VClose\<close> has returned\<close>
  "sendfile_closed socketID n = Inr (ReplScan, clear_slot socketID n, [])"

datatype readfile_pc =
    RfAccept nat nat                    \<comment> \<open>in \<open>VAccept\<close>: the listener and its socket\<close>
  | RfRead nat nat nat nat u32 read_call \<comment> \<open>in \<open>VRead\<close>: also the connection, its socket and \<open>bytesReadTotal\<close>\<close>
  | RfClose nat nat nat u32             \<comment> \<open>in \<open>VClose\<close> of the connection\<close>
  | RfReturned

type_synonym readfile_result = "(readfile_pc \<times> Node \<times> node_effect list) go"

definition ReadFileTCPCommand :: "string \<Rightarrow> u16 \<Rightarrow> node_effect list" where
  "ReadFileTCPCommand filepath port = [GoReadFile filepath port]"

definition readfile_start :: "os \<Rightarrow> string \<Rightarrow> u16 \<Rightarrow> Node \<Rightarrow> readfile_result" where
  \<comment> \<open>the goroutine up to the call of \<open>VAccept\<close>\<close>
  "readfile_start os filepath port n =
     (case Create os filepath of
        Some err \<Rightarrow> Inr (RfReturned, n, [Print err])
      | None \<Rightarrow>
          let (listener, err, n1) = VListen port n
          in (case err of
                Some e \<Rightarrow> Inr (RfReturned, n1, [Print e])
              | None \<Rightarrow>
                  let (p, n2) = new_listener_ptr listener n1; (listenerIndex, n3) = AddToTable (ListenerPtr p) n2
                  in gbind (deref (ListenerHeap n3) p) (\<lambda>(lp, _). Inr (RfAccept lp listenerIndex, n3, []))))"

definition readfile_read :: "nat \<Rightarrow> nat \<Rightarrow> nat \<Rightarrow> nat \<Rightarrow> u32 \<Rightarrow> byte list \<Rightarrow> Node \<Rightarrow> readfile_result" where
  \<comment> \<open>the call of \<open>VRead\<close>\<close>
  "readfile_read lp listenerIndex p connIndex bytesReadTotal buf n =
     gbind (deref (ConnHeap n) (Some p)) (\<lambda>(_, newConn).
     Inr (RfRead lp listenerIndex p connIndex bytesReadTotal (VRead buf 4096 False newConn (NodeTCP n)), n, []))"

definition readfile_accepted :: "nat \<Rightarrow> nat \<Rightarrow> VTCPConn option \<Rightarrow> Node \<Rightarrow> readfile_result" where
  \<comment> \<open>\<open>VAccept\<close> has returned; its error is not looked at\<close>
  "readfile_accepted lp listenerIndex conn n =
     (let (p, n1) = new_conn_ptr conn n; (connIndex, n2) = AddToTable (ConnPtr p) n1
      in gbind (deref (ConnHeap n2) p) (\<lambda>(i, _).
         gbind (readfile_read lp listenerIndex i connIndex 0 (replicate 4096 0) n2) (\<lambda>(pc, n3, fx).
         Inr (pc, n3, Print ''Connection established, reading now...'' # fx))))"

definition readfile_data ::
  "netstack \<Rightarrow> string \<Rightarrow> nat \<Rightarrow> nat \<Rightarrow> nat \<Rightarrow> nat \<Rightarrow> u32 \<Rightarrow> byte list \<Rightarrow> u32 \<Rightarrow> string option \<Rightarrow> string option \<Rightarrow> Node \<Rightarrow> readfile_result" where
  \<comment> \<open>\<open>VRead\<close> has returned \<open>numbytes\<close> and \<open>err\<close>; \<open>werr\<close> is the error of the write to the file\<close>
  "readfile_data ns filepath lp listenerIndex p connIndex bytesReadTotal buf numbytes err werr n =
     (case err of
        Some e \<Rightarrow>
          gbind (deref (ConnHeap n) (Some p)) (\<lambda>(_, newConn).
          gbind (VClose ns newConn (NodeTCP n)) (\<lambda>(vc1, pc, t, fx).
          Inr (RfClose lp listenerIndex connIndex bytesReadTotal, n\<lparr>ConnHeap := (ConnHeap n)[p := vc1], NodeTCP := t\<rparr>,
               LogPrint e # map TCP fx)))
      | None \<Rightarrow>
          gbind (slice buf 0 (unat numbytes)) (\<lambda>bs.
            case werr of
              Some e \<Rightarrow> Inr (RfReturned, n, [LogPrint e])
            | None \<Rightarrow>
                gbind (readfile_read lp listenerIndex p connIndex (bytesReadTotal + numbytes) buf n) (\<lambda>(pc, n1, fx).
                Inr (pc, n1, WriteFile filepath bs # fx))))"

definition readfile_closed :: "nat \<Rightarrow> nat \<Rightarrow> nat \<Rightarrow> u32 \<Rightarrow> Node \<Rightarrow> readfile_result" where
  \<comment> \<open>\<open>VClose\<close> of the connection has returned\<close>
  "readfile_closed lp listenerIndex connIndex bytesReadTotal n =
     gbind (deref (ListenerHeap n) (Some lp)) (\<lambda>(_, listener).
     gbind (listener_VClose listener (NodeTCP n)) (\<lambda>(vl1, t, fx).
     Inr (RfReturned, clear_slot connIndex (clear_slot listenerIndex (n\<lparr>NodeTCP := t, ListenerHeap := (ListenerHeap n)[lp := vl1]\<rparr>)),
          map TCP fx @ [Print (''Total bytes read: '' @ itoa (unat bytesReadTotal) @ newline)])))"

section \<open>Congestion control\<close>

definition ListCongestionControl :: "node_effect list" where
  "ListCongestionControl = [Print (''Congestion control algorithms available: '' @ newline), Print (''--tahoe'' @ newline)]"

definition SetCongestionControl :: "int \<Rightarrow> bool \<Rightarrow> Node \<Rightarrow> (string option \<times> Node) go" where
  \<comment> \<open>\<open>congestionControl\<close> is not used\<close>
  "SetCongestionControl socketId congestionControl n =
     (if socketId < 0 \<or> socketId \<ge> int (length (SocketIndexTable n)) \<or> SocketIndexTable n ! nat socketId = None
      then Inr (Some (''Invalid socket id'' @ newline), n)
      else gbind (elem_at (SocketIndexTable n) socketId) (\<lambda>socket.
        case socket of
          Some (ConnPtr p) \<Rightarrow>
            gbind (deref (ConnHeap n) p) (\<lambda>(_, conn).
              case SetCCForSocket (NodeTCP n) (SocketTableKey conn) of
                Inl _ \<Rightarrow> Inr (None, n)
              | Inr t \<Rightarrow> Inr (None, n\<lparr>NodeTCP := t\<rparr>))
        | _ \<Rightarrow> Inr (Some (''Cannot use send command on socket'' @ newline), n)))"

section \<open>IP commands\<close>

definition SendCommand :: "netstack \<Rightarrow> ip4 \<Rightarrow> string \<Rightarrow> Node \<Rightarrow> node_effect list go" where
  "SendCommand ns ip4 line n =
     (let args = SplitN line 4
      in gbind (elem_at args 1) (\<lambda>arg1.
           case ParseIP arg1 of
             None \<Rightarrow> Inr [LogPrint ''Invalid ip address'']
           | Some ipAddr \<Rightarrow>
               gbind (Uint32_To4 (Some ipAddr)) (\<lambda>destAddr.
               gbind (elem_at args 2) (\<lambda>arg2.
               let (protocolNum, err) = Atoi arg2
               in if err \<noteq> None \<or> protocolNum \<noteq> TEST_PROTOCOL then Inr [LogPrint ''Invalid protocol num'']
                  else gbind (elem_at args 3) (\<lambda>arg3.
                    case SendPacket ns ip4 (NodeHost n) destAddr protocolNum (map of_char arg3) of
                      (None, fx) \<Rightarrow> Inr (map IP fx)
                    | (Some e, fx) \<Rightarrow>
                        Inr (map IP fx @ [LogPrint (''Cannot send to '' @ addrNumToIP destAddr @ '', error: '' @ e)]))))))"

definition interface_row :: "u32 \<Rightarrow> LinkInterface \<Rightarrow> string" where
  "interface_row addrLocalIF localIF =
     fmt_int (InterfaceNumber localIF) @ tab @ ''  '' @ (if Stopped localIF then ''down'' else ''up'') @ tab @ ''  ''
       @ addrNumToIP addrLocalIF @ tab @ ''  '' @ addrNumToIP (DestIPAddress localIF) @ newline"

definition PrintInterfaces :: "u32 list \<Rightarrow> Node \<Rightarrow> node_effect list" where
  "PrintInterfaces order n =
     Tabbed (''id'' @ tab @ ''  state'' @ tab @ ''  local'' @ tab @ ''  remote'' @ newline)
     # concat (map (\<lambda>a. case LocalIFs (NodeHost n) a of None \<Rightarrow> [] | Some localIF \<Rightarrow> [Tabbed (interface_row a localIF)]) order)"

definition route_row :: "u32 \<Rightarrow> RoutingTableEntry \<Rightarrow> string" where
  "route_row dest entry =
     addrNumToIP dest @ tab @ ''  '' @ addrNumToIP (NextHop entry) @ tab @ ''  '' @ itoa (unat (Cost entry)) @ newline"

definition PrintRoutingTable :: "u32 list \<Rightarrow> Node \<Rightarrow> node_effect list" where
  "PrintRoutingTable order n =
     Tabbed (''dest'' @ tab @ ''  next'' @ tab @ ''  cost'' @ newline)
     # concat (map (\<lambda>dest. case HostRoutingTable (NodeHost n) dest of None \<Rightarrow> []
          | Some entry \<Rightarrow> if Cost entry = INFINITY then [] else [Tabbed (route_row dest entry)]) order)"

definition traceroute_report :: "string \<Rightarrow> u32 list \<Rightarrow> Node \<Rightarrow> node_effect list" where
  \<comment> \<open>the last part of \<open>Traceroute\<close>; a first hop that is no neighbour reads as address zero\<close>
  "traceroute_report destAddr path n =
     (case path of
        [] \<Rightarrow> [Print (''Traceroute to '' @ destAddr @ '' does not exist'' @ newline)]
      | first # _ \<Rightarrow>
          let startAddr = (case RemoteDestination (NodeHost n) first of None \<Rightarrow> 0 | Some a \<Rightarrow> a)
          in Print (''Traceroute from '' @ addrNumToIP startAddr @ '' to '' @ destAddr @ newline)
             # map (\<lambda>(index, hop). Print (itoa (index + 1) @ ''  '' @ addrNumToIP hop @ newline)) (enumerate 0 path)
             @ [Print (''Traceroute finished in '' @ itoa (length path) @ '' hops'' @ newline)])"

definition Traceroute :: "string \<Rightarrow> Node \<Rightarrow> repl_result" where
  "Traceroute destAddr n =
     (case ParseIP destAddr of
        None \<Rightarrow> Inr (ReplScan, n, [LogPrint ''The destination address is invalid''])
      | Some destIPAddr \<Rightarrow>
          gbind (Uint32_To4 (Some destIPAddr)) (\<lambda>addr.
            case LocalIFs (NodeHost n) addr of
              Some localIF \<Rightarrow>
                Inr (ReplScan, n,
                  if Stopped localIF then [Print (''Traceroute to '' @ destAddr @ '' does not exist'' @ newline)]
                  else [Print (''Traceroute finished in 0 hops'' @ newline)])
            | None \<Rightarrow>
                (case traceroute_start (NodeHost n) addr (NodeTraceroute n) of
                   (TraceReturned path, tr) \<Rightarrow> Inr (ReplScan, n\<lparr>NodeTraceroute := tr\<rparr>, traceroute_report destAddr path n)
                 | (pc, tr) \<Rightarrow> Inr (ReplTraceroute destAddr addr pc, n\<lparr>NodeTraceroute := tr\<rparr>, []))))"

definition TestReceivePacket :: "IPPacket \<Rightarrow> node_effect list" where
  \<comment> \<open>\<open>ReceivePacket\<close> of \<open>src/pkg/ip/test_handler.go\<close>\<close>
  "TestReceivePacket packet =
     [Print newline, Tabbed (''---Node received packet!---'' @ newline),
      Tabbed (''source IP: '' @ tab @ '' '' @ addrNumToIP (hd_Src (Header packet)) @ newline),
      Tabbed (''destination IP: '' @ tab @ '' '' @ addrNumToIP (hd_Dst (Header packet)) @ newline),
      Tabbed (''protocol: '' @ tab @ '' '' @ fmt_int (hd_Protocol (Header packet)) @ newline),
      Tabbed (''payload length: '' @ tab @ '' '' @ itoa (length (Data packet)) @ newline),
      Tabbed (''payload: '' @ tab @ '' '' @ map (\<lambda>b. char_of (unat b)) (Data packet) @ newline),
      Tabbed (''---------------------------'' @ newline)]"

section \<open>The command loop\<close>

definition quote :: string where "quote = [CHR 0x22]"

definition PrintHelp :: "node_effect list" where
  "PrintHelp = map (\<lambda>l. Tabbed (l @ newline))
    [''---------------------- IP COMMANDS --------------------'',
     ''send <ip> <proto> <string> '' @ tab @ '' - Sends the string payload to the given ip address with the specified protocol.'',
     ''down <interface-num> '' @ tab @ '' - Bring an interface '' @ quote @ ''down'' @ quote @ ''.'',
     ''up <interface-num> '' @ tab @ '' - Bring an interface '' @ quote @ ''up'' @ quote @ ''.'',
     ''interfaces, li <file> '' @ tab @ '' - Print information about each interface, one per line. Optionally specify a destination file.'',
     ''routes, lr <file>'' @ tab @ '' - Print information about the route to each known destination, one per line. Optionally specify a destination file.'',
     ''---------------------- TCP COMMANDS --------------------'',
     ''sockets, ls '' @ tab @ '' - List all sockets, along with the state the TCP connection associated with them is in, and their window sizes.'',
     ''a <port> '' @ tab @ '' - Open a socket, bind it to the given port on any interface, and start accepting connections on that port.'',
     ''c <ip> <port> '' @ tab @ '' - Attempt to connect to the given IP address, in dot notation, on the given port.'',
     ''s <socket ID> <data> '' @ tab @ '' - Send a string on a socket.'',
     ''r <socket ID> <numbytes> <y|n> '' @ tab @ '' - Try to read data from a given socket. y -- block until numbytes is received, n -- return whatever can be read.'',
     ''sd <socket ID> <read|write|both> '' @ tab @ '' - Shutdown the given socket. If read is given, close only the reading side. If write is given, close only the writing side.'',
     ''cl <socket ID> '' @ tab @ '' - Close the given socket.'',
     ''sf <filename> <ip> <port> '' @ tab @ '' - Connect to the given ip and port, send the entirety of the specified file, and close the connection.'',
     ''rf <filename> <port> '' @ tab @ '' - Listen for a connection on the given port. Once established, write everything you can read from the socket to the given file. Once the other side closes the connection, close the connection as well.'',
     ''----------------------------------------------------------'',
     ''quit, q '' @ tab @ '' - Quit this node cleanly.'',
     ''help, h '' @ tab @ '' - Show this help.'']"

definition Quit :: "Node \<Rightarrow> repl_result" where
  \<comment> \<open>the cancel channel has room for one message, so \<open>CancelHost\<close> does not block\<close>
  "Quit n = Inr (ReplExit, n, [Exit])"

definition say :: "Node \<Rightarrow> string \<Rightarrow> repl_result" where
  \<comment> \<open>print a line and wait for the next command\<close>
  "say n s = Inr (ReplScan, n, [Print (s @ newline)])"

definition report :: "string option \<Rightarrow> node_effect list" where
  \<comment> \<open>\<open>if err != nil { fmt.Println(err.Error()) }\<close>\<close>
  "report err = (case err of None \<Rightarrow> [] | Some e \<Rightarrow> [Print (e @ newline)])"

definition cmd_down :: "repl_env \<Rightarrow> string list \<Rightarrow> Node \<Rightarrow> repl_result" where
  "cmd_down env commands n =
     (if length commands < 2 then say n ''Invalid number of arguments for down''
      else case Atoi (commands ! 1) of
        (ifNum, Some _) \<Rightarrow> say n ''Invalid input for interface number''
      | (ifNum, None) \<Rightarrow>
          (case DownInterface (env_ifs env) (NodeHost n) ifNum of
             (err, h) \<Rightarrow> Inr (ReplScan, n\<lparr>NodeHost := h\<rparr>, case err of None \<Rightarrow> [] | Some e \<Rightarrow> [LogPrint e])))"

definition cmd_up :: "repl_env \<Rightarrow> string list \<Rightarrow> Node \<Rightarrow> repl_result" where
  "cmd_up env commands n =
     (if length commands < 2 then say n ''Invalid number of arguments for up''
      else case Atoi (commands ! 1) of
        (ifNum, Some _) \<Rightarrow> say n ''Invalid input for interface number''
      | (ifNum, None) \<Rightarrow>
          (case UpInterface (env_ifs env) (NodeHost n) ifNum of
             (err, h) \<Rightarrow> Inr (ReplScan, n\<lparr>NodeHost := h\<rparr>, case err of None \<Rightarrow> [] | Some e \<Rightarrow> [LogPrint e])))"

definition cmd_a :: "string list \<Rightarrow> Node \<Rightarrow> repl_result" where
  \<comment> \<open>neither the number of arguments nor the error of \<open>Atoi\<close> ends the command\<close>
  "cmd_a commands n =
     (let fx0 = (if length commands \<noteq> 2 then [Print (''Invalid number of arguments for <a>ccept'' @ newline)] else [])
      in gbind (elem_at commands 1) (\<lambda>arg.
         let (port, err) = Atoi arg;
             fx1 = (if err = None then [] else [Print (''Invalid port number: '' @ arg @ newline)]);
             (e, n1, fx2) = AcceptCommand (word_of_int port) n
         in Inr (ReplScan, n1, fx0 @ fx1 @ fx2
              @ (case e of None \<Rightarrow> [] | Some m \<Rightarrow> [Print (''Accept error: '' @ m @ newline)]))))"

definition cmd_c :: "repl_env \<Rightarrow> string list \<Rightarrow> Node \<Rightarrow> repl_result" where
  "cmd_c env commands n =
     (if length commands \<noteq> 3 then say n ''Invalid number of arguments for <c>onnect''
      else let ipAddr = ParseIP (commands ! 1)
        in case Atoi (commands ! 2) of
             (_, Some _) \<Rightarrow> Inr (ReplScan, n, [Print (''Invalid port number: '' @ commands ! 2 @ newline)])
           | (port, None) \<Rightarrow>
               gbind (VConnect (env_ns env) (env_iss env) ipAddr (word_of_int port) n) (\<lambda>(pc, n1, fx).
                 case pc of
                   ConnectWait key \<Rightarrow> Inr (ReplConnect key, n1, fx)
                 | ConnectReturned _ err \<Rightarrow>
                     Inr (ReplScan, n1, fx @ [Print (''Connect error: '' @ (case err of None \<Rightarrow> [] | Some e \<Rightarrow> e) @ newline)])))"

definition cmd_c_return :: "VTCPConn option \<Rightarrow> string option \<Rightarrow> Node \<Rightarrow> repl_result" where
  \<comment> \<open>\<open>ConnectCommand\<close> has returned\<close>
  "cmd_c_return conn err n =
     (case ConnectCommand_return conn err n of
        (Inl e, n1) \<Rightarrow> Inr (ReplScan, n1, [Print (''Connect error: '' @ e @ newline)])
      | (Inr socketNum, n1) \<Rightarrow> Inr (ReplScan, n1, [Print (''v_connect() returned '' @ itoa socketNum @ newline)]))"

definition cmd_ls :: "string list \<Rightarrow> Node \<Rightarrow> repl_result" where
  "cmd_ls commands n =
     (if length commands \<noteq> 1 then say n ''Invalid number of arguments for ls''
      else gbind (ListSocketCommand n) (\<lambda>(n1, fx). Inr (ReplScan, n1, fx)))"

definition cmd_r :: "string list \<Rightarrow> Node \<Rightarrow> repl_result" where
  "cmd_r commands n =
     (if length commands \<noteq> 4 then say n ''Invalid number of arguments for r''
      else case Atoi (commands ! 1) of
        (_, Some _) \<Rightarrow> say n (''Invalid socket id number: '' @ commands ! 1)
      | (socketID, None) \<Rightarrow>
        (case Atoi (commands ! 2) of
           (_, Some _) \<Rightarrow> say n (''Invalid number of bytes: '' @ commands ! 2)
         | (numBytes, None) \<Rightarrow>
             if commands ! 3 = ''y'' \<or> commands ! 3 = ''n''
             then gbind (ReadTCPCommand socketID (word_of_int numBytes) (commands ! 3 = ''y'') n) (\<lambda>r.
                    case r of
                      Inl e \<Rightarrow> Inr (ReplScan, n, report (Some e))
                    | Inr (p, c) \<Rightarrow> Inr (ReplRead p c, n, []))
             else say n (''Invalid option for read: '' @ commands ! 3)))"

definition cmd_cl :: "string list \<Rightarrow> Node \<Rightarrow> repl_result" where
  "cmd_cl commands n =
     (if length commands \<noteq> 2 then say n ''Invalid number of arguments for cl''
      else case Atoi (commands ! 1) of
        (_, Some _) \<Rightarrow> say n (''Invalid socket id number: '' @ commands ! 1)
      | (socketId, None) \<Rightarrow>
          gbind (CloseTCPCommand socketId True n) (\<lambda>(err, n1, fx). Inr (ReplScan, n1, fx @ report err)))"

definition cmd_sd :: "repl_env \<Rightarrow> string list \<Rightarrow> Node \<Rightarrow> repl_result" where
  "cmd_sd env commands n =
     (if length commands \<noteq> 3 then say n ''Invalid number of arguments for sd''
      else case Atoi (commands ! 1) of
        (_, Some _) \<Rightarrow> say n (''Invalid socket id number: '' @ commands ! 1)
      | (socketId, None) \<Rightarrow>
          gbind (ShutDownTCPCommand (env_ns env) socketId (commands ! 2) n) (\<lambda>(err, n1, fx). Inr (ReplScan, n1, fx @ report err)))"

definition cmd_sf :: "repl_env \<Rightarrow> string list \<Rightarrow> Node \<Rightarrow> repl_result" where
  "cmd_sf env commands n =
     (if length commands \<noteq> 4 \<and> length commands \<noteq> 5 then say n ''Invalid number of arguments for sf''
      else case Atoi (commands ! 3) of
        (_, Some _) \<Rightarrow> say n ''Invalid port number''
      | (port, None) \<Rightarrow>
          let ccontrol = (if length commands = 5 then commands ! 4 = ''tahoe'' else False)
          in SendFileTCPCommand (env_os env) (env_ns env) (env_iss env) (commands ! 1) (commands ! 2) (word_of_int port) ccontrol n)"

definition cmd_rf :: "string list \<Rightarrow> Node \<Rightarrow> repl_result" where
  "cmd_rf commands n =
     (if length commands \<noteq> 3 then say n ''Invalid number of arguments for rf''
      else case Atoi (commands ! 2) of
        (_, Some _) \<Rightarrow> say n ''Invalid port number''
      | (port, None) \<Rightarrow> Inr (ReplScan, n, ReadFileTCPCommand (commands ! 1) (word_of_int port)))"

definition cmd_sc :: "string list \<Rightarrow> Node \<Rightarrow> repl_result" where
  \<comment> \<open>a bad socket number is reported and read as zero, and the error of \<open>SetCongestionControl\<close> is ignored\<close>
  "cmd_sc commands n =
     (if length commands \<noteq> 3 then say n ''Invalid number of arguments for sc''
      else if commands ! 2 \<noteq> ''tahoe'' \<and> commands ! 2 \<noteq> ''none'' then say n ''Invalid option for congestion control''
      else let (socketId, err) = Atoi (commands ! 1);
               fx = (if err = None then [] else [Print (''Invalid socket id number: '' @ commands ! 1 @ newline)])
        in gbind (SetCongestionControl socketId (commands ! 2 = ''tahoe'') n) (\<lambda>(_, n1). Inr (ReplScan, n1, fx)))"

definition run_command :: "repl_env \<Rightarrow> string \<Rightarrow> Node \<Rightarrow> repl_result" where
  \<comment> \<open>the \<open>switch\<close> of the loop\<close>
  "run_command env line n =
     (let commands = Split line; cmd = hd commands
      in if cmd = ''interfaces'' \<or> cmd = ''li'' then Inr (ReplScan, n, PrintInterfaces (env_ifs env) n)
         else if cmd = ''routes'' \<or> cmd = ''lr'' then Inr (ReplScan, n, PrintRoutingTable (env_routes env) n)
         else if cmd = ''down'' then cmd_down env commands n
         else if cmd = ''up'' then cmd_up env commands n
         else if cmd = ''send''
           then (if length commands < 4 then say n ''Invalid number of arguments for send''
                 else gbind (SendCommand (env_ns env) (env_ip4 env) line n) (\<lambda>fx. Inr (ReplScan, n, fx)))
         else if cmd = ''q''
           then (if length commands \<noteq> 1 then say n ''Invalid number of arguments for q'' else Quit n)
         else if cmd = ''traceroute''
           then (if length commands \<noteq> 2 then say n ''Invalid number of arguments for traceroute'' else Traceroute (commands ! 1) n)
         else if cmd = ''a'' then cmd_a commands n
         else if cmd = ''c'' then cmd_c env commands n
         else if cmd = ''ls'' \<or> cmd = ''sockets'' then cmd_ls commands n
         else if cmd = ''s''
           then (if length commands < 3 then say n ''Invalid number of arguments for s'' else SendTCPCommand line n)
         else if cmd = ''r'' then cmd_r commands n
         else if cmd = ''cl'' then cmd_cl commands n
         else if cmd = ''sd'' then cmd_sd env commands n
         else if cmd = ''sf'' then cmd_sf env commands n
         else if cmd = ''rf'' then cmd_rf commands n
         else if cmd = ''lc''
           then (if length commands \<noteq> 1 then say n ''Invalid number of arguments for lc'' else Inr (ReplScan, n, ListCongestionControl))
         else if cmd = ''sc'' then cmd_sc commands n
         else Inr (ReplScan, n, PrintHelp))"

definition with_prompt :: "repl_result \<Rightarrow> repl_result" where
  \<comment> \<open>the prompt follows a command that has ended\<close>
  "with_prompt r = gbind r (\<lambda>(pc, n, fx). Inr (pc, n, fx @ (if pc = ReplScan then [Print ''> ''] else [])))"

definition REPL_line :: "repl_env \<Rightarrow> string \<Rightarrow> Node \<Rightarrow> repl_result" where
  \<comment> \<open>one line from the scanner\<close>
  "REPL_line env line n =
     (if length line = 0 then Inr (ReplScan, n, [Print ''> '']) else with_prompt (run_command env line n))"

datatype call_result =
    ConnectRet "VTCPConn option" "string option"
  | WriteRet u32 "string option"
  | ReadRet read_call u32 "string option"
  | CloseRet
  | TraceRet "u32 list"

fun resume_command :: "repl_env \<Rightarrow> repl_pc \<Rightarrow> call_result \<Rightarrow> Node \<Rightarrow> repl_result" where
  \<comment> \<open>the call in which a command waits has returned; it does not react to the return of another one\<close>
  "resume_command env (ReplConnect key) (ConnectRet conn err) n = cmd_c_return conn err n"
| "resume_command env (ReplWrite p c) (WriteRet k err) n = Inr (ReplScan, n, SendTCPCommand_return k)"
| "resume_command env (ReplRead p c) (ReadRet c1 k err) n = Inr (ReplScan, n, ReadTCPCommand_return c1 k err)"
| "resume_command env (ReplSendFile (SfConnect key file cc)) (ConnectRet conn err) n =
     sendfile_connected (env_ns env) conn err file cc n"
| "resume_command env (ReplSendFile (SfWrite p socketID rest written c)) (WriteRet k err) n =
     sendfile_written (env_ns env) p socketID rest written k err n"
| "resume_command env (ReplSendFile (SfClose socketID)) CloseRet n = sendfile_closed socketID n"
| "resume_command env (ReplTraceroute destAddr addr pc) (TraceRet path) n =
     Inr (ReplScan, n, traceroute_report destAddr path n)"
| "resume_command env pc r n = Inr (pc, n, [])"

definition REPL_resume :: "repl_env \<Rightarrow> repl_pc \<Rightarrow> call_result \<Rightarrow> Node \<Rightarrow> repl_result" where
  "REPL_resume env pc r n = with_prompt (resume_command env pc r n)"

end
