(* ===== verification/NodeSockets.thy ===== *)
theory NodeSockets
  imports NodeCommands
begin

text \<open>
  The socket numbers of the node and the runs of its commands. The table is a table of descriptors: the contract is a
  locale, which the table of \<open>AddToTable\<close> satisfies when its calls do not overlap. From it follows that a number keeps
  naming the socket it was given for, and no two numbers name the same socket; two overlapping calls, which no lock excludes, can be given
  the same number. The other properties say which lines crash a healthy node and what \<open>sf\<close> writes.
\<close>

section \<open>Tables of descriptors\<close>

locale slot_table =
  fixes add :: "'a \<Rightarrow> 'a option list \<Rightarrow> nat \<times> 'a option list"
  assumes add_here: "add s xs = (i, ys) \<Longrightarrow> i < length ys \<and> ys ! i = Some s"
    and add_free: "add s xs = (i, ys) \<Longrightarrow> i < length xs \<Longrightarrow> xs ! i = None"
    and add_lowest: "add s xs = (i, ys) \<Longrightarrow> j < i \<Longrightarrow> j < length xs \<and> xs ! j \<noteq> None"
    and add_other: "add s xs = (i, ys) \<Longrightarrow> j < length xs \<Longrightarrow> j \<noteq> i \<Longrightarrow> ys ! j = xs ! j"
    and add_length: "add s xs = (i, ys) \<Longrightarrow> length ys = max (length xs) (Suc i)"
begin

lemma add_keeps: "add s xs = (i, ys) \<Longrightarrow> j < length xs \<Longrightarrow> xs ! j = Some x \<Longrightarrow> ys ! j = Some x"
  using add_free add_other by (cases "j = i") force+

lemma add_only: "add s xs = (i, ys) \<Longrightarrow> j < length ys \<Longrightarrow> j \<noteq> i \<Longrightarrow> j < length xs \<and> ys ! j = xs ! j"
  using add_lowest [of s xs i ys j] add_other [of s xs i ys j] add_length [of s xs i ys] by (cases "j < i") auto

end

lemma find_free_Some: "find_free xs = Some i \<Longrightarrow> i < length xs \<and> xs ! i = None \<and> (\<forall>j < i. xs ! j \<noteq> None)"
  by (induction xs arbitrary: i rule: find_free.induct) (auto simp: less_Suc_eq_0_disj)

lemma find_free_None: "find_free xs = None \<Longrightarrow> j < length xs \<Longrightarrow> xs ! j \<noteq> None"
  by (induction xs arbitrary: j rule: find_free.induct) (auto simp: less_Suc_eq_0_disj)

lemma add_slotE:
  assumes "add_slot s xs = (i, ys)"
  obtains "find_free xs = Some i" and "ys = xs[i := Some s]" | "find_free xs = None" and "i = length xs" and "ys = xs @ [Some s]"
  using assms by (auto simp: add_slot_def put_slot_def split: option.splits)

interpretation slots: slot_table add_slot
proof
  fix s :: 'a and xs i ys j
  assume a: "add_slot s xs = (i, ys)"
  show "i < length ys \<and> ys ! i = Some s"
    using a by (rule add_slotE) (auto dest: find_free_Some)
  show "xs ! i = None" if "i < length xs"
    using a by (rule add_slotE) (use that in \<open>auto dest: find_free_Some\<close>)
  show "j < length xs \<and> xs ! j \<noteq> None" if "j < i"
    using a by (rule add_slotE) (use that find_free_None in \<open>auto dest: find_free_Some\<close>)
  show "ys ! j = xs ! j" if "j < length xs" "j \<noteq> i"
    using a by (rule add_slotE) (use that in \<open>auto simp: nth_append\<close>)
  show "length ys = max (length xs) (Suc i)"
    using a by (rule add_slotE) (auto dest: find_free_Some)
qed

text \<open>Two calls that both search before either writes are given the same number, and only the later socket is in the table.\<close>

lemma overlapping_adds:
  assumes "find_free xs = Some i"
  shows "put_slot s1 (find_free xs) xs = (i, xs[i := Some s1])
    \<and> put_slot s2 (find_free xs) (xs[i := Some s1]) = (i, xs[i := Some s2])"
  using assms by (simp add: put_slot_def)

section \<open>How the table changes\<close>

fun handle_in :: "Node \<Rightarrow> socket \<Rightarrow> bool" where
  \<comment> \<open>a pointer to an existing handle, or nil\<close>
  "handle_in n (ConnPtr p) = (case p of None \<Rightarrow> True | Some i \<Rightarrow> i < length (ConnHeap n))"
| "handle_in n (ListenerPtr p) = (case p of None \<Rightarrow> True | Some i \<Rightarrow> i < length (ListenerHeap n))"

fun not_nil :: "socket \<Rightarrow> bool" where
  "not_nil (ConnPtr p) = (p \<noteq> None)"
| "not_nil (ListenerPtr p) = (p \<noteq> None)"

definition names :: "Node \<Rightarrow> nat \<Rightarrow> socket \<Rightarrow> bool" where
  "names n i s \<longleftrightarrow> i < length (SocketIndexTable n) \<and> SocketIndexTable n ! i = Some s"

definition table_ok :: "Node \<Rightarrow> bool" where
  "table_ok n \<longleftrightarrow> (\<forall>i s. names n i s \<longrightarrow> handle_in n s) \<and> (\<forall>i j s. names n i s \<and> names n j s \<and> not_nil s \<longrightarrow> i = j)"

definition evolves :: "Node \<Rightarrow> Node \<Rightarrow> bool" where
  \<comment> \<open>handles are only added, an occupied slot keeps its socket or is cleared, and a socket that appears is new or nil\<close>
  "evolves n n' \<longleftrightarrow> length (ConnHeap n) \<le> length (ConnHeap n') \<and> length (ListenerHeap n) \<le> length (ListenerHeap n')
     \<and> length (SocketIndexTable n) \<le> length (SocketIndexTable n')
     \<and> (\<forall>i s s'. names n i s \<and> names n' i s' \<longrightarrow> s' = s)
     \<and> (table_ok n \<longrightarrow> table_ok n')"

definition quiet :: "Node \<Rightarrow> Node \<Rightarrow> bool" where
  \<comment> \<open>the table and the places of the handles are as before\<close>
  "quiet n n' \<longleftrightarrow> SocketIndexTable n' = SocketIndexTable n \<and> length (ConnHeap n') = length (ConnHeap n)
     \<and> length (ListenerHeap n') = length (ListenerHeap n)"

definition clears :: "Node \<Rightarrow> Node \<Rightarrow> bool" where
  \<comment> \<open>some slots have become nil\<close>
  "clears n n' \<longleftrightarrow> length (SocketIndexTable n') = length (SocketIndexTable n) \<and> (\<forall>i s. names n' i s \<longrightarrow> names n i s)
     \<and> length (ConnHeap n') = length (ConnHeap n) \<and> length (ListenerHeap n') = length (ListenerHeap n)"

named_theorems node_frame \<open>operations that leave the table as it is\<close>

lemma handle_in_cong:
  "length (ConnHeap n') = length (ConnHeap n) \<Longrightarrow> length (ListenerHeap n') = length (ListenerHeap n) \<Longrightarrow> handle_in n' s = handle_in n s"
  by (cases s) (auto split: option.splits)

lemma handle_in_mono:
  "handle_in n s \<Longrightarrow> length (ConnHeap n) \<le> length (ConnHeap n') \<Longrightarrow> length (ListenerHeap n) \<le> length (ListenerHeap n') \<Longrightarrow> handle_in n' s"
  by (cases s) (auto split: option.splits)

lemma names_cong: "SocketIndexTable n' = SocketIndexTable n \<Longrightarrow> names n' = names n"
  by (simp add: names_def fun_eq_iff)

lemma quiet_clears: "quiet n n' \<Longrightarrow> clears n n'"
  using names_cong [of n' n] by (simp add: quiet_def clears_def)

lemma clears_trans: "clears n n1 \<Longrightarrow> clears n1 n2 \<Longrightarrow> clears n n2"
  by (simp add: clears_def)

lemma clears_evolves: "clears n n' \<Longrightarrow> evolves n n'"
  using handle_in_cong [of n' n] unfolding clears_def evolves_def table_ok_def by (auto 4 3 simp: names_def)

lemma quiet_table_ok: "quiet n n' \<Longrightarrow> table_ok n' = table_ok n"
  using handle_in_cong [of n' n] names_cong [of n' n] by (simp add: quiet_def table_ok_def)

lemma evolves_quiet: "quiet n n1 \<Longrightarrow> evolves n1 n2 \<Longrightarrow> quiet n2 n3 \<Longrightarrow> evolves n n3"
  using quiet_table_ok [of n n1] quiet_table_ok [of n2 n3] names_cong [of n1 n] names_cong [of n3 n2]
  by (simp add: evolves_def quiet_def)

lemma clears_clear_slot: "clears n (clear_slot i n)"
  by (auto simp: clears_def clear_slot_def names_def) (metis nth_list_update_eq nth_list_update_neq option.distinct(1))

lemma clears_fold: "clears n (fold clear_slot is n)"
  by (induction "is" arbitrary: n) (auto simp: quiet_clears quiet_def intro: clears_trans clears_clear_slot)

lemma quiet_refl [simp, node_frame]: "quiet n n"
  by (simp add: quiet_def)

lemma quiet_updates [simp, node_frame]:
  "quiet n (n1\<lparr>ConnHeap := (ConnHeap n1)[i := vc], NodeTCP := t\<rparr>) = quiet n n1"
  "quiet n (n1\<lparr>NodeTCP := t\<rparr>) = quiet n n1" "quiet n (n1\<lparr>NodeHost := h\<rparr>) = quiet n n1"
  "quiet n (n1\<lparr>NodeTraceroute := tr\<rparr>) = quiet n n1"
  "quiet n (n1\<lparr>ConnHeap := (ConnHeap n1)[i := vc]\<rparr>) = quiet n n1"
  "quiet n (n1\<lparr>ListenerHeap := (ListenerHeap n1)[i := vl]\<rparr>) = quiet n n1"
  by (simp_all add: quiet_def)

lemma clears_updates [simp, node_frame]:
  "clears n (n1\<lparr>NodeTCP := t\<rparr>) = clears n n1"
  "clears n (n1\<lparr>ConnHeap := (ConnHeap n1)[i := vc]\<rparr>) = clears n n1"
  "clears n (n1\<lparr>ListenerHeap := (ListenerHeap n1)[i := vl]\<rparr>) = clears n n1"
  "clears n (n1\<lparr>NodeTCP := t, ListenerHeap := (ListenerHeap n1)[i := vl]\<rparr>) = clears n n1"
  "clears n (n1\<lparr>ConnHeap := (ConnHeap n1)[i := vc], NodeTCP := t\<rparr>) = clears n n1"
  by (auto simp: clears_def names_def)

lemma clears_refl [simp, node_frame]: "clears n n"
  by (simp add: clears_def)

lemma gbind_InrE:
  assumes "gbind m f = Inr y"
  obtains x where "m = Inr x" and "f x = Inr y"
  using assms by (cases m) auto

text \<open>A socket with a new handle, or with a nil pointer, is put into the table.\<close>

lemma names_add:
  assumes "AddToTable s n = (i, n')"
  shows "names n' i s" and "names n' j s' \<Longrightarrow> j = i \<and> s' = s \<or> j \<noteq> i \<and> names n j s'" and "\<not> names n i s'"
    and "length (SocketIndexTable n) \<le> length (SocketIndexTable n')"
    and "ConnHeap n' = ConnHeap n" and "ListenerHeap n' = ListenerHeap n"
proof -
  obtain ys where a: "add_slot s (SocketIndexTable n) = (i, ys)" "n' = n\<lparr>SocketIndexTable := ys\<rparr>"
    using assms by (auto simp: AddToTable_def split: prod.splits)
  show "names n' i s" using slots.add_here [OF a(1)] a(2) by (simp add: names_def)
  show "j = i \<and> s' = s \<or> j \<noteq> i \<and> names n j s'" if "names n' j s'"
    using that slots.add_here [OF a(1)] slots.add_only [OF a(1), of j] a(2) by (cases "j = i") (auto simp: names_def)
  show "\<not> names n i s'" using slots.add_free [OF a(1)] by (auto simp: names_def)
  show "length (SocketIndexTable n) \<le> length (SocketIndexTable n')" using slots.add_length [OF a(1)] a(2) by simp
qed (use assms in \<open>auto simp: AddToTable_def split: prod.splits\<close>)

lemma evolves_add:
  assumes "AddToTable s n1 = (i, n2)" and "SocketIndexTable n1 = SocketIndexTable n"
    and "length (ConnHeap n) \<le> length (ConnHeap n1)" and "length (ListenerHeap n) \<le> length (ListenerHeap n1)"
    and "handle_in n1 s" and "not_nil s \<Longrightarrow> \<not> handle_in n s"
  shows "evolves n n2"
proof -
  note add = names_add [OF assms(1)]
  have nm: "names n1 = names n" using names_cong [OF assms(2)] .
  have "table_ok n2" if ok: "table_ok n"
  proof -
    from ok have old: "\<And>j s'. names n j s' \<Longrightarrow> handle_in n s'"
      "\<And>j k s'. names n j s' \<Longrightarrow> names n k s' \<Longrightarrow> not_nil s' \<Longrightarrow> j = k"
      unfolding table_ok_def by blast+
    have "handle_in n2 s'" if "names n2 j s'" for j s'
      using add(2) [OF that, unfolded nm]
    proof (elim disjE conjE)
      assume "s' = s"
      then show ?thesis using assms(5) handle_in_cong [of n2 n1 s] by (simp add: add(5,6))
    next
      assume "names n j s'"
      then show ?thesis using old(1) handle_in_mono [of n s' n2] assms(3,4) by (simp add: add(5,6))
    qed
    moreover have "j = k" if "names n2 j s'" "names n2 k s'" "not_nil s'" for j k s'
      using add(2) [OF that(1), unfolded nm] add(2) [OF that(2), unfolded nm] that(3) old assms(6) by blast
    ultimately show ?thesis unfolding table_ok_def by blast
  qed
  moreover have "s'' = s'" if "names n j s'" "names n2 j s''" for j s' s''
    using add(2) [OF that(2), unfolded nm] add(3) [unfolded nm] that(1) by (auto simp: names_def)
  ultimately show ?thesis using assms(2-4) add(4-6) by (auto simp: evolves_def)
qed

lemma evolves_new_conn:
  assumes "new_conn_ptr vc n = (p, n1)" and "AddToTable (ConnPtr p) n1 = (i, n2)"
  shows "evolves n n2"
  by (rule evolves_add [OF assms(2)]) (use assms(1) in \<open>auto simp: new_conn_ptr_def new_conn_handle_def split: option.splits\<close>)

lemma evolves_new_listener:
  assumes "new_listener_ptr vl n = (p, n1)" and "AddToTable (ListenerPtr p) n1 = (i, n2)"
  shows "evolves n n2"
  by (rule evolves_add [OF assms(2)]) (use assms(1) in \<open>auto simp: new_listener_ptr_def new_listener_handle_def split: option.splits\<close>)

lemma quiet_evolves: "quiet n n' \<Longrightarrow> evolves n n'"
  by (intro clears_evolves quiet_clears)

lemma evolves_then_quiet: "evolves n n1 \<Longrightarrow> quiet n1 n2 \<Longrightarrow> evolves n n2"
  by (rule evolves_quiet [OF quiet_refl])

section \<open>The commands\<close>

lemma AcceptCommand_evolves:
  assumes "AcceptCommand port n = (e, n', fx)"
  shows "evolves n n'"
proof -
  obtain vl err t where l: "Listen port (NodeTCP n) = (vl, err, t)" by (cases "Listen port (NodeTCP n)")
  obtain p n2 where p: "new_listener_ptr vl (n\<lparr>NodeTCP := t\<rparr>) = (p, n2)" by fastforce
  obtain i n3 where i: "AddToTable (ListenerPtr p) n2 = (i, n3)" by fastforce
  have "n' = n3" using assms l p i by (auto simp: AcceptCommand_def VListen_def split: option.splits)
  then show ?thesis using evolves_quiet [OF _ evolves_new_listener [OF p i] quiet_refl, of n] by simp
qed

lemma ConnectCommand_return_evolves:
  assumes "ConnectCommand_return conn err n = (r, n')"
  shows "evolves n n'"
  using assms evolves_new_conn [of conn n] quiet_evolves [of n n]
  by (auto simp: ConnectCommand_return_def split: option.splits prod.splits)

lemma acceptHelper_return_evolves:
  assumes "acceptHelper_return conn err n = (b, n', fx)"
  shows "evolves n n'"
  using assms evolves_new_conn [of conn n] quiet_evolves [of n n]
  by (auto simp: acceptHelper_return_def new_conn_ptr_def split: option.splits prod.splits)

lemma ListSocketCommand_clears: "ListSocketCommand n = Inr (n', fx) \<Longrightarrow> clears n n'"
  by (auto simp: ListSocketCommand_def gbind_Inr_iff clears_fold)

lemma CloseTCPCommand_clears: "CloseTCPCommand socketID noRead n = Inr (e, n', fx) \<Longrightarrow> clears n n'"
  by (auto simp: CloseTCPCommand_def Let_def clears_clear_slot elim!: gbind_InrE split: if_splits option.splits socket.splits)

lemma ShutDownTCPCommand_clears: "ShutDownTCPCommand ns socketID opt n = Inr (e, n', fx) \<Longrightarrow> clears n n'"
  by (auto simp: ShutDownTCPCommand_def elim!: gbind_InrE split: if_splits option.splits socket.splits
      dest: CloseTCPCommand_clears)

lemma close_goroutine_quiet: "close_goroutine ns p noRead n = Inr (pc, n', fx) \<Longrightarrow> quiet n n'"
  by (auto simp: close_goroutine_def gbind_Inr_iff)

lemma VConnect_quiet: "VConnect ns iss addr port n = Inr (pc, n', fx) \<Longrightarrow> quiet n n'"
  by (auto simp: VConnect_def gbind_Inr_iff)

lemma sendfile_loop_quiet: "sendfile_loop ns p i rest w n = Inr (pc, n', fx) \<Longrightarrow> quiet n n'"
  by (auto simp: sendfile_loop_def gbind_Inr_iff split: if_splits prod.splits option.splits)

lemma sendfile_connected_evolves:
  assumes "sendfile_connected ns conn err file cc n = Inr (pc, n', fx)"
  shows "evolves n n'"
proof (cases err)
  case None
  obtain p n1 where p: "new_conn_ptr conn n = (p, n1)" by fastforce
  obtain i n2 where i: "AddToTable (ConnPtr p) n1 = (i, n2)" by fastforce
  have "quiet n2 n'"
    using assms None p i
    by (auto simp: sendfile_connected_def gbind_Inr_iff Let_def split: if_splits sum.splits dest!: sendfile_loop_quiet) (simp_all add: quiet_def)
  then show ?thesis by (rule evolves_then_quiet [OF evolves_new_conn [OF p i]])
qed (use assms in \<open>auto simp: sendfile_connected_def intro: quiet_evolves\<close>)

lemma SendFileTCPCommand_quiet: "SendFileTCPCommand os ns iss path ip port cc n = Inr (pc, n', fx) \<Longrightarrow> quiet n n'"
  by (auto simp: SendFileTCPCommand_def elim!: gbind_InrE split: option.splits sum.splits connect_pc.splits dest: VConnect_quiet)

lemma SetCongestionControl_quiet: "SetCongestionControl i b n = Inr (e, n') \<Longrightarrow> quiet n n'"
  by (auto simp: SetCongestionControl_def elim!: gbind_InrE split: if_splits option.splits socket.splits sum.splits)

lemma say_quiet: "say n s = Inr (pc, n', fx) \<Longrightarrow> quiet n n'"
  by (simp add: say_def)

lemma Traceroute_quiet: "Traceroute d n = Inr (pc, n', fx) \<Longrightarrow> quiet n n'"
  by (auto simp: Traceroute_def elim!: gbind_InrE split: option.splits prod.splits traceroute_pc.splits)

lemma SendTCPCommand_quiet: "SendTCPCommand line n = Inr (pc, n', fx) \<Longrightarrow> quiet n n'"
  by (auto simp: SendTCPCommand_def Let_def elim!: gbind_InrE split: if_splits option.splits socket.splits prod.splits)

lemma cmd_quiet:
  "cmd_down env cs n = Inr (pc, n', fx) \<Longrightarrow> quiet n n'" "cmd_up env cs n = Inr (pc, n', fx) \<Longrightarrow> quiet n n'"
  "cmd_c env cs n = Inr (pc, n', fx) \<Longrightarrow> quiet n n'" "cmd_r cs n = Inr (pc, n', fx) \<Longrightarrow> quiet n n'"
  "cmd_sf env cs n = Inr (pc, n', fx) \<Longrightarrow> quiet n n'" "cmd_rf cs n = Inr (pc, n', fx) \<Longrightarrow> quiet n n'"
  "cmd_sc cs n = Inr (pc, n', fx) \<Longrightarrow> quiet n n'"
  by (auto simp: cmd_down_def cmd_up_def cmd_c_def cmd_r_def cmd_sf_def cmd_rf_def cmd_sc_def Let_def
      elim!: gbind_InrE split: if_splits option.splits prod.splits connect_pc.splits sum.splits
      dest: say_quiet VConnect_quiet SendFileTCPCommand_quiet SetCongestionControl_quiet)

lemma cmd_clears:
  "cmd_ls cs n = Inr (pc, n', fx) \<Longrightarrow> clears n n'" "cmd_cl cs n = Inr (pc, n', fx) \<Longrightarrow> clears n n'"
  "cmd_sd env cs n = Inr (pc, n', fx) \<Longrightarrow> clears n n'"
  by (auto simp: cmd_ls_def cmd_cl_def cmd_sd_def elim!: gbind_InrE split: if_splits option.splits prod.splits
      dest: say_quiet quiet_clears ListSocketCommand_clears CloseTCPCommand_clears ShutDownTCPCommand_clears)

lemma cmd_a_evolves: "cmd_a cs n = Inr (pc, n', fx) \<Longrightarrow> evolves n n'"
  by (auto simp: cmd_a_def Let_def elim!: gbind_InrE split: prod.splits dest: AcceptCommand_evolves)

lemma if_elim:
  assumes "(if b then x else y) = z" and "x = z \<Longrightarrow> P" and "y = z \<Longrightarrow> P"
  shows P
  using assms by presburger

lemma direct_evolves: "(Inr (pc0, n, fx0) :: repl_result) = Inr (pc, n', fx) \<Longrightarrow> evolves n n'"
  by (simp add: quiet_evolves)

lemma run_command_evolves:
  assumes "run_command env line n = Inr (pc, n', fx)"
  shows "evolves n n'"
proof -
  note q = direct_evolves quiet_evolves [OF say_quiet] quiet_evolves [OF Traceroute_quiet] quiet_evolves [OF SendTCPCommand_quiet]
    cmd_quiet [THEN quiet_evolves] cmd_clears [THEN clears_evolves] cmd_a_evolves
  show ?thesis
    using assms unfolding run_command_def Let_def Quit_def
    by - (elim if_elim; (elim gbind_InrE)?; erule q)
qed

lemma with_prompt_evolves:
  assumes "with_prompt r = Inr (pc, n', fx)" and "\<And>pc fx n'. r = Inr (pc, n', fx) \<Longrightarrow> evolves n n'"
  shows "evolves n n'"
  using assms by (auto simp: with_prompt_def elim!: gbind_InrE)

lemma REPL_line_evolves: "REPL_line env line n = Inr (pc, n', fx) \<Longrightarrow> evolves n n'"
  unfolding REPL_line_def by (elim if_elim) (erule direct_evolves, erule with_prompt_evolves, rule run_command_evolves)

lemma resume_command_evolves: "resume_command env pc r n = Inr (pc', n', fx) \<Longrightarrow> evolves n n'"
proof (induction env pc r n rule: resume_command.induct)
  case (1 env key conn err n)
  then show ?case
    by (auto simp: cmd_c_return_def split: prod.splits sum.splits dest: ConnectCommand_return_evolves)
next
  case (4 env key bs cc conn err n)
  then show ?case by (simp add: sendfile_connected_evolves)
next
  case (5 env p socketID rest written c k err n)
  then show ?case by (auto simp: sendfile_written_def split: option.splits dest: sendfile_loop_quiet intro: quiet_evolves)
next
  case (6 env socketID n)
  then show ?case by (auto simp: sendfile_closed_def intro: clears_evolves clears_clear_slot)
qed (simp_all add: quiet_evolves)

lemma REPL_resume_evolves: "REPL_resume env pc r n = Inr (pc', n', fx) \<Longrightarrow> evolves n n'"
  unfolding REPL_resume_def by (erule with_prompt_evolves, rule resume_command_evolves)

lemma readfile_read_quiet: "readfile_read lp li p ci tot buf n = Inr (pc, n', fx) \<Longrightarrow> quiet n n'"
  by (auto simp: readfile_read_def elim!: gbind_InrE)

lemma readfile_start_evolves:
  assumes "readfile_start os path port n = Inr (pc, n', fx)"
  shows "evolves n n'"
proof -
  obtain vl err t where l: "Listen port (NodeTCP n) = (vl, err, t)" by (cases "Listen port (NodeTCP n)")
  obtain p n2 where p: "new_listener_ptr vl (n\<lparr>NodeTCP := t\<rparr>) = (p, n2)" by fastforce
  obtain i n3 where i: "AddToTable (ListenerPtr p) n2 = (i, n3)" by fastforce
  have "n' = n3 \<or> quiet n n'"
    using assms l p i by (auto simp: readfile_start_def VListen_def elim!: gbind_InrE split: option.splits)
  then show ?thesis using evolves_quiet [OF _ evolves_new_listener [OF p i] quiet_refl, of n] quiet_evolves [of n n'] by auto
qed

lemma readfile_accepted_evolves:
  assumes "readfile_accepted lp li conn n = Inr (pc, n', fx)"
  shows "evolves n n'"
proof -
  obtain p n1 where p: "new_conn_ptr conn n = (p, n1)" by fastforce
  obtain i n2 where i: "AddToTable (ConnPtr p) n1 = (i, n2)" by fastforce
  have "quiet n2 n'" using assms p i by (auto simp: readfile_accepted_def elim!: gbind_InrE dest: readfile_read_quiet)
  then show ?thesis by (rule evolves_then_quiet [OF evolves_new_conn [OF p i]])
qed

lemma readfile_data_quiet:
  "readfile_data ns path lp li p ci tot buf k err werr n = Inr (pc, n', fx) \<Longrightarrow> quiet n n'"
  by (auto simp: readfile_data_def elim!: gbind_InrE split: option.splits dest: readfile_read_quiet)

lemma readfile_closed_clears: "readfile_closed lp li ci tot n = Inr (pc, n', fx) \<Longrightarrow> clears n n'"
  by (auto simp: readfile_closed_def elim!: gbind_InrE intro!: clears_trans [OF _ clears_clear_slot])

section \<open>Runs of the node\<close>

text \<open>
  A step of the node: a command line, the return of the call a command waits in, a turn of one of the goroutines of the
  commands, or a step of the protocol stack, which may change everything but the sockets of the node.
\<close>

inductive node_step :: "Node \<Rightarrow> Node \<Rightarrow> bool" where
  line: "REPL_line env text n = Inr (pc, n', fx) \<Longrightarrow> node_step n n'"
| resume: "REPL_resume env pc r n = Inr (pc', n', fx) \<Longrightarrow> node_step n n'"
| accept_call: "acceptHelper_call lp n = Inr (apc, n') \<Longrightarrow> node_step n n'"
| accepted: "acceptHelper_return conn err n = (goes_on, n', fx) \<Longrightarrow> node_step n n'"
| close: "close_goroutine ns p noRead n = Inr (cpc, n', fx) \<Longrightarrow> node_step n n'"
| deletion: "node_step n (HandleDeletion i n)"
| rf_start: "readfile_start os path port n = Inr (rpc, n', fx) \<Longrightarrow> node_step n n'"
| rf_accepted: "readfile_accepted lp li conn n = Inr (rpc, n', fx) \<Longrightarrow> node_step n n'"
| rf_data: "readfile_data ns path lp li p ci tot buf k err werr n = Inr (rpc, n', fx) \<Longrightarrow> node_step n n'"
| rf_closed: "readfile_closed lp li ci tot n = Inr (rpc, n', fx) \<Longrightarrow> node_step n n'"
| stack: "node_step n (n\<lparr>NodeHost := h, NodeTCP := t, NodeTraceroute := tr\<rparr>)"

lemma node_step_evolves: "node_step n n' \<Longrightarrow> evolves n n'"
proof (induction rule: node_step.induct)
  case (accept_call lp n apc n')
  then show ?case by (auto simp: acceptHelper_call_def elim!: gbind_InrE split: prod.splits intro!: quiet_evolves)
qed (auto intro: REPL_line_evolves REPL_resume_evolves acceptHelper_return_evolves quiet_evolves clears_evolves
    close_goroutine_quiet readfile_start_evolves readfile_accepted_evolves readfile_data_quiet readfile_closed_clears
    simp: HandleDeletion_def clears_clear_slot)

lemma AddToTable_lowest:
  assumes "AddToTable s n = (i, n')"
  shows "i = (LEAST i. \<forall>s. \<not> names n i s)"
proof -
  obtain ys where a: "add_slot s (SocketIndexTable n) = (i, ys)" using assms by (auto simp: AddToTable_def split: prod.splits)
  have "\<exists>s. names n j s" if "j < i" for j using slots.add_lowest [OF a that] by (auto simp: names_def)
  then show ?thesis using names_add(3) [OF assms] by (intro Least_equality [symmetric]) (auto simp: not_le [symmetric])
qed

lemma table_ok_reachable:
  assumes "node_step\<^sup>*\<^sup>* n0 n" and "table_ok n0"
  shows "table_ok n"
  using assms by induction (auto dest: node_step_evolves simp: evolves_def)

section \<open>Nil pointers in the table\<close>

lemma GetSocketTableKey_Inl: "GetSocketTableKey n s = Inl f \<Longrightarrow> f = Panic"
  by (auto simp: GetSocketTableKey_def deref_def gbind_def split: socket.splits option.splits if_splits sum.splits)

lemma list_sockets_nil: "Some (ListenerPtr None) \<in> set tbl \<Longrightarrow> list_sockets n i tbl = Inl Panic"
proof (induction n i tbl rule: list_sockets.induct)
  case (3 n i s rest)
  show ?case
  proof (cases "GetSocketTableKey n s")
    case (Inl f)
    then show ?thesis using GetSocketTableKey_Inl [OF Inl] by simp
  next
    case (Inr key)
    then have "s \<noteq> ListenerPtr None" by (auto simp: GetSocketTableKey_def deref_def)
    then show ?thesis using 3 Inr by simp
  qed
qed simp_all

section \<open>Lines that crash the node\<close>

definition healthy :: "Node \<Rightarrow> bool" where
  \<comment> \<open>every number in use names an existing handle, and every listener is in the table of the TCP handler\<close>
  "healthy n \<longleftrightarrow> (\<forall>s. Some s \<in> set (SocketIndexTable n) \<longrightarrow> not_nil s \<and> handle_in n s
     \<and> (\<forall>p. s = ListenerPtr (Some p) \<longrightarrow> SocketTable (NodeTCP n) (ListenerTableKey (ListenerHeap n ! p)) \<noteq> None))"

definition not_ipv4 :: "string \<Rightarrow> bool" where
  \<comment> \<open>an address that is read, but is not an IPv4 address\<close>
  "not_ipv4 s \<longleftrightarrow> (case ParseIP s of None \<Rightarrow> False | Some ip \<Rightarrow> To4 ip = None)"

definition crash_line :: "os \<Rightarrow> string list \<Rightarrow> bool" where
  "crash_line os cs \<longleftrightarrow>
     (let cmd = hd cs
      in cmd = ''send'' \<and> length cs \<ge> 4 \<and> not_ipv4 (cs ! 1)
       \<or> cmd = ''traceroute'' \<and> length cs = 2 \<and> not_ipv4 (cs ! 1)
       \<or> cmd = ''a'' \<and> length cs = 1
       \<or> cmd = ''c'' \<and> length cs = 3 \<and> snd (Atoi (cs ! 2)) = None \<and> (ParseIP (cs ! 1) = None \<or> not_ipv4 (cs ! 1))
       \<or> cmd = ''s'' \<and> length cs \<ge> 3 \<and> fst (Atoi (cs ! 1)) < 0
       \<or> cmd = ''r'' \<and> length cs = 4 \<and> snd (Atoi (cs ! 1)) = None \<and> snd (Atoi (cs ! 2)) = None
           \<and> (cs ! 3 = ''y'' \<or> cs ! 3 = ''n'') \<and> fst (Atoi (cs ! 1)) < 0
       \<or> cmd = ''sf'' \<and> (length cs = 4 \<or> length cs = 5) \<and> snd (Atoi (cs ! 3)) = None \<and> not_ipv4 (cs ! 2)
           \<and> \<not> isl (Open os (cs ! 1)))"

definition only_panics :: "repl_result \<Rightarrow> bool \<Rightarrow> bool" where
  \<comment> \<open>the command panics if the condition holds and otherwise ends well\<close>
  "only_panics r b \<longleftrightarrow> (if b then r = Inl Panic else \<not> isl r)"

lemma only_panics_Inr [simp]: "only_panics (Inr x) b \<longleftrightarrow> \<not> b"
  by (simp add: only_panics_def)

lemma only_panics_Inl [simp]: "only_panics (Inl Panic) b \<longleftrightarrow> b"
  by (simp add: only_panics_def)

lemma only_panics_say [simp]: "only_panics (say n s) b \<longleftrightarrow> \<not> b"
  by (simp add: say_def)

lemma To4_Uint32: "Uint32_To4 (Some ip) = (case To4 ip of None \<Rightarrow> Inl Panic | Some b \<Rightarrow> get_be32 b)"
  by (simp add: Uint32_To4_def)

lemma get_be32_To4: "To4 ip = Some b \<Longrightarrow> \<exists>a. get_be32 b = Inr a"
proof -
  assume "To4 ip = Some b"
  then have "length b = 4" by (auto simp: To4_def split: if_splits)
  then show ?thesis by (auto simp: numeral_eq_Suc length_Suc_conv)
qed

lemma address_cases:
  obtains "ParseIP s = None" "\<not> not_ipv4 s"
  | ip where "ParseIP s = Some ip" "Uint32_To4 (Some ip) = Inl Panic" "not_ipv4 s"
  | ip a where "ParseIP s = Some ip" "Uint32_To4 (Some ip) = Inr a" "\<not> not_ipv4 s"
proof (cases "ParseIP s")
  case (Some ip)
  then show ?thesis
  proof (cases "To4 ip")
    case None
    then show ?thesis using Some that(2) by (simp add: To4_Uint32 not_ipv4_def)
  next
    case (Some b)
    then show ?thesis using \<open>ParseIP s = Some ip\<close> get_be32_To4 [OF Some] that(3) by (auto simp: To4_Uint32 not_ipv4_def)
  qed
qed (use that(1) in \<open>simp add: not_ipv4_def\<close>)

lemma healthy_lookup:
  assumes "healthy n" and "0 \<le> i" and "i < int (length (SocketIndexTable n))"
  obtains "elem_at (SocketIndexTable n) i = Inr None"
  | p where "elem_at (SocketIndexTable n) i = Inr (Some (ConnPtr (Some p)))" and "p < length (ConnHeap n)"
  | p tcb where "elem_at (SocketIndexTable n) i = Inr (Some (ListenerPtr (Some p)))" and "p < length (ListenerHeap n)"
      and "SocketTable (NodeTCP n) (ListenerTableKey (ListenerHeap n ! p)) = Some tcb"
proof -
  have e: "elem_at (SocketIndexTable n) i = Inr (SocketIndexTable n ! nat i)" using assms(2,3) by (simp add: elem_at_def)
  show thesis
  proof (cases "SocketIndexTable n ! nat i")
    case (Some s)
    then have "Some s \<in> set (SocketIndexTable n)" using assms(2,3) nth_mem [of "nat i" "SocketIndexTable n"] by simp
    then have h: "not_nil s" "handle_in n s" "\<And>p. s = ListenerPtr (Some p) \<Longrightarrow> SocketTable (NodeTCP n) (ListenerTableKey (ListenerHeap n ! p)) \<noteq> None"
      using assms(1) by (auto simp: healthy_def)
    then show thesis using that(2,3) e Some by (cases s) auto
  qed (use that(1) e in simp)
qed

lemma crash_send:
  assumes "4 \<le> length (Split line)"
  shows "only_panics (gbind (SendCommand ns ip4 line n) (\<lambda>fx. Inr (ReplScan, n, fx))) (not_ipv4 (Split line ! 1))"
proof -
  have l: "length (SplitN line 4) = 4" using SplitN_length [OF assms] .
  have n1: "SplitN line 4 ! 1 = Split line ! 1" using assms by (intro SplitN_nth) auto
  show ?thesis
    by (cases "Split line ! 1" rule: address_cases)
      (use l n1 in \<open>auto simp: SendCommand_def elem_at_def Let_def split: prod.splits option.splits\<close>)
qed

lemma crash_traceroute: "only_panics (Traceroute d n) (not_ipv4 d)"
  by (cases d rule: address_cases)
    (auto simp: Traceroute_def split: prod.splits option.splits traceroute_pc.splits)

lemma VConnect_panics: "Uint32_To4 ip = Inl f \<Longrightarrow> VConnect ns iss ip port n = Inl Panic"
  by (simp add: VConnect_def ip_addr4_def Connect_start_def)

lemma VConnect_returns: "Uint32_To4 ip = Inr a \<Longrightarrow> \<exists>pc n1 fx. VConnect ns iss ip port n = Inr (pc, n1, fx)"
  by (simp add: VConnect_def ip_addr4_def Connect_start_def Let_def)

lemma crash_c:
  "only_panics (cmd_c env cs n) (length cs = 3 \<and> snd (Atoi (cs ! 2)) = None \<and> (ParseIP (cs ! 1) = None \<or> not_ipv4 (cs ! 1)))"
proof -
  obtain port e where p: "Atoi (cs ! 2) = (port, e)" by fastforce
  show ?thesis
  proof (cases "cs ! 1" rule: address_cases)
    case 1
    then have "VConnect ns iss (ParseIP (cs ! 1)) q n = Inl Panic" for ns iss q by (intro VConnect_panics) (simp add: Uint32_To4_def)
    then show ?thesis using 1 p by (auto simp: cmd_c_def split: option.splits)
  next
    case (2 ip)
    then show ?thesis using p VConnect_panics [OF 2(2)] by (auto simp: cmd_c_def split: option.splits)
  next
    case (3 ip a)
    obtain pc n1 fx where "VConnect (env_ns env) (env_iss env) (Some ip) (word_of_int port) n = Inr (pc, n1, fx)"
      using VConnect_returns [OF 3(2)] by blast
    then show ?thesis using 3 p by (auto simp: cmd_c_def split: option.splits connect_pc.splits)
  qed
qed

lemma crash_sf:
  "only_panics (cmd_sf env cs n) ((length cs = 4 \<or> length cs = 5) \<and> snd (Atoi (cs ! 3)) = None \<and> not_ipv4 (cs ! 2)
     \<and> \<not> isl (Open (env_os env) (cs ! 1)))"
proof -
  obtain port e where p: "Atoi (cs ! 3) = (port, e)" by fastforce
  show ?thesis
  proof (cases "cs ! 2" rule: address_cases)
    case 1
    then show ?thesis using p by (auto simp: cmd_sf_def SendFileTCPCommand_def split: option.splits)
  next
    case (2 ip)
    then show ?thesis using p VConnect_panics [OF 2(2)] by (auto simp: cmd_sf_def SendFileTCPCommand_def split: option.splits sum.splits)
  next
    case (3 ip a)
    obtain pc n1 fx where "VConnect (env_ns env) (env_iss env) (Some ip) (word_of_int port) n = Inr (pc, n1, fx)"
      using VConnect_returns [OF 3(2)] by blast
    then show ?thesis using 3 p by (auto simp: cmd_sf_def SendFileTCPCommand_def split: option.splits sum.splits connect_pc.splits)
  qed
qed

lemma crash_a: "cs \<noteq> [] \<Longrightarrow> only_panics (cmd_a cs n) (length cs = 1)"
  by (cases cs) (auto simp: cmd_a_def elem_at_def Let_def split: prod.splits)

lemma crash_s:
  assumes "healthy n" and "3 \<le> length (Split line)"
  shows "only_panics (SendTCPCommand line n) (fst (Atoi (Split line ! 1)) < 0)"
proof -
  have l: "length (SplitN line 3) = 3" using SplitN_length [OF assms(2)] .
  have n1: "SplitN line 3 ! 1 = Split line ! 1" using assms(2) by (intro SplitN_nth) auto
  obtain i e where i: "Atoi (Split line ! 1) = (i, e)" by fastforce
  consider "i < 0" | "int (length (SocketIndexTable n)) \<le> i" | "0 \<le> i" "i < int (length (SocketIndexTable n))" by linarith
  then show ?thesis
  proof cases
    case 1
    then show ?thesis using l n1 i by (simp add: SendTCPCommand_def elem_at_def)
  next
    case 2
    then show ?thesis using l n1 i by (simp add: SendTCPCommand_def elem_at_def)
  next
    case 3
    have s: "elem_at (SplitN line 3) 1 = Inr (Split line ! 1)" "\<exists>d. elem_at (SplitN line 3) 2 = Inr d"
      using l n1 by (simp_all add: elem_at_def)
    show ?thesis
      by (rule healthy_lookup [OF assms(1) 3]) (use s i 3 in \<open>auto simp: SendTCPCommand_def deref_def\<close>)
  qed
qed

lemma ReadTCPCommand_total:
  assumes "healthy n" and "0 \<le> i"
  shows "\<exists>r. ReadTCPCommand i k a n = Inr r"
proof (cases "i < int (length (SocketIndexTable n))")
  case True
  show ?thesis by (rule healthy_lookup [OF assms True]) (use True in \<open>auto simp: ReadTCPCommand_def deref_def\<close>)
qed (simp add: ReadTCPCommand_def)

lemma crash_r:
  assumes "healthy n"
  shows "only_panics (cmd_r cs n) (length cs = 4 \<and> snd (Atoi (cs ! 1)) = None \<and> snd (Atoi (cs ! 2)) = None
    \<and> (cs ! 3 = ''y'' \<or> cs ! 3 = ''n'') \<and> fst (Atoi (cs ! 1)) < 0)"
proof -
  obtain i e where i: "Atoi (cs ! 1) = (i, e)" by fastforce
  obtain k e2 where k: "Atoi (cs ! 2) = (k, e2)" by fastforce
  show ?thesis
  proof (cases "i < 0")
    case True
    then have "ReadTCPCommand i b a n = Inl Panic" for a b by (simp add: ReadTCPCommand_def elem_at_def)
    then show ?thesis using i k True by (auto simp: cmd_r_def split: option.splits)
  next
    case False
    then obtain r where "ReadTCPCommand i (word_of_int k) (cs ! 3 = ''y'') n = Inr r"
      using ReadTCPCommand_total [OF assms] by fastforce
    then show ?thesis using i k False by (auto simp: cmd_r_def split: option.splits sum.splits)
  qed
qed

lemma CloseTCPCommand_total:
  assumes "healthy n"
  shows "\<exists>e n' fx. CloseTCPCommand i noRead n = Inr (e, n', fx)"
proof (cases "0 \<le> i \<and> i < int (length (SocketIndexTable n))")
  case True
  then have t: "0 \<le> i" "i < int (length (SocketIndexTable n))" by auto
  show ?thesis
    by (rule healthy_lookup [OF assms t])
      (use t in \<open>auto simp: CloseTCPCommand_def deref_def clear_slot_def listener_VClose_def CloseListener_def\<close>)
qed (auto simp: CloseTCPCommand_def)

lemma ShutDownTCPCommand_total:
  assumes "healthy n"
  shows "\<exists>e n' fx. ShutDownTCPCommand ns i opt n = Inr (e, n', fx)"
proof (cases "0 \<le> i \<and> i < int (length (SocketIndexTable n))")
  case True
  then have t: "0 \<le> i" "i < int (length (SocketIndexTable n))" by auto
  obtain e1 n1 fx1 where c: "CloseTCPCommand i False n = Inr (e1, n1, fx1)" using CloseTCPCommand_total [OF assms] by blast
  obtain e2 n2 fx2 where c2: "CloseTCPCommand i True n = Inr (e2, n2, fx2)" using CloseTCPCommand_total [OF assms] by blast
  show ?thesis
    by (rule healthy_lookup [OF assms t])
      (use t c c2 in \<open>auto simp: ShutDownTCPCommand_def deref_def VShutdown_def elem_at_def\<close>)
qed (auto simp: ShutDownTCPCommand_def)

lemma SetCongestionControl_total:
  assumes "healthy n"
  shows "\<exists>e n'. SetCongestionControl i b n = Inr (e, n')"
proof (cases "0 \<le> i \<and> i < int (length (SocketIndexTable n))")
  case True
  then have t: "0 \<le> i" "i < int (length (SocketIndexTable n))" by auto
  show ?thesis
    by (rule healthy_lookup [OF assms t])
      (use t in \<open>auto simp: SetCongestionControl_def deref_def elem_at_def split: sum.splits\<close>)
qed (auto simp: SetCongestionControl_def)

lemma list_sockets_total:
  assumes "\<forall>s. Some s \<in> set tbl \<longrightarrow> not_nil s \<and> handle_in n s"
  shows "\<exists>rows del. list_sockets n i tbl = Inr (rows, del)"
  using assms
proof (induction n i tbl rule: list_sockets.induct)
  case (3 n i s rest)
  have "\<exists>key. GetSocketTableKey n s = Inr key"
    using 3(2) by (cases s) (auto simp: GetSocketTableKey_def deref_def split: option.splits)
  then obtain key where "GetSocketTableKey n s = Inr key" by blast
  moreover from this obtain rows del where "list_sockets n (Suc i) rest = Inr (rows, del)"
    using 3 by auto
  ultimately show ?case by (auto split: option.splits)
qed auto

lemma commands_total:
  "only_panics (cmd_down env cs n) False" "only_panics (cmd_up env cs n) False" "only_panics (cmd_rf cs n) False"
  by (auto simp: cmd_down_def cmd_up_def cmd_rf_def split: prod.splits option.splits)

lemma socket_commands_total:
  assumes "healthy n"
  shows "only_panics (cmd_cl cs n) False" "only_panics (cmd_sd env cs n) False" "only_panics (cmd_sc cs n) False" "only_panics (cmd_ls cs n) False"
proof -
  obtain i e where i: "Atoi (cs ! 1) = (i, e)" by fastforce
  show "only_panics (cmd_cl cs n) False"
    using CloseTCPCommand_total [OF assms, of i True] i by (auto simp: cmd_cl_def split: option.splits)
  show "only_panics (cmd_sd env cs n) False"
    using ShutDownTCPCommand_total [OF assms, of "env_ns env" i "cs ! 2"] i by (auto simp: cmd_sd_def split: option.splits)
  show "only_panics (cmd_sc cs n) False"
    using SetCongestionControl_total [OF assms, of i "cs ! 2 = ''tahoe''"] i by (auto simp: cmd_sc_def)
  show "only_panics (cmd_ls cs n) False"
    using list_sockets_total [of "SocketIndexTable n" n 0] assms by (auto simp: cmd_ls_def ListSocketCommand_def healthy_def)
qed

lemma only_panics_if:
  "(b \<Longrightarrow> only_panics x c) \<Longrightarrow> (\<not> b \<Longrightarrow> only_panics y c) \<Longrightarrow> only_panics (if b then x else y) c"
  by simp

lemma only_panics_cong: "only_panics r b \<Longrightarrow> b' = b \<Longrightarrow> only_panics r b'"
  by simp

lemma run_command_panics:
  assumes "healthy n"
  shows "only_panics (run_command env line n) (crash_line (env_os env) (Split line))"
proof -
  have done_ok: "only_panics (Inr x) False" "only_panics (say n s) False" for x s by simp_all
  note leaf = done_ok crash_traceroute crash_c crash_sf crash_a [OF Split_not_Nil] crash_r [OF assms] commands_total
    socket_commands_total [OF assms] crash_send crash_s [OF assms]
  show ?thesis
    unfolding run_command_def Let_def Quit_def
    by (intro only_panics_if; rule only_panics_cong, rule leaf; (elim disjE)?; simp add: crash_line_def Let_def)
qed

section \<open>Sending a file\<close>

text \<open>
  The loop of \<open>SendFileTCPCommand\<close> on a connection where every \<open>VWrite\<close> succeeds, that is, returns the length of its
  data. Other goroutines may change the node in between. \<open>f\<close> is what the calls of \<open>Read\<close> return, in order: as the package \<open>os\<close> is free to
  do, a call may return less than 1024 bytes, or fail. \<open>ds\<close> collects the data of the writes that have returned.
\<close>

inductive sf_run :: "netstack \<Rightarrow> file_read list \<Rightarrow> byte list list \<Rightarrow> repl_pc \<Rightarrow> node_effect list \<Rightarrow> bool" for ns f where
  start: "sendfile_connected ns (Some vc) None f cc n = Inr (pc, n', fx) \<Longrightarrow> sf_run ns f [] pc fx"
| written: "sf_run ns f ds (ReplSendFile (SfWrite p socketID rest w c)) fx \<Longrightarrow>
    sendfile_written ns p socketID rest w (of_nat (length (wr_data c))) None n = Inr (pc, n', fx') \<Longrightarrow>
    sf_run ns f (ds @ [wr_data c]) pc fx'"

definition reads_whole :: "file_read list \<Rightarrow> byte list \<Rightarrow> bool" where
  \<comment> \<open>no call fails, and together they return the contents\<close>
  "reads_whole f contents \<longleftrightarrow> (\<forall>r \<in> set f. fst r \<noteq> [] \<and> snd r = None) \<and> concat (map fst f) = contents"

definition read_ok :: "byte list list \<Rightarrow> file_read list" where
  \<comment> \<open>calls that return these data without an error\<close>
  "read_ok ds = map (\<lambda>d. (d, None)) ds"

lemma Write_returns_length:
  "Write_step vc tcb c = Inr (tcb', c', fx) \<Longrightarrow> wr_pc c \<noteq> WriteDone k None \<Longrightarrow> wr_pc c' = WriteDone k None \<Longrightarrow>
     wr_data c' = wr_data c \<and> k = of_nat (length (wr_data c))"
  by (auto simp: write_room_def write_copy_def Let_def elim!: gbind_InrE split: write_pc.splits if_splits)

fun sf_inv :: "file_read list \<Rightarrow> byte list list \<Rightarrow> repl_pc \<Rightarrow> node_effect list \<Rightarrow> bool" where
  "sf_inv f ds (ReplSendFile (SfWrite p socketID rest w c)) fx \<longleftrightarrow>
     f = read_ok (ds @ [wr_data c]) @ rest \<and> [] \<notin> set (ds @ [wr_data c]) \<and> w = of_nat (length (concat ds))"
| "sf_inv f ds (ReplSendFile (SfClose socketID)) fx \<longleftrightarrow>
     (\<exists>rest. f = read_ok ds @ rest \<and> (rest = [] \<or> fst (hd rest) = [])) \<and> [] \<notin> set ds
     \<and> Print (''Total bytes written: '' @ itoa (unat (of_nat (length (concat ds)) :: u32)) @ newline) \<in> set fx"
| "sf_inv f ds ReplScan fx \<longleftrightarrow>
     (\<exists>d e rest. f = read_ok ds @ (d, Some e) # rest \<and> d \<noteq> [] \<and> Print (e @ newline) \<in> set fx) \<and> [] \<notin> set ds"
| "sf_inv f ds pc fx \<longleftrightarrow> False"

lemma sendfile_loop_inv:
  assumes "sendfile_loop ns p socketID rest w n = Inr (pc, n', fx)" and "f = read_ok ds @ rest" and "[] \<notin> set ds"
    and "w = of_nat (length (concat ds))"
  shows "sf_inv f ds pc fx"
proof (cases rest)
  case Nil
  then show ?thesis using assms by (auto simp: sendfile_loop_def elim!: gbind_InrE)
next
  case (Cons r more)
  obtain buf err where r: "r = (buf, err)" by fastforce
  show ?thesis
  proof (cases "buf = []")
    case True
    then show ?thesis using assms r Cons by (auto simp: sendfile_loop_def elim!: gbind_InrE)
  next
    case False
    then show ?thesis
      using assms r Cons by (auto simp: sendfile_loop_def VWrite_def read_ok_def elim!: gbind_InrE split: option.splits)
  qed
qed

lemma sendfile_connected_inv:
  assumes "sendfile_connected ns (Some vc) None f cc n = Inr (pc, n', fx)"
  shows "sf_inv f [] pc fx"
proof -
  obtain i j n1 fx1 where l: "sendfile_loop ns i j f 0 n1 = Inr (pc, n', fx1)" "set fx1 \<subseteq> set fx"
    using assms by (auto simp: sendfile_connected_def Let_def elim!: gbind_InrE split: prod.splits) blast
  have "sf_inv f [] pc fx1" by (rule sendfile_loop_inv [OF l(1)]) (simp_all add: read_ok_def)
  then show ?thesis using l(2) by (cases "(f, [] :: byte list list, pc, fx1)" rule: sf_inv.cases) auto
qed

lemma sf_run_inv: "sf_run ns f ds pc fx \<Longrightarrow> sf_inv f ds pc fx"
proof (induction rule: sf_run.induct)
  case (written ds p socketID rest w c fx n pc n' fx')
  then have i: "f = read_ok (ds @ [wr_data c]) @ rest" "[] \<notin> set (ds @ [wr_data c])" "w = of_nat (length (concat ds))" by auto
  have "sendfile_loop ns p socketID rest (w + of_nat (length (wr_data c))) n = Inr (pc, n', fx')"
    using written.hyps(2) by (simp add: sendfile_written_def)
  then show ?case by (rule sendfile_loop_inv [OF _ i(1,2)]) (simp add: i(3))
qed (rule sendfile_connected_inv)

section \<open>Properties\<close>

text \<open>
  C20. Socket numbers are file descriptors, as long as no two calls of \<open>AddToTable\<close> overlap. After any sequence of commands, returns of
  blocked calls, turns of goroutines and steps of the protocol stack from an empty table, every number in use names an existing
  socket (or a nil pointer), no two numbers name the same socket, a further step does not let a number in use name another socket, and a new
  socket gets the lowest number that is free. Nothing in the code keeps the calls apart, though the command line, \<open>acceptHelper\<close> and \<open>rf\<close> make
  them in different goroutines: of two calls that both find the same free entry before either writes to it, both return its
  number, and the first socket is nowhere in the table.
\<close>

theorem socket_numbers_stable:
  assumes "node_step\<^sup>*\<^sup>* n0 n" and "SocketIndexTable n0 = []" and "node_step n n'"
  shows "(\<forall>i s. names n i s \<longrightarrow> handle_in n s)
    \<and> (\<forall>i j s. names n i s \<and> names n j s \<and> not_nil s \<longrightarrow> i = j)
    \<and> (\<forall>i s s'. names n i s \<and> names n' i s' \<longrightarrow> s' = s)
    \<and> (\<forall>s i n1. AddToTable s n = (i, n1) \<longrightarrow> i = (LEAST i. \<forall>s. \<not> names n i s))
    \<and> (\<forall>s1 s2 i i1 i2 tbl1 tbl2. find_free (SocketIndexTable n) = Some i \<longrightarrow>
          put_slot s1 (Some i) (SocketIndexTable n) = (i1, tbl1) \<longrightarrow> put_slot s2 (Some i) tbl1 = (i2, tbl2) \<longrightarrow>
          i1 = i \<and> i2 = i \<and> tbl2 = (SocketIndexTable n)[i := Some s2])"
proof -
  have "table_ok n0" using assms(2) by (simp add: table_ok_def names_def)
  then have "table_ok n" by (rule table_ok_reachable [OF assms(1)])
  moreover have "\<forall>i s s'. names n i s \<and> names n' i s' \<longrightarrow> s' = s"
    using node_step_evolves [OF assms(3)] by (simp add: evolves_def)
  moreover have "i = (LEAST i. \<forall>s. \<not> names n i s)" if "AddToTable s n = (i, n1)" for s i n1
    using that by (rule AddToTable_lowest)
  moreover have "i1 = i \<and> i2 = i \<and> tbl2 = (SocketIndexTable n)[i := Some s2]"
    if "find_free (SocketIndexTable n) = Some i" "put_slot s1 (Some i) (SocketIndexTable n) = (i1, tbl1)" "put_slot s2 (Some i) tbl1 = (i2, tbl2)"
    for s1 s2 i i1 i2 tbl1 tbl2
    using overlapping_adds [OF that(1), of s1 s2] that by auto
  ultimately show ?thesis unfolding table_ok_def by blast
qed

definition sample_node :: Node where
  "sample_node = \<lparr>NodeHost = InitHost, NodeTCP = NewTCPHandler [0x0a000001], NodeTraceroute = \<lparr>HandleRoute = False\<rparr>,
     SocketIndexTable = [], ConnHeap = [], ListenerHeap = []\<rparr>"

definition sample_env :: repl_env where
  "sample_env = \<lparr>env_os = sample_os, env_ns = rfc793, env_ip4 = rfc791, env_iss = 7, env_ifs = [], env_routes = []\<rparr>"

lemma accept_line:
  assumes "space \<notin> set arg"
  shows "REPL_line env (''a '' @ arg) n = with_prompt (cmd_a [''a'', arg] n)"
proof -
  have s: "Split (''a '' @ arg) = [''a'', arg]"
    using Split_append [of "''a''" arg] Split_word [OF assms] by (simp add: space_def)
  have "run_command env (''a '' @ arg) n = cmd_a [''a'', arg] n" unfolding run_command_def s Let_def by simp
  then show ?thesis by (simp add: REPL_line_def)
qed

lemma sample_accept:
  "REPL_line sample_env ''a 9000'' sample_node = Inr (ReplScan,
     sample_node\<lparr>NodeTCP := snd (snd (Listen 9000 (NodeTCP sample_node))), SocketIndexTable := [Some (ListenerPtr (Some 0))],
       ListenerHeap := [\<lparr>ListenerTableKey = \<lparr>LocalAddr = 0x0a000001, LocalPort = 9000, DestAddr = 0, DestPort = 0\<rparr>, ListenerCancelled = False\<rparr>]\<rparr>,
     [GoAcceptHelper 0, Print ''> ''])"
proof -
  have a: "Atoi ''9000'' = (9000, None)" by (simp add: Atoi_def is_digit_def digit_val_def)
  show ?thesis
    using accept_line [of "''9000''" sample_env sample_node] a
    by (simp add: space_def cmd_a_def elem_at_def with_prompt_def AcceptCommand_def VListen_def Listen_def sample_node_def NewTCPHandler_def
        new_listener_ptr_def new_listener_handle_def AddToTable_def add_slot_def put_slot_def Let_def)
qed

theorem socket_numbers_stable_witness:
  "\<exists>n n'. node_step\<^sup>*\<^sup>* sample_node n \<and> node_step n n' \<and> names n 0 (ListenerPtr (Some 0)) \<and> names n' 0 (ListenerPtr (Some 0))
    \<and> (\<forall>i j s. names n i s \<and> names n j s \<and> not_nil s \<longrightarrow> i = j) \<and> (\<forall>i s s'. names n i s \<and> names n' i s' \<longrightarrow> s' = s)"
proof -
  obtain n pc fx where n: "REPL_line sample_env ''a 9000'' sample_node = Inr (pc, n, fx)" "SocketIndexTable n = [Some (ListenerPtr (Some 0))]"
    using sample_accept by simp
  have s: "node_step\<^sup>*\<^sup>* sample_node n" using node_step.line [OF n(1)] by blast
  have s2: "node_step n (n\<lparr>NodeHost := InitHost, NodeTCP := NodeTCP n, NodeTraceroute := NodeTraceroute n\<rparr>)" (is "node_step n ?n'")
    by (rule node_step.stack)
  have nm: "names n 0 (ListenerPtr (Some 0))" "names ?n' 0 (ListenerPtr (Some 0))" using n(2) by (simp_all add: names_def)
  show ?thesis
    using socket_numbers_stable [OF s _ s2] s s2 nm by (intro exI [of _ n] exI [of _ ?n']) (simp add: sample_node_def)
qed

text \<open>
  C37. A listen command that fails leaves a socket whose pointer is nil in the table, and the next listing of the sockets
  crashes the node.
\<close>

theorem failed_accept_breaks_ls:
  assumes "port < 2 ^ 16" and "fst (snd (Listen (of_nat port) (NodeTCP n))) = Some e"
  shows "\<exists>n' fx. REPL_line env (''a '' @ itoa port) n = Inr (ReplScan, n', fx) \<and> Print (''Accept error: '' @ e @ newline) \<in> set fx
    \<and> REPL_line env ''ls'' n' = Inl Panic"
proof -
  obtain t where l: "Listen (of_nat port) (NodeTCP n) = (None, Some e, t)"
    using assms(2) by (auto simp: Listen_def Let_def split: if_splits)
  let ?n1 = "n\<lparr>NodeTCP := t\<rparr>"
  obtain i n' where a: "AddToTable (ListenerPtr None) ?n1 = (i, n')" by fastforce
  have "Atoi (itoa port) = (int port, None)" using assms(1) by (intro Atoi_itoa) simp
  moreover have "(word_of_int (int port) :: u16) = of_nat port" by simp
  ultimately have r: "REPL_line env (''a '' @ itoa port) n = Inr (ReplScan, n', [Print (''Accept error: '' @ e @ newline), Print ''> ''])"
    unfolding accept_line [OF itoa_no_space] using l a by (simp add: cmd_a_def elem_at_def AcceptCommand_def VListen_def new_listener_ptr_def with_prompt_def)
  have "Some (ListenerPtr None) \<in> set (SocketIndexTable n')" using names_add(1) [OF a] by (auto simp: names_def in_set_conv_nth)
  then have "ListSocketCommand n' = Inl Panic" by (simp add: ListSocketCommand_def list_sockets_nil)
  then have "REPL_line env ''ls'' n' = Inl Panic"
    by (simp add: REPL_line_def run_command_def space_def cmd_ls_def with_prompt_def)
  then show ?thesis using r by auto
qed

theorem failed_accept_breaks_ls_witness:
  "\<exists>n' fx. REPL_line sample_env (''a '' @ itoa 80) sample_node = Inr (ReplScan, n', fx) \<and> REPL_line sample_env ''ls'' n' = Inl Panic"
  using failed_accept_breaks_ls [of 80 sample_node "''Invalid port number''" sample_env] by (auto simp: Listen_def)

text \<open>
  C23. Which command lines crash a healthy node, that is, one in which every socket number in use names an existing socket and every
  listener is in the socket table. There a line ends in a panic exactly in these cases: \<open>send\<close>, \<open>traceroute\<close> or \<open>sf\<close> with an
  address that is not IPv4, \<open>c\<close> with such an address or one that cannot be read, \<open>a\<close> without a port, and \<open>s\<close> or \<open>r\<close> with a negative
  socket number; every other line is carried out, up to its end or to the first call it waits in. A node is healthy when it starts, but need not
  stay so: a failed \<open>a\<close> leaves a nil pointer behind, and then even \<open>ls\<close> panics.
\<close>

theorem lines_that_crash:
  assumes "healthy n"
  shows "(REPL_line env line n = Inl Panic \<longleftrightarrow> crash_line (env_os env) (Split line)) \<and> REPL_line env line n \<noteq> Inl Hang"
proof -
  have "only_panics (REPL_line env line n) (crash_line (env_os env) (Split line))"
  proof (cases "line = []")
    case True
    then show ?thesis by (simp add: REPL_line_def crash_line_def)
  next
    case False
    then show ?thesis
      using run_command_panics [OF assms, of env line]
      by (cases "run_command env line n") (auto simp: REPL_line_def with_prompt_def only_panics_def split: prod.splits)
  qed
  then show ?thesis by (cases "REPL_line env line n") (auto simp: only_panics_def split: if_splits)
qed

theorem lines_that_crash_witness:
  "REPL_line sample_env ''s -1 hello'' sample_node = Inl Panic \<and> REPL_line sample_env ''ls'' sample_node \<noteq> Inl Panic"
proof -
  have h: "healthy sample_node" by (simp add: healthy_def sample_node_def)
  have "Split ''s -1 hello'' = [''s'', ''-1'', ''hello'']" by (simp add: space_def)
  moreover have "Atoi ''-1'' = (-1, None)" by (simp add: Atoi_def is_digit_def digit_val_def)
  ultimately have "crash_line os (Split ''s -1 hello'')" for os by (simp add: crash_line_def)
  moreover have "\<not> crash_line os (Split ''ls'')" for os by (simp add: crash_line_def space_def)
  ultimately show ?thesis using lines_that_crash [OF h, of sample_env] by blast
qed

text \<open>
  C30. What the command \<open>sf\<close> sends. On a connection whose writes succeed, the data handed to \<open>VWrite\<close> are, call by call, what the
  calls of \<open>Read\<close> returned, in order and without a gap. The command stops with an error at a call of \<open>Read\<close> that returns data and an error. It
  goes on to close the connection, reporting the number of bytes written (modulo \<open>2 ^ 32\<close>), at the first call that returns nothing,
  whether that is the end of the file or a failure. So if no call fails, then the command does not stop early, and the bytes written
  before the connection is closed are the whole file.
\<close>

theorem sendfile_writes_file:
  assumes "sf_run ns f ds pc fx"
  shows "((\<exists>p socketID rest w c. pc = ReplSendFile (SfWrite p socketID rest w c) \<and> f = read_ok (ds @ [wr_data c]) @ rest
        \<and> wr_data c \<noteq> [] \<and> w = of_nat (length (concat ds)))
      \<or> (\<exists>socketID rest. pc = ReplSendFile (SfClose socketID) \<and> f = read_ok ds @ rest \<and> (rest = [] \<or> fst (hd rest) = [])
        \<and> Print (''Total bytes written: '' @ itoa (unat (of_nat (length (concat ds)) :: u32)) @ newline) \<in> set fx)
      \<or> (\<exists>d e rest. pc = ReplScan \<and> f = read_ok ds @ (d, Some e) # rest \<and> d \<noteq> [] \<and> Print (e @ newline) \<in> set fx))
    \<and> (\<forall>contents. reads_whole f contents \<longrightarrow>
          pc \<noteq> ReplScan \<and> (\<forall>socketID. pc = ReplSendFile (SfClose socketID) \<longrightarrow> concat ds = contents))"
proof -
  have inv: "sf_inv f ds pc fx" by (rule sf_run_inv [OF assms])
  have m: "map fst (read_ok ds) = ds" by (simp add: read_ok_def comp_def)
  have "pc \<noteq> ReplScan \<and> (\<forall>socketID. pc = ReplSendFile (SfClose socketID) \<longrightarrow> concat ds = contents)" if w: "reads_whole f contents" for contents
  proof (intro conjI notI allI impI)
    show False if "pc = ReplScan" using inv w that by (auto simp: reads_whole_def)
    show "concat ds = contents" if pc: "pc = ReplSendFile (SfClose socketID)" for socketID
    proof -
      obtain rest where r: "f = read_ok ds @ rest" "rest = [] \<or> fst (hd rest) = []" using inv pc by auto
      have "rest = []" using w r by (cases rest) (auto simp: reads_whole_def)
      then show ?thesis using w m by (simp add: r(1) reads_whole_def)
    qed
  qed
  then show ?thesis using inv by (cases "(f, ds, pc, fx)" rule: sf_inv.cases) auto
qed

definition sample_up :: Node where
  \<comment> \<open>an established connection of the TCP handler, not yet in the table\<close>
  "sample_up = sample_node\<lparr>NodeTCP := \<lparr>SocketTable = [zero_SocketData \<mapsto> sample_conn], HandlerLocalAddr = 1, CurrentPort = 1025, Listeners = []\<rparr>\<rparr>"

theorem sendfile_writes_file_witness:
  "\<exists>pc fx c. sf_run rfc793 (read_ok [replicate 1024 7, replicate 476 7]) [] pc fx
    \<and> pc = ReplSendFile (SfWrite 0 0 (read_ok [replicate 476 7]) 0 c) \<and> wr_data c = replicate 1024 7"
proof -
  let ?vc = "\<lparr>SocketTableKey = zero_SocketData, ReadCancelled = False, WriteCancelled = False\<rparr>" and ?f = "read_ok [replicate 1024 7, replicate 476 7]"
  have "sendfile_connected rfc793 (Some ?vc) None ?f False sample_up =
      Inr (ReplSendFile (SfWrite 0 0 (read_ok [replicate 476 7]) 0 (VWrite (replicate 1024 7) ?vc (NodeTCP sample_up))),
        sample_up\<lparr>SocketIndexTable := [Some (ConnPtr (Some 0))], ConnHeap := [?vc]\<rparr>, [LogPrint ''returning from connect''])"
    by (simp add: sendfile_connected_def sendfile_loop_def new_conn_ptr_def new_conn_handle_def AddToTable_def add_slot_def put_slot_def
        deref_def sample_up_def sample_node_def read_ok_def)
  from sf_run.start [OF this] sendfile_writes_file [OF sf_run.start [OF this]] show ?thesis by (auto simp: VWrite_def read_ok_def)
qed

end
