(* ===== verification/Spec2Isabelle.thy ===== *)
theory Spec2Isabelle
  imports Lifecycle Stack NodeSockets
begin

text \<open>
  A model of a user-space TCP/IP stack written in Go (\<^verbatim>\<open>src/pkg/ip\<close>, \<^verbatim>\<open>src/pkg/tcp\<close>,
  \<^verbatim>\<open>src/cmd/node\<close>), and theorems about it.

  \<^bold>\<open>The program.\<close> A node is a process that plays a router or host. Its link layer sends IP packets as
  UDP datagrams (\<^verbatim>\<open>link_interface.go\<close>); the host (\<^verbatim>\<open>host.go\<close>) forwards packets by a routing table,
  answers expired ones with ICMP messages and hands its own ones to the handler registered for the
  protocol: RIP (\<^verbatim>\<open>rip_handler.go\<close>), traceroute (\<^verbatim>\<open>traceroute_handler.go\<close>), a test handler, or TCP.
  The TCP handler (\<^verbatim>\<open>pkg/tcp\<close>) keeps a table of sockets, runs the state machine of each connection and
  offers a blocking socket interface. The node itself (\<^verbatim>\<open>src/cmd/node\<close>) reads its links from a
  configuration file and then command lines from the terminal: they list tables, send packets and open, use and close
  sockets, which the user names by number.

  \<^bold>\<open>Conventions.\<close> Machine integers are words of their width, so that \<open>+\<close> wraps as in Go. A result of
  type \<open>'a go\<close> is either the value or a failure: \<open>Panic\<close> (index or slice bounds, nil) or \<open>Hang\<close> (a loop
  that never ends). Code that runs between taking and releasing a lock is one definition; a call that
  waits on a condition variable or channel is a step function over a program counter, and other
  goroutines may run between its steps. Where the code works on shared memory without the lock, its writes are steps of their own: in \<^verbatim>\<open>Read\<close> the
  copy with the update of \<^verbatim>\<open>LBR\<close>, the load and the store of \<^verbatim>\<open>RCV.WND\<close>; in the burst of \<^verbatim>\<open>Send\<close> the queueing and sending of a segment,
  the advance of \<^verbatim>\<open>SND.NXT\<close> and the time stamp. What a handler sends to channels, condition variables and new
  goroutines is returned as a list of effects. Time, initial sequence numbers and the iteration order of
  maps are arguments. The packages \<^verbatim>\<open>netstack/header\<close> and \<^verbatim>\<open>golang.org/x/net/ipv4\<close> are not part of the
  repository: records of functions (\<open>netstack\<close>, \<open>ip4\<close>) stand for them, and \<open>netstack_ok\<close> and \<open>ip4_ok\<close>
  state what their documentation promises. The operating system (name resolution, UDP sockets, files) is the record \<open>os\<close>.

  \<^bold>\<open>Theories.\<close>
  \<^item> \<open>Prelude\<close>: words, failures, slices, big-endian encoding.
  \<^item> \<open>RingBuffer\<close>: the circular buffers of 65535 bytes indexed by sequence number
    (\<^verbatim>\<open>SequenceToBufferInd\<close> and the copies of \<^verbatim>\<open>tcp_handler_core.go\<close>).
  \<^item> \<open>Segment\<close>: headers, checksums and messages (\<^verbatim>\<open>tcp_handler_utils.go\<close>).
  \<^item> \<open>Tcb\<close>: the records and constants of \<^verbatim>\<open>tcp_handler.go\<close>, \<^verbatim>\<open>socket.go\<close> and the handles.
  \<^item> \<open>EarlyArrivals\<close>: the queue of segments that arrived before their turn (\<^verbatim>\<open>tcp_early_arrivals.go\<close>); it
    stays ordered when segments do not overlap, and draining it then gives the largest acknowledgement they justify; a segment that arrives
    twice blocks it.
  \<^item> \<open>Congestion\<close>: Tahoe congestion control (\<^verbatim>\<open>tcp_handler_cc.go\<close>); its windows stay in range.
  \<^item> \<open>Timeout\<close>: the retransmission queue and timers (\<^verbatim>\<open>tcp_timeout.go\<close>); they give up after bounded tries.
  \<^item> \<open>ReceivePath\<close>: \<^verbatim>\<open>Receive\<close> and \<^verbatim>\<open>ReceiveFin\<close>; the receive buffer agrees with the peer's stream.
  \<^item> \<open>ReadPath\<close>: \<^verbatim>\<open>Read\<close>; it hands out the stream in order, each byte once, and returns; what its race with \<^verbatim>\<open>Receive\<close> does to the window.
  \<^item> \<open>SendPath\<close>: \<^verbatim>\<open>Write\<close>, \<^verbatim>\<open>Send\<close> and the zero-window probes; what is sent and sent again is the written stream.
  \<^item> \<open>Handlers\<close>: the state machine (\<^verbatim>\<open>tcp_segment_receive.go\<close>) and \<^verbatim>\<open>ReceivePacket\<close>; which transitions occur.
  \<^item> \<open>SocketApi\<close>: \<^verbatim>\<open>Connect\<close>, \<^verbatim>\<open>Listen\<close>, \<^verbatim>\<open>Accept\<close>, \<^verbatim>\<open>Close\<close> and the handle methods
    (\<^verbatim>\<open>tcp_close.go\<close>, \<^verbatim>\<open>vtcp_conn.go\<close>, \<^verbatim>\<open>vtcp_listener.go\<close>); pending connections are served in order.
  \<^item> \<open>Endpoints\<close>: what each step of one end of an established connection keeps of the streams it sends and receives.
  \<^item> \<open>Reliability\<close>: two ends and a network that loses, delays, repeats and reorders segments. What \<^verbatim>\<open>Read\<close> delivers is
    a prefix of what \<^verbatim>\<open>Write\<close> accepted; the connection refines a bounded queue of bytes; nothing panics; a block gets through. This is
    for one direction, one reader and no congestion control; three interleavings in which the code races, listed there, are left out. A
    \<^verbatim>\<open>Write\<close> that returns with the lock held stops every later step that needs it.
  \<^item> \<open>Lifecycle\<close>: two TCP handlers from \<^verbatim>\<open>Connect\<close> and \<^verbatim>\<open>Listen\<close> through the handshake to the state in which
    \<open>Reliability\<close> starts, and from \<^verbatim>\<open>Close\<close> on both sides to CLOSED.
  \<^item> \<open>Rip\<close>: the routing table and the RIP handler; updates are those of a distance-vector protocol.
  \<^item> \<open>RipNetwork\<close>: networks of RIP handlers; routes are real paths, and tables converge to distances.
  \<^item> \<open>IpHost\<close>: the host, its interfaces, ICMP and traceroute; packets are delivered along routes. \<open>carry\<close> follows a packet along a list of
    hosts with their UDP addresses: a datagram reaches the next host only if it was written to the address of that host.
  \<^item> \<open>Stack\<close>: networks of hosts with RIP, TCP and traceroute on top. The hosts carry the updates that \<open>RipNetwork\<close>
    exchanges; with the tables that these give, test packets and TCP segments arrive and traceroute returns a shortest path.
  \<^item> \<open>GoText\<close>: the text functions of Go's library that the node uses (\<^verbatim>\<open>strings\<close>, \<^verbatim>\<open>strconv\<close>, \<^verbatim>\<open>net.ParseIP\<close>);
    printed numbers and addresses are read back.
  \<^item> \<open>NodeInit\<close>: the node and its configuration (\<^verbatim>\<open>node_init.go\<close>); a configuration file is read as it was written.
  \<^item> \<open>NodeCommands\<close>: the commands (\<^verbatim>\<open>node_tcp_commands.go\<close>, \<^verbatim>\<open>node_ip_commands.go\<close>,
    \<^verbatim>\<open>node_tcp_cc_commands.go\<close>) and the loop that reads them (\<^verbatim>\<open>node.go\<close>), with the test handler. A handle is a pointer
    into an array of the node, because a command and the goroutines it starts share it.
  \<^item> \<open>NodeSockets\<close>: runs of the node. Socket numbers are stable and name distinct sockets while calls of \<^verbatim>\<open>AddToTable\<close>, which takes no lock, do
    not overlap; which lines panic on a healthy node; what \<^verbatim>\<open>sf\<close> writes, given what the reads of the file return.

  \<^bold>\<open>Bounds.\<close> Theorems that read sequence numbers as stream positions assume that these stay below \<open>2 ^ 32\<close>:
  buffer positions are sequence numbers modulo 65535, and the code does not keep them consistent when the
  sequence numbers wrap around. A host reads datagrams into 1400 bytes and loses what is longer (\<open>ListenOnPort_datagram\<close>,
  \<open>datagram_payload\<close>); the networks of \<open>RipNetwork\<close> and \<open>Stack\<close> have at most 114 addresses, so that every routing update fits. No definition that
  translates code uses fuel. \<open>carry_on\<close> of \<open>Stack\<close>, which follows a packet from host to host, takes a number of datagrams: 16 is
  the largest time to live a host sets, and 32 covers a probe and the message that reports it; \<open>run_traceroute\<close> sends the
  16 probes of the code at most. The theorems show that these numbers are enough.

  \<^bold>\<open>Not modelled.\<close> Logging inside the stack and the layout of the tab writer; \<^verbatim>\<open>main\<close>, \<^verbatim>\<open>StartNode\<close>,
  \<^verbatim>\<open>StartHost\<close> and \<^verbatim>\<open>CancelHost\<close>, which only start and stop the parts; the type of \<^verbatim>\<open>interface_table.go\<close>, which
  nothing uses; the C and Lua tools, which are not part of the node.
\<close>

end
